(* ===== verification/Prelude.thy ===== *)
theory Prelude
  imports Main "HOL-Library.Word"
begin

text \<open>
  Shared vocabulary of the development: the C integer types, byte strings and the memory a
  buffer pointer points into, the result of C functions that may hang or be undefined, the
  pieces of libc string formatting the sources use, and the collections of rewrite rules that
  the component theories extend.
\<close>

named_theorems slice_simps "reading and writing pieces of byte lists"
named_theorems fd_simps "the descriptor table after a system call"
named_theorems file_simps "the file store after a system call"

section \<open>Machine integers\<close>

text \<open>
  \<open>uint64_t\<close> and \<open>size_t\<close> are \<open>u64\<close>, \<open>uint32_t\<close> is \<open>u32\<close>. A C \<open>int\<close> is \<open>i32\<close>: a 32 bit word
  whose value is read by \<^term>\<open>sint\<close>.
\<close>

type_synonym u8 = "8 word"
type_synonym u32 = "32 word"
type_synonym i32 = "32 word"
type_synonym u64 = "64 word"
type_synonym bytes = "u8 list"

lemma unat_add_no_wrap:
  fixes a b :: "'a::len word"
  assumes "unat a + unat b < 2 ^ LENGTH('a)"
  shows "unat (a + b) = unat a + unat b"
  using assms by (simp add: unat_word_ariths)

lemma unat_mult_no_wrap:
  fixes a b :: "'a::len word"
  assumes "unat a * unat b < 2 ^ LENGTH('a)"
  shows "unat (a * b) = unat a * unat b"
  using assms by (simp add: unat_word_ariths)

lemma unat_diff_le:
  fixes a b :: "'a::len word"
  assumes "unat b \<le> unat a"
  shows "unat (a - b) = unat a - unat b"
  using assms by (metis unat_sub word_le_nat_alt)

lemma unat_of_nat_small:
  "n < 2 ^ LENGTH('a) \<Longrightarrow> unat (of_nat n :: 'a::len word) = n"
  by (simp add: unat_of_nat)

lemma unat_lt64: "unat (x :: u64) < 18446744073709551616"
  using unsigned_less [of x] by simp

text \<open>A non-negative C \<open>int\<close>: its signed and its unsigned reading agree.\<close>

lemma sint_of_nat_small:
  assumes "n < 2147483648"
  shows "sint (of_nat n :: i32) = int n"
proof -
  have "take_bit 32 n = n" using assms by (simp add: take_bit_nat_eq_self_iff)
  then show ?thesis using assms
    by (simp add: sint_uint unsigned_of_nat signed_take_bit_int_eq_self_iff)
qed

lemma sint_unat_small64:
  assumes "unat (x :: u64) < 9223372036854775808"
  shows "sint x = int (unat x)"
proof -
  have "take_bit 64 (unat x) = unat x" using assms by (simp add: take_bit_nat_eq_self_iff)
  then have "sint (of_nat (unat x) :: u64) = int (unat x)" using assms
    by (simp add: sint_uint unsigned_of_nat signed_take_bit_int_eq_self_iff del: of_nat_unat)
  then show ?thesis by simp
qed

section \<open>Byte lists\<close>

text \<open>\<open>slice b o n\<close> is the \<open>n\<close> bytes of \<open>b\<close> from offset \<open>o\<close>; \<open>splice b o d\<close> is \<open>b\<close> with the
  bytes from offset \<open>o\<close> replaced by \<open>d\<close> (\<open>memcpy\<close> into a buffer).\<close>

definition slice :: "'a list \<Rightarrow> nat \<Rightarrow> nat \<Rightarrow> 'a list" where
  "slice b off n = take n (drop off b)"

definition splice_at :: "'a list \<Rightarrow> nat \<Rightarrow> 'a list \<Rightarrow> 'a list" where
  "splice_at b off d = take off b @ d @ drop (off + length d) b"

lemma length_slice [simp]: "length (slice b off n) = min n (length b - off)"
  by (simp add: slice_def)

lemma length_splice_at [simp]:
  "off + length d \<le> length b \<Longrightarrow> length (splice_at b off d) = length b"
  by (simp add: splice_at_def)

lemma slice_0 [simp]: "slice b off 0 = []"
  by (simp add: slice_def)

lemma splice_at_Nil [simp]: "splice_at b off [] = b"
  by (simp add: splice_at_def)

lemma nth_slice [simp]: "i < n \<Longrightarrow> off + i < length b \<Longrightarrow> slice b off n ! i = b ! (off + i)"
  by (simp add: slice_def)

lemma nth_splice_at:
  assumes "off + length d \<le> length b" and "i < length b"
  shows "splice_at b off d ! i = (if off \<le> i \<and> i < off + length d then d ! (i - off) else b ! i)"
  using assms by (auto simp: splice_at_def nth_append)

lemma slice_append [slice_simps]: "slice b off m @ slice b (off + m) n = slice b off (m + n)"
  unfolding slice_def by (metis add.commute drop_drop take_add)

lemma splice_at_append [slice_simps]:
  "off + length d + length e \<le> length b \<Longrightarrow>
   splice_at (splice_at b off d) (off + length d) e = splice_at b off (d @ e)"
  by (simp add: splice_at_def ac_simps)

lemma slice_splice_at [slice_simps]:
  "off + length d \<le> length b \<Longrightarrow> slice (splice_at b off d) off (length d) = d"
  by (simp add: splice_at_def slice_def)

lemma slice_full [simp]: "length b \<le> n \<Longrightarrow> slice b 0 n = b"
  by (simp add: slice_def)

lemma list_eq_slice_iff:
  "length d = n \<Longrightarrow> off + n \<le> length b \<Longrightarrow>
   d = slice b off n \<longleftrightarrow> (\<forall>i < n. d ! i = b ! (off + i))"
  by (auto simp: list_eq_iff_nth_eq)

section \<open>Results of C functions\<close>

text \<open>
  A C function returns, never returns (a loop that spins or a lock that is never released), or
  is undefined (a \<open>NULL\<close> dereference, an index outside an array). The loops of the object
  layer are options, \<open>None\<close> for never returning; the LUN layer adds undefinedness.
\<close>

datatype 'a c_result = Returns 'a | Hangs | Undefined

fun c_bind :: "'a c_result \<Rightarrow> ('a \<Rightarrow> 'b c_result) \<Rightarrow> 'b c_result" where
  "c_bind (Returns x) f = f x"
| "c_bind Hangs f = Hangs"
| "c_bind Undefined f = Undefined"

fun of_run :: "'a option \<Rightarrow> 'a c_result" where
  "of_run None = Hangs"
| "of_run (Some x) = Returns x"

lemma c_bind_Returns [simp]: "c_bind m Returns = m"
  by (cases m) auto

lemma c_bind_cong_Returns:
  "(\<And>x. m = Returns x \<Longrightarrow> f x = h x) \<Longrightarrow> c_bind m f = c_bind m h"
  by (cases m) auto

lemma c_bind_assoc: "c_bind (c_bind m f) h = c_bind m (\<lambda>x. c_bind (f x) h)"
  by (cases m) auto

lemma c_bind_eq_Returns_iff:
  "c_bind m f = Returns y \<longleftrightarrow> (\<exists>x. m = Returns x \<and> f x = Returns y)"
  by (cases m) auto

lemma of_run_eq_Returns_iff [simp]: "of_run m = Returns x \<longleftrightarrow> m = Some x"
  by (cases m) auto

lemma of_run_not_Undefined [simp]: "of_run m \<noteq> Undefined"
  by (cases m) auto

section \<open>String formatting\<close>

text \<open>\<open>snprintf(p,n,\<dots>)\<close> keeps at most \<open>n-1\<close> characters; \<open>%02hhX\<close> prints a byte as two upper
  case hexadecimal digits.\<close>

definition snprintf :: "nat \<Rightarrow> string \<Rightarrow> string" where
  "snprintf n s = take (n - 1) s"

definition hex_digit :: "nat \<Rightarrow> char" where
  "hex_digit d = ''0123456789ABCDEF'' ! d"

definition hex2 :: "u8 \<Rightarrow> string" where
  "hex2 b = [hex_digit (unat b div 16), hex_digit (unat b mod 16)]"

definition hex_bytes :: "bytes \<Rightarrow> string" where
  "hex_bytes bs = concat (map hex2 bs)"

definition unhex_digit :: "char \<Rightarrow> nat option" where
  "unhex_digit c =
     (let n = of_char c :: nat in
      if 48 \<le> n \<and> n \<le> 57 then Some (n - 48)
      else if 65 \<le> n \<and> n \<le> 70 then Some (n - 55) else None)"

fun unhex_bytes :: "string \<Rightarrow> bytes option" where
  "unhex_bytes [] = Some []"
| "unhex_bytes [c] = None"
| "unhex_bytes (c # d # s) =
     (case (unhex_digit c, unhex_digit d, unhex_bytes s) of
        (Some h, Some l, Some bs) \<Rightarrow> Some (of_nat (16 * h + l) # bs)
      | _ \<Rightarrow> None)"

lemma snprintf_id: "length s < n \<Longrightarrow> snprintf n s = s"
  by (simp add: snprintf_def)

lemma length_hex2 [simp]: "length (hex2 b) = 2"
  by (simp add: hex2_def)

lemma length_hex_bytes [simp]: "length (hex_bytes bs) = 2 * length bs"
  by (induction bs) (simp_all add: hex_bytes_def)

lemma hex_bytes_Nil [simp]: "hex_bytes [] = []"
  by (simp add: hex_bytes_def)

lemma hex_bytes_Cons: "hex_bytes (b # bs) = hex2 b @ hex_bytes bs"
  by (simp add: hex_bytes_def)

lemma unhex_digit_hex_digit: "d < 16 \<Longrightarrow> unhex_digit (hex_digit d) = Some d"
proof -
  have "\<forall>d \<in> {..<16}. unhex_digit (hex_digit d) = Some d"
    by (simp add: lessThan_nat_numeral lessThan_Suc unhex_digit_def hex_digit_def Let_def)
  then show "d < 16 \<Longrightarrow> unhex_digit (hex_digit d) = Some d" by simp
qed

lemma unhex_hex_bytes: "unhex_bytes (hex_bytes bs) = Some bs"
proof (induction bs)
  case Nil
  then show ?case by simp
next
  case (Cons b bs)
  have "unat b < 256" using unsigned_less [of b] by simp
  then have h: "unat b div 16 < 16" by simp
  have "of_nat (16 * (unat b div 16) + unat b mod 16) = b" by simp
  then show ?case
    using Cons h by (simp add: hex_bytes_Cons hex2_def unhex_digit_hex_digit)
qed

lemma hex_bytes_inject [simp]: "hex_bytes as = hex_bytes bs \<longleftrightarrow> as = bs"
  by (metis option.inject unhex_hex_bytes)

end
