(* ===== verification/Osd_Types.thy ===== *)
theory Osd_Types
  imports Prelude
begin

text \<open>
  The data of include/simpleOSD_bs.h, simpleOSD_mds_helper.h, simpleOSD_fetch_helper.h and
  simpleOSD_helper.h: the constants, the return codes, and the structures as records. A field
  keeps its C name under a short prefix of its structure. A C array of structures is a function
  from the index; a fixed size \<open>char\<close> array that holds an object id is a byte list of length
  \<open>MAXOIDLEN\<close>, one that holds a C string is the string up to its terminator.
\<close>

section \<open>Constants\<close>

definition MAXNAMESIZE :: nat where "MAXNAMESIZE = 256"
definition MAXPATHSIZE :: nat where "MAXPATHSIZE = 4096"
definition MAXPATHLEN :: nat where "MAXPATHLEN = 4096"
definition NBMAXOBJECTS :: nat where "NBMAXOBJECTS = 1000"
definition MAXOIDLEN :: nat where "MAXOIDLEN = 12"
definition MAXOIDSTRLEN :: nat where "MAXOIDSTRLEN = 12 * 2 + 1"
definition MAX_PARAM_LEN :: nat where "MAX_PARAM_LEN = 128"
definition MAX_IP_STRLEN :: nat where "MAX_IP_STRLEN = 25"
definition NB_MAX_LUN :: nat where "NB_MAX_LUN = 20"
definition RESERVED_FDS :: int where "RESERVED_FDS = 3"
definition FIRST_LEVEL :: nat where "FIRST_LEVEL = 11"
definition SECOND_LEVEL :: nat where "SECOND_LEVEL = 10"
definition DIR_LEVEL_LEN :: nat where "DIR_LEVEL_LEN = 25"
definition FALSE :: i32 where "FALSE = 0"
definition TRUE :: i32 where "TRUE = 1"

section \<open>Return codes\<close>

datatype BS_IO_RETURN = BS_IO_SUCCESS | BS_IO_ERROR
datatype BLK_IO_RETURN = BLK_IO_SUCCESS | BLK_IO_ERROR
datatype OSD_RETURN = OSD_SUCCESS | OSD_ERROR
datatype OBJ_RETURN = OBJ_SUCCESS | OBJ_ERROR
datatype GENERIC_RETURN = GEN_SUCCESS | GEN_ERROR
datatype MDS_HELPER_RETURN = MDS_HELPER_SUCCESS | MDS_HELPER_ERROR
datatype BLK_OBJ_FETCH_RET = BLK_OBJ_FETCH_SUCCESS | BLK_OBJ_FETCH_ERROR

section \<open>Data placement\<close>

text \<open>The union \<open>IP\<close>: four octets in memory order, or one 32 bit value (little endian host).\<close>

record IP =
  first_octet :: u8
  second_octet :: u8
  third_octet :: u8
  fourth_octet :: u8

definition uint_ip :: "IP \<Rightarrow> u32" where
  "uint_ip ip = ucast (first_octet ip) + 2 ^ 8 * ucast (second_octet ip)
     + 2 ^ 16 * ucast (third_octet ip) + 2 ^ 24 * ucast (fourth_octet ip)"

definition zero_ip :: IP where
  "zero_ip = \<lparr>first_octet = 0, second_octet = 0, third_octet = 0, fourth_octet = 0\<rparr>"

record dp_ip_obj_range =
  dr_start_oid :: i32
  dr_dp_ip :: IP
  dr_dp_id :: i32
  dr_range :: i32

record dp_data_map =
  dm_dp_data :: "nat \<Rightarrow> dp_ip_obj_range"
  dm_nb_dp_nodes :: i32
  dm_fixed_range :: i32

section \<open>Objects, collections, LUNs\<close>

record object_attr =
  oa_oid :: bytes
  oa_ts :: u64
  oa_size :: u64
  oa_object_index :: i32
  oa_file_fd :: int
  oa_object_to_path_fn :: bool   \<comment> \<open>the function pointer is set (it is never called)\<close>

text \<open>\<open>memset(p_object,0,sizeof(object_attr_t))\<close>\<close>

definition zero_object_attr :: object_attr where
  "zero_object_attr = \<lparr>oa_oid = replicate MAXOIDLEN 0, oa_ts = 0, oa_size = 0,
     oa_object_index = 0, oa_file_fd = 0, oa_object_to_path_fn = False\<rparr>"

record osd_collection =
  oc_object_attr_cache :: "nat \<Rightarrow> object_attr"
  oc_object_size :: u64
  oc_nb_objects :: u64
  oc_name :: string              \<comment> \<open>osd_collection_name\<close>
  oc_io_flag :: u32
  oc_start_object :: bytes
  oc_dp_data :: dp_data_map

text \<open>\<open>lun_dc_info_t\<close> is folded in: \<open>MAXCOLLECTIONSIZE\<close> is 1, one collection per LUN.\<close>

record osd_lun =
  ol_lun_index :: i32
  ol_io_flag :: u32
  ol_block_size :: u64
  ol_lun_vol :: string
  ol_lun_capacity :: u64
  ol_is_fs_done :: i32
  ol_lun_dc_path :: string
  ol_collection :: osd_collection   \<comment> \<open>datacache_info.osd_collection_list[0]\<close>

section \<open>Arguments and parameters\<close>

record blk_io_args =
  ba_lun_index :: i32
  ba_buf :: bytes
  ba_buf_len :: u64
  ba_offset :: u64

record blk_obj_fetch_arg =
  fa_volume_name :: string
  fa_oid :: bytes
  fa_oid_str :: "string option"     \<comment> \<open>\<open>None\<close> is \<open>NULL\<close>\<close>
  fa_object_index :: u64
  fa_object_size :: u64
  fa_dp_ip :: IP

record blk_frontend_parameters =
  bp_dc_path :: string
  bp_dp_mds_addr :: string
  bp_block_size :: i32
  bp_streaming_size :: u64
  bp_is_intiliazed :: i32

section \<open>A small instance\<close>

text \<open>Three objects of four bytes, all placed on one node: the example the witnesses share.\<close>

definition ex_start :: bytes where
  "ex_start = [0, 1, 2, 3, 4, 5, 6, 7, 0, 0, 1, 255]"

definition ex_params :: blk_frontend_parameters where
  "ex_params = \<lparr>bp_dc_path = ''/d'', bp_dp_mds_addr = ''127.0.0.1'', bp_block_size = 4096,
     bp_streaming_size = 1048576, bp_is_intiliazed = 1\<rparr>"

definition ex_dp_map :: dp_data_map where
  "ex_dp_map = \<lparr>dm_dp_data = (\<lambda>_. \<lparr>dr_start_oid = 0, dr_dp_ip = zero_ip, dr_dp_id = 0,
     dr_range = 500\<rparr>), dm_nb_dp_nodes = 1, dm_fixed_range = 500\<rparr>"

definition ex_collection :: osd_collection where
  "ex_collection = \<lparr>oc_object_attr_cache = (\<lambda>_. zero_object_attr), oc_object_size = 4,
     oc_nb_objects = 3, oc_name = ''vol'', oc_io_flag = 2, oc_start_object = ex_start,
     oc_dp_data = ex_dp_map\<rparr>"

end
