(* ===== verification/Lun_Table.thy ===== *)
theory Lun_Table
  imports Osd_Types
begin

unbundle bit_operations_syntax

text \<open>
  The table of LUNs, \<open>p_simpleOSD_lun_list\<close>: twenty slots, each a pointer to an \<open>osd_lun_t\<close> whose
  lowest bit says whether the LUN is in use (the macros of include/simpleOSD_bs.h). The memory
  the slots point into is explicit: \<open>bs_heap\<close> maps addresses to LUNs, and \<open>bs_malloc\<close> is the
  sequence of blocks \<open>malloc\<close> will hand out, with the indeterminate contents it finds there; when
  it is used up \<open>malloc\<close> returns \<open>NULL\<close>. An index outside the table or a pointer to no LUN is
  undefined behaviour.
\<close>

section \<open>Tagged pointers\<close>

definition LUN_FREE :: u64 where "LUN_FREE = 0"
definition LUN_USED :: u64 where "LUN_USED = 1"

text \<open>The mask as it is written: 60 bits, the three lowest clear.\<close>

definition PTR_MASK :: u64 where "PTR_MASK = 0xffffffffffffff8"

definition VAL_POINTER :: "u64 \<Rightarrow> u64" where "VAL_POINTER p = PTR_MASK AND p"
definition VAL_DATA :: "u64 \<Rightarrow> u64" where "VAL_DATA p = 7 AND p"

definition FREE_LUN :: "u64 \<Rightarrow> u64" where
  "FREE_LUN p = (let p = PTR_MASK AND p in LUN_FREE OR p)"

definition USE_LUN :: "u64 \<Rightarrow> u64" where
  "USE_LUN p = (let p = PTR_MASK AND p in LUN_USED OR p)"

definition IS_FREE :: "u64 \<Rightarrow> bool" where "IS_FREE p \<longleftrightarrow> 1 AND p = 0"

lemma ptr_mask_idem: "PTR_MASK AND (PTR_MASK AND p) = PTR_MASK AND p"
  by (simp flip: and.assoc)

lemma one_and_mask: "1 AND (PTR_MASK AND p) = 0"
proof -
  have "1 AND (PTR_MASK AND p) = (1 AND PTR_MASK) AND p" by (simp only: and.assoc)
  also have "(1 :: u64) AND PTR_MASK = 0" by (simp add: PTR_MASK_def)
  finally show ?thesis by simp
qed

lemma tag_simps [simp]:
  "VAL_POINTER (FREE_LUN p) = VAL_POINTER p" "VAL_POINTER (USE_LUN p) = VAL_POINTER p"
  "VAL_POINTER (VAL_POINTER p) = VAL_POINTER p"
  "IS_FREE (FREE_LUN p)" "\<not> IS_FREE (USE_LUN p)" "USE_LUN p \<noteq> 0"
  "USE_LUN (USE_LUN p) = USE_LUN p" "USE_LUN (FREE_LUN p) = USE_LUN p"
  "FREE_LUN (USE_LUN p) = FREE_LUN p"
proof -
  have "PTR_MASK AND 1 = 0" by (simp add: PTR_MASK_def)
  then have m: "PTR_MASK AND (1 OR (PTR_MASK AND p)) = PTR_MASK AND p"
    by (simp add: bit.conj_disj_distrib ptr_mask_idem)
  have "1 AND (1 OR (PTR_MASK AND p)) = 1"
    by (simp add: bit.conj_disj_distrib one_and_mask)
  then show used: "\<not> IS_FREE (USE_LUN p)"
    by (simp add: IS_FREE_def USE_LUN_def LUN_USED_def)
  then show "USE_LUN p \<noteq> 0" by (auto simp: IS_FREE_def)
  show "VAL_POINTER (FREE_LUN p) = VAL_POINTER p" "VAL_POINTER (USE_LUN p) = VAL_POINTER p"
    "VAL_POINTER (VAL_POINTER p) = VAL_POINTER p" "IS_FREE (FREE_LUN p)"
    "USE_LUN (USE_LUN p) = USE_LUN p" "USE_LUN (FREE_LUN p) = USE_LUN p"
    "FREE_LUN (USE_LUN p) = FREE_LUN p"
    by (simp_all add: VAL_POINTER_def FREE_LUN_def USE_LUN_def IS_FREE_def LUN_FREE_def
        LUN_USED_def ptr_mask_idem one_and_mask m)
qed

section \<open>The table\<close>

record bs_state =
  bs_lun_list :: "u64 list"                  \<comment> \<open>\<open>p_simpleOSD_lun_list\<close>\<close>
  bs_heap :: "u64 \<Rightarrow> osd_lun option"
  bs_malloc :: "(u64 \<times> osd_lun) list"

definition lun_slot :: "bs_state \<Rightarrow> i32 \<Rightarrow> u64 c_result" where
  "lun_slot st i =
     (if 0 \<le> sint i \<and> sint i < int (length (bs_lun_list st))
      then Returns (bs_lun_list st ! nat (sint i)) else Undefined)"

text \<open>\<open>*p\<close> for a pointer to a LUN.\<close>

definition deref_lun :: "bs_state \<Rightarrow> u64 \<Rightarrow> osd_lun c_result" where
  "deref_lun st a = (case bs_heap st a of None \<Rightarrow> Undefined | Some l \<Rightarrow> Returns l)"

definition store_lun :: "bs_state \<Rightarrow> u64 \<Rightarrow> osd_lun \<Rightarrow> bs_state" where
  "store_lun st a l = st\<lparr>bs_heap := (bs_heap st)(a \<mapsto> l)\<rparr>"

definition set_slot :: "bs_state \<Rightarrow> nat \<Rightarrow> u64 \<Rightarrow> bs_state" where
  "set_slot st n p = st\<lparr>bs_lun_list := (bs_lun_list st)[n := p]\<rparr>"

definition GET_MEMORY :: "bs_state \<Rightarrow> u64 \<times> bs_state" where
  "GET_MEMORY st = (case bs_malloc st of
       [] \<Rightarrow> (0, st)
     | (a, l) # ms \<Rightarrow> (a, st\<lparr>bs_malloc := ms, bs_heap := (bs_heap st)(a \<mapsto> l)\<rparr>))"

text \<open>The search of \<open>simpleOSD_lun_open\<close>: the first slot that is empty or whose LUN is free.\<close>

fun next_free_lun :: "u64 list \<Rightarrow> nat" where
  "next_free_lun [] = 0"
| "next_free_lun (p # ps) =
     (if p = 0 then 0 else if IS_FREE p then 0 else Suc (next_free_lun ps))"

section \<open>Abstract slots\<close>

datatype slot = Vacant | Closed | In_Use

text \<open>The slots in the order of their life; from \<open>Closed\<close> on a slot leads to a LUN in memory.\<close>

fun slot_rank :: "slot \<Rightarrow> nat" where
  "slot_rank Vacant = 0"
| "slot_rank Closed = 1"
| "slot_rank In_Use = 2"

lemma slot_rank_inject [simp]: "slot_rank x = slot_rank y \<longleftrightarrow> x = y"
  by (cases x; cases y) simp_all

instantiation slot :: linorder
begin

definition less_eq_slot :: "slot \<Rightarrow> slot \<Rightarrow> bool" where
  "less_eq_slot x y \<longleftrightarrow> slot_rank x \<le> slot_rank y"

definition less_slot :: "slot \<Rightarrow> slot \<Rightarrow> bool" where
  "less_slot x y \<longleftrightarrow> slot_rank x < slot_rank y"

instance
  by standard (auto simp: less_eq_slot_def less_slot_def)

end

lemma Closed_le_iff [simp]: "Closed \<le> x \<longleftrightarrow> x \<noteq> Vacant"
  by (cases x) (simp_all add: less_eq_slot_def)


definition slot_of :: "u64 \<Rightarrow> slot" where
  "slot_of p = (if p = 0 then Vacant else if IS_FREE p then Closed else In_Use)"

definition slots :: "bs_state \<Rightarrow> slot list" where
  "slots st = map slot_of (bs_lun_list st)"

lemma slot_of_simps [simp]:
  "slot_of (USE_LUN p) = In_Use" "VAL_POINTER p \<noteq> 0 \<Longrightarrow> slot_of (FREE_LUN p) = Closed"
  using tag_simps(1) [of p] by (auto simp: slot_of_def VAL_POINTER_def)

lemma slot_of_In_Use_iff: "slot_of p = In_Use \<longleftrightarrow> p \<noteq> 0 \<and> \<not> IS_FREE p"
  by (simp add: slot_of_def)

lemma next_free_lun_le: "next_free_lun ps \<le> length ps"
  by (induction ps) auto

lemma next_free_lun_less: "n < next_free_lun ps \<Longrightarrow> slot_of (ps ! n) = In_Use"
proof (induction ps arbitrary: n)
  case (Cons p ps)
  then show ?case by (cases n) (simp_all add: slot_of_In_Use_iff split: if_splits)
qed simp

lemma next_free_lun_free:
  "next_free_lun ps < length ps \<Longrightarrow> slot_of (ps ! next_free_lun ps) \<noteq> In_Use"
  by (induction ps) (simp_all add: slot_of_In_Use_iff split: if_splits)

lemma next_free_lun_full:
  "next_free_lun ps = length ps \<longleftrightarrow> (\<forall>p \<in> set ps. slot_of p = In_Use)"
  by (induction ps) (auto simp: slot_of_In_Use_iff)

text \<open>
  The invariant: twenty slots, each \<open>NULL\<close> or a tagged pointer to its own LUN in memory; and what
  C promises about \<open>malloc\<close>: the blocks to come are aligned, below \<open>2^60\<close>, fresh and distinct.
\<close>

definition slot_ok :: "(u64 \<Rightarrow> osd_lun option) \<Rightarrow> u64 \<Rightarrow> bool" where
  "slot_ok h p \<longleftrightarrow> p = 0 \<or> VAL_POINTER p \<noteq> 0 \<and> h (VAL_POINTER p) \<noteq> None"

definition ptrs_distinct :: "u64 list \<Rightarrow> bool" where
  "ptrs_distinct ps \<longleftrightarrow> (\<forall>i < length ps. \<forall>j < length ps. ps ! i \<noteq> 0 \<and> ps ! j \<noteq> 0
     \<and> VAL_POINTER (ps ! i) = VAL_POINTER (ps ! j) \<longrightarrow> i = j)"

definition malloc_ok :: "bs_state \<Rightarrow> bool" where
  "malloc_ok st \<longleftrightarrow> distinct (map fst (bs_malloc st))
     \<and> (\<forall>a \<in> fst ` set (bs_malloc st). a \<noteq> 0 \<and> VAL_POINTER a = a \<and> bs_heap st a = None)"

definition bs_ok :: "bs_state \<Rightarrow> bool" where
  "bs_ok st \<longleftrightarrow> length (bs_lun_list st) = NB_MAX_LUN
     \<and> (\<forall>p \<in> set (bs_lun_list st). slot_ok (bs_heap st) p)
     \<and> ptrs_distinct (bs_lun_list st)
     \<and> malloc_ok st"

lemma slot_ok_heap_mono:
  "slot_ok h p \<Longrightarrow> (\<And>a. h a \<noteq> None \<Longrightarrow> h' a \<noteq> None) \<Longrightarrow> slot_ok h' p"
  by (auto simp: slot_ok_def)

lemma malloc_ok_store:
  assumes "bs_heap st a \<noteq> None"
  shows "malloc_ok (store_lun st a l) = malloc_ok st"
proof -
  have "((bs_heap st)(a \<mapsto> l)) b = None \<longleftrightarrow> bs_heap st b = None" for b
    using assms by auto
  then show ?thesis by (simp add: malloc_ok_def store_lun_def del: fun_upd_apply)
qed

lemma bs_ok_store:
  assumes "bs_ok st" and "bs_heap st a \<noteq> None"
  shows "bs_ok (store_lun st a l)"
  using assms malloc_ok_store [OF assms(2)]
  by (auto simp: bs_ok_def store_lun_def slot_ok_def)

lemma ptrs_distinct_update:
  assumes "ptrs_distinct ps"
    and "\<And>j. j < length ps \<Longrightarrow> j \<noteq> n \<Longrightarrow> ps ! j \<noteq> 0 \<Longrightarrow> VAL_POINTER (ps ! j) \<noteq> VAL_POINTER p"
  shows "ptrs_distinct (ps[n := p])"
  unfolding ptrs_distinct_def
proof (intro allI impI)
  fix i j
  assume "i < length (ps[n := p])" and "j < length (ps[n := p])"
    and eq: "ps[n := p] ! i \<noteq> 0 \<and> ps[n := p] ! j \<noteq> 0
      \<and> VAL_POINTER (ps[n := p] ! i) = VAL_POINTER (ps[n := p] ! j)"
  then have l: "i < length ps" "j < length ps" by simp_all
  consider "i = n" "j = n" | "i = n" "j \<noteq> n" | "i \<noteq> n" "j = n" | "i \<noteq> n" "j \<noteq> n" by blast
  then show "i = j"
  proof cases
    case 2
    then show ?thesis using eq l assms(2) [of j] by simp
  next
    case 3
    then show ?thesis using eq l assms(2) [of i] by simp
  next
    case 4
    then show ?thesis using eq l assms(1) unfolding ptrs_distinct_def by simp
  qed simp
qed

lemma bs_ok_retag:
  assumes "bs_ok st" and "n < NB_MAX_LUN" and "bs_lun_list st ! n \<noteq> 0"
    and "VAL_POINTER p = VAL_POINTER (bs_lun_list st ! n)" and "p \<noteq> 0"
  shows "bs_ok (set_slot st n p)"
proof -
  have "slot_ok (bs_heap st) (bs_lun_list st ! n)" using assms(1,2) by (simp add: bs_ok_def)
  then have "slot_ok (bs_heap st) p" using assms(3-5) by (simp add: slot_ok_def)
  then have "\<forall>q \<in> set ((bs_lun_list st)[n := p]). slot_ok (bs_heap st) q"
    using assms(1) set_update_subset_insert [of "bs_lun_list st" n p] by (auto simp: bs_ok_def)
  moreover have "ptrs_distinct ((bs_lun_list st)[n := p])"
  proof (rule ptrs_distinct_update)
    show "ptrs_distinct (bs_lun_list st)" using assms(1) by (simp add: bs_ok_def)
    fix j
    assume "j < length (bs_lun_list st)" "j \<noteq> n" "bs_lun_list st ! j \<noteq> 0"
    then show "VAL_POINTER (bs_lun_list st ! j) \<noteq> VAL_POINTER p"
      using assms by (auto simp: bs_ok_def ptrs_distinct_def)
  qed
  ultimately show ?thesis
    using assms(1) by (simp add: bs_ok_def set_slot_def malloc_ok_def)
qed

lemma bs_ok_alloc:
  assumes ok: "bs_ok st" and n: "n < NB_MAX_LUN" and null: "bs_lun_list st ! n = 0"
    and mem: "bs_malloc st = (a, l) # ms" and p: "VAL_POINTER p = a" "p \<noteq> 0"
  shows "bs_ok (set_slot (snd (GET_MEMORY st)) n p)"
proof -
  have fresh: "a \<noteq> 0" "bs_heap st a = None" "a \<notin> fst ` set ms"
    "\<forall>b \<in> fst ` set ms. b \<noteq> 0 \<and> VAL_POINTER b = b \<and> bs_heap st b = None" "distinct (map fst ms)"
    using ok mem by (auto simp: bs_ok_def malloc_ok_def)
  have other: "VAL_POINTER q \<noteq> a" if "q \<in> set (bs_lun_list st)" "q \<noteq> 0" for q
    using ok that fresh(2) by (auto simp: bs_ok_def slot_ok_def)
  have len: "length (bs_lun_list st) = NB_MAX_LUN" using ok by (simp add: bs_ok_def)
  have "ptrs_distinct ((bs_lun_list st)[n := p])"
    using ok other p by (intro ptrs_distinct_update) (auto simp: bs_ok_def)
  moreover have "\<forall>q \<in> set ((bs_lun_list st)[n := p]). slot_ok ((bs_heap st)(a \<mapsto> l)) q"
  proof
    fix q
    assume "q \<in> set ((bs_lun_list st)[n := p])"
    then have "q = p \<or> q \<in> set (bs_lun_list st)"
      using set_update_subset_insert by fastforce
    then show "slot_ok ((bs_heap st)(a \<mapsto> l)) q"
      using ok p fresh(1) by (auto simp: slot_ok_def bs_ok_def)
  qed
  moreover have "malloc_ok (st\<lparr>bs_malloc := ms, bs_heap := (bs_heap st)(a \<mapsto> l)\<rparr>)"
    using fresh by (force simp: malloc_ok_def)
  ultimately show ?thesis
    using len mem by (simp add: bs_ok_def set_slot_def GET_MEMORY_def malloc_ok_def)
qed

text \<open>
  The two tag macros keep the pointer and only change the bit: whatever value a slot has, the
  address read back after marking it used or free is the same, the used mark reads as in use and
  the free mark as not, and each mark undoes the other.
\<close>

theorem lun_tags:
  "VAL_POINTER (USE_LUN p) = VAL_POINTER p \<and> VAL_POINTER (FREE_LUN p) = VAL_POINTER p
   \<and> \<not> IS_FREE (USE_LUN p) \<and> IS_FREE (FREE_LUN p)
   \<and> USE_LUN (FREE_LUN p) = USE_LUN p \<and> FREE_LUN (USE_LUN p) = FREE_LUN p
   \<and> VAL_DATA (USE_LUN p) = 1 \<and> VAL_DATA (FREE_LUN p) = 0"
proof -
  have "(7 :: u64) AND PTR_MASK = 0" by (simp add: PTR_MASK_def)
  then have "7 AND (PTR_MASK AND p) = 0" by (simp flip: and.assoc)
  then have "VAL_DATA (USE_LUN p) = 1" "VAL_DATA (FREE_LUN p) = 0"
    by (simp_all add: VAL_DATA_def USE_LUN_def FREE_LUN_def LUN_USED_def LUN_FREE_def
        bit.conj_disj_distrib)
  then show ?thesis by simp
qed

end
