(* ===== verification/Posix.thy ===== *)
theory Posix
  imports Prelude
begin

unbundle bit_operations_syntax

text \<open>
  The system calls the object store makes, as the POSIX and Linux manual pages describe them:
  \<open>stat\<close>, \<open>open\<close>, \<open>close\<close>, \<open>fallocate\<close>, \<open>pread64\<close>, \<open>pwrite64\<close>, and the process mutexes. The
  state holds the files (contents by path name), the descriptor table, and a script of
  environment choices: each call takes the next choice and may be made to fail or, for a
  transfer, to move fewer bytes than asked. When the script is used up every call does all it
  can. A theorem over all states therefore covers every finite pattern of failures and short
  transfers.
\<close>

section \<open>State\<close>

datatype env_choice =
    Full          \<comment> \<open>the call does all it can\<close>
  | Short nat     \<comment> \<open>a transfer moves at most this many bytes plus one\<close>
  | Fail          \<comment> \<open>the call fails (I/O error, no space, no permission)\<close>

record ofile =
  of_path :: string
  of_flags :: u32

record os =
  os_files :: "string \<Rightarrow> bytes option"
  os_creatable :: "string \<Rightarrow> bool"    \<comment> \<open>the directory of this path exists and is writable\<close>
  os_fds :: "nat \<Rightarrow> ofile option"
  os_nofile :: nat                       \<comment> \<open>RLIMIT_NOFILE\<close>
  os_mutex :: "nat \<Rightarrow> bool"           \<comment> \<open>fetch_locks: is the mutex held?\<close>
  os_time :: u64                         \<comment> \<open>time(NULL)\<close>
  os_env :: "env_choice list"

definition next_choice :: "os \<Rightarrow> env_choice \<times> os" where
  "next_choice os = (case os_env os of
       [] \<Rightarrow> (Full, os)
     | c # cs \<Rightarrow> (c, os\<lparr>os_env := cs\<rparr>))"

definition no_faults :: "os \<Rightarrow> bool" where
  "no_faults os \<longleftrightarrow> Fail \<notin> set (os_env os)"

section \<open>Flags\<close>

definition O_WRONLY :: u32 where "O_WRONLY = 1"
definition O_RDWR :: u32 where "O_RDWR = 2"
definition O_CREAT :: u32 where "O_CREAT = 0x40"
definition O_EXCL :: u32 where "O_EXCL = 0x80"
definition O_TRUNC :: u32 where "O_TRUNC = 0x200"
definition O_APPEND :: u32 where "O_APPEND = 0x400"

definition has_flag :: "u32 \<Rightarrow> u32 \<Rightarrow> bool" where
  "has_flag fl b \<longleftrightarrow> fl AND b \<noteq> 0"

definition may_read :: "u32 \<Rightarrow> bool" where
  "may_read fl \<longleftrightarrow> fl AND 3 = 0 \<or> fl AND 3 = 2"

definition may_write :: "u32 \<Rightarrow> bool" where
  "may_write fl \<longleftrightarrow> fl AND 3 = 1 \<or> fl AND 3 = 2"

section \<open>Descriptors\<close>

text \<open>The lowest free descriptor from \<open>i\<close> on, among the next \<open>n\<close>.\<close>

fun free_from :: "(nat \<Rightarrow> ofile option) \<Rightarrow> nat \<Rightarrow> nat \<Rightarrow> nat option" where
  "free_from t i 0 = None"
| "free_from t i (Suc n) = (if t i = None then Some i else free_from t (Suc i) n)"

definition free_fd :: "os \<Rightarrow> nat option" where
  "free_fd os = free_from (os_fds os) 0 (os_nofile os)"

definition fd_file :: "os \<Rightarrow> int \<Rightarrow> ofile option" where
  "fd_file os fd = (if fd < 0 then None else os_fds os (nat fd))"

section \<open>System calls\<close>

definition sys_stat :: "string \<Rightarrow> os \<Rightarrow> int \<times> os" where
  "sys_stat p os =
     (let (c, os1) = next_choice os in
      (if c = Fail \<or> os_files os p = None then -1 else 0, os1))"

definition sys_open :: "string \<Rightarrow> u32 \<Rightarrow> os \<Rightarrow> int \<times> os" where
  "sys_open p fl os =
     (let (c, os1) = next_choice os in
      if c = Fail then (-1, os1)
      else case free_fd os1 of
        None \<Rightarrow> (-1, os1)
      | Some fd \<Rightarrow>
         (case os_files os1 p of
            None \<Rightarrow>
              if has_flag fl O_CREAT \<and> os_creatable os1 p
              then (int fd, os1\<lparr>os_files := (os_files os1)(p \<mapsto> []),
                                 os_fds := (os_fds os1)(fd \<mapsto> \<lparr>of_path = p, of_flags = fl\<rparr>)\<rparr>)
              else (-1, os1)
          | Some b \<Rightarrow>
              if has_flag fl O_CREAT \<and> has_flag fl O_EXCL then (-1, os1)
              else (int fd, os1\<lparr>os_files := (if has_flag fl O_TRUNC
                                               then (os_files os1)(p \<mapsto> []) else os_files os1),
                                 os_fds := (os_fds os1)(fd \<mapsto> \<lparr>of_path = p, of_flags = fl\<rparr>)\<rparr>)))"

text \<open>A failing \<open>close\<close> releases the descriptor all the same, as on Linux.\<close>

definition sys_close :: "int \<Rightarrow> os \<Rightarrow> int \<times> os" where
  "sys_close fd os =
     (let (c, os1) = next_choice os in
      if fd_file os1 fd = None then (-1, os1)
      else (if c = Fail then -1 else 0, os1\<lparr>os_fds := (os_fds os1)(nat fd := None)\<rparr>))"

definition zeros :: "nat \<Rightarrow> bytes" where
  "zeros n = replicate n 0"

text \<open>\<open>fallocate(fd,0,0,len)\<close>: the file gets at least \<open>len\<close> bytes; the length is signed.\<close>

definition sys_fallocate :: "int \<Rightarrow> u64 \<Rightarrow> os \<Rightarrow> int \<times> os" where
  "sys_fallocate fd len os =
     (let (c, os1) = next_choice os in
      case fd_file os1 fd of
        None \<Rightarrow> (-1, os1)
      | Some f \<Rightarrow>
          if c = Fail \<or> \<not> may_write (of_flags f) \<or> sint len \<le> 0 then (-1, os1)
          else case os_files os1 (of_path f) of
            None \<Rightarrow> (-1, os1)
          | Some b \<Rightarrow> (0, os1\<lparr>os_files := (os_files os1)
                          (of_path f \<mapsto> b @ zeros (unat len - length b))\<rparr>))"

text \<open>Linux moves at most this many bytes in one call.\<close>

definition MAX_RW_COUNT :: nat where
  "MAX_RW_COUNT = 0x7ffff000"

definition transfer_limit :: "env_choice \<Rightarrow> u64 \<Rightarrow> nat" where
  "transfer_limit c len =
     (case c of Short k \<Rightarrow> min (Suc k) (min (unat len) MAX_RW_COUNT)
      | _ \<Rightarrow> min (unat len) MAX_RW_COUNT)"

text \<open>\<open>None\<close> is the return value -1; \<open>Some d\<close> the bytes read, empty at the end of the file.\<close>

definition sys_pread :: "int \<Rightarrow> u64 \<Rightarrow> u64 \<Rightarrow> os \<Rightarrow> bytes option \<times> os" where
  "sys_pread fd len off os =
     (let (c, os1) = next_choice os in
      case fd_file os1 fd of
        None \<Rightarrow> (None, os1)
      | Some f \<Rightarrow>
          if c = Fail \<or> \<not> may_read (of_flags f) \<or> sint off < 0 then (None, os1)
          else case os_files os1 (of_path f) of
            None \<Rightarrow> (None, os1)
          | Some b \<Rightarrow> (Some (slice b (unat off) (transfer_limit c len)), os1))"

text \<open>A write past the end fills the gap with zeros; with \<open>O_APPEND\<close> Linux writes at the end.\<close>

definition file_write :: "bytes \<Rightarrow> nat \<Rightarrow> bytes \<Rightarrow> bytes" where
  "file_write b off d = splice_at (b @ zeros (off - length b)) off d"

definition sys_pwrite :: "int \<Rightarrow> bytes \<Rightarrow> u64 \<Rightarrow> os \<Rightarrow> nat option \<times> os" where
  "sys_pwrite fd d off os =
     (let (c, os1) = next_choice os in
      case fd_file os1 fd of
        None \<Rightarrow> (None, os1)
      | Some f \<Rightarrow>
          if c = Fail \<or> \<not> may_write (of_flags f) \<or> sint off < 0 then (None, os1)
          else case os_files os1 (of_path f) of
            None \<Rightarrow> (None, os1)
          | Some b \<Rightarrow>
              let n = transfer_limit c (of_nat (length d));
                  o1 = (if has_flag (of_flags f) O_APPEND then length b else unat off)
              in (Some n, os1\<lparr>os_files := (os_files os1)
                    (of_path f \<mapsto> file_write b o1 (take n d))\<rparr>))"

text \<open>Locking a held mutex never returns (the default mutex type).\<close>

definition pthread_mutex_lock :: "nat \<Rightarrow> os \<Rightarrow> os option" where
  "pthread_mutex_lock k os =
     (if os_mutex os k then None else Some (os\<lparr>os_mutex := (os_mutex os)(k := True)\<rparr>))"

definition pthread_mutex_unlock :: "nat \<Rightarrow> os \<Rightarrow> os" where
  "pthread_mutex_unlock k os = os\<lparr>os_mutex := (os_mutex os)(k := False)\<rparr>"

section \<open>Facts about the calls\<close>

text \<open>The bytes a path holds: an absent file, like the tail of a short one, reads as zeros.\<close>

definition file_byte :: "(string \<Rightarrow> bytes option) \<Rightarrow> string \<Rightarrow> nat \<Rightarrow> u8" where
  "file_byte fs p k = (case fs p of None \<Rightarrow> 0 | Some b \<Rightarrow> if k < length b then b ! k else 0)"

text \<open>What no system call of the store changes, and the script only shrinks.\<close>

definition os_frame :: "os \<Rightarrow> os \<Rightarrow> bool" where
  "os_frame os os' \<longleftrightarrow> os_creatable os' = os_creatable os \<and> os_nofile os' = os_nofile os
     \<and> os_time os' = os_time os \<and> set (os_env os') \<subseteq> set (os_env os)"

lemma os_frame_refl [simp]: "os_frame os os"
  by (simp add: os_frame_def)

lemma os_frame_trans: "os_frame a b \<Longrightarrow> os_frame b c \<Longrightarrow> os_frame a c"
  by (auto simp: os_frame_def)

lemma os_frame_no_faults: "os_frame a b \<Longrightarrow> no_faults a \<Longrightarrow> no_faults b"
  by (auto simp: os_frame_def no_faults_def)

lemma os_frame_updates [simp]:
  "os_frame a (b\<lparr>os_files := fs\<rparr>) = os_frame a b"
  "os_frame a (b\<lparr>os_fds := t\<rparr>) = os_frame a b"
  "os_frame a (b\<lparr>os_mutex := m\<rparr>) = os_frame a b"
  by (simp_all add: os_frame_def)

text \<open>The state after the choice has been taken.\<close>

definition adv :: "os \<Rightarrow> os" where
  "adv os = os\<lparr>os_env := tl (os_env os)\<rparr>"

definition choice :: "os \<Rightarrow> env_choice" where
  "choice os = (case os_env os of [] \<Rightarrow> Full | c # _ \<Rightarrow> c)"

lemma next_choice_eq: "next_choice os = (choice os, adv os)"
  by (simp add: next_choice_def choice_def adv_def split: list.split)

lemma adv_simps [simp]:
  "os_files (adv os) = os_files os" "os_fds (adv os) = os_fds os"
  "os_creatable (adv os) = os_creatable os" "os_nofile (adv os) = os_nofile os"
  "os_mutex (adv os) = os_mutex os" "os_time (adv os) = os_time os"
  "fd_file (adv os) = fd_file os" "free_fd (adv os) = free_fd os"
  by (simp_all add: adv_def fd_file_def fun_eq_iff free_fd_def)

lemma os_frame_adv [simp]: "os_frame os (adv os)"
  by (cases "os_env os") (auto simp: os_frame_def adv_def)

lemma os_frame_adv_trans [simp]: "os_frame a b \<Longrightarrow> os_frame a (adv b)"
  using os_frame_adv os_frame_trans by blast

lemma choice_updates [simp]:
  "choice (os\<lparr>os_files := fs\<rparr>) = choice os" "choice (os\<lparr>os_fds := t\<rparr>) = choice os"
  "choice (os\<lparr>os_mutex := m\<rparr>) = choice os"
  by (simp_all add: choice_def)

lemma adv_updates [simp]:
  "adv (os\<lparr>os_files := fs\<rparr>) = (adv os)\<lparr>os_files := fs\<rparr>"
  "adv (os\<lparr>os_fds := t\<rparr>) = (adv os)\<lparr>os_fds := t\<rparr>"
  "adv (os\<lparr>os_mutex := m\<rparr>) = (adv os)\<lparr>os_mutex := m\<rparr>"
  by (simp_all add: adv_def)

lemma no_faults_updates [simp]:
  "no_faults (os\<lparr>os_files := fs\<rparr>) = no_faults os" "no_faults (os\<lparr>os_fds := t\<rparr>) = no_faults os"
  "no_faults (os\<lparr>os_mutex := m\<rparr>) = no_faults os"
  by (simp_all add: no_faults_def)

lemma no_faults_choice [simp]: "no_faults os \<Longrightarrow> choice os \<noteq> Fail"
  by (auto simp: no_faults_def choice_def split: list.split)

lemma no_faults_adv [simp]: "no_faults os \<Longrightarrow> no_faults (adv os)"
  using os_frame_no_faults os_frame_adv by blast

text \<open>\<open>sys_simps\<close> opens a call into its cases.\<close>

lemmas sys_defs = sys_stat_def sys_open_def sys_close_def sys_fallocate_def sys_pread_def
  sys_pwrite_def

lemma free_from_numeral [simp]:
  "free_from t i (numeral k) =
     (if t i = None then Some i else free_from t (Suc i) (pred_numeral k))"
  by (simp add: numeral_eq_Suc)

lemma free_from_Some:
  "free_from t i n = Some fd \<Longrightarrow> t fd = None \<and> i \<le> fd \<and> fd < i + n"
  by (induction t i n rule: free_from.induct) (auto split: if_splits)

lemma free_fd_Some: "free_fd os = Some fd \<Longrightarrow> os_fds os fd = None \<and> fd < os_nofile os"
  unfolding free_fd_def by (drule free_from_Some) simp

lemma free_from_occupied:
  "i \<le> j \<Longrightarrow> \<forall>k. i \<le> k \<and> k < j \<longrightarrow> t k \<noteq> None \<Longrightarrow> free_from t i n = Some fd \<Longrightarrow> j \<le> fd"
proof (induction t i n rule: free_from.induct)
  case (2 t i n)
  then show ?case by (cases "i = j") (auto split: if_splits dest: free_from_Some)
qed simp

lemma sys_stat_eq:
  "sys_stat p os = (if choice os = Fail \<or> os_files os p = None then -1 else 0, adv os)"
  by (simp add: sys_stat_def next_choice_eq)

lemma sys_close_eq:
  "sys_close fd os =
     (if fd_file os fd = None then (-1, adv os)
      else (if choice os = Fail then -1 else 0,
            (adv os)\<lparr>os_fds := (os_fds os)(nat fd := None)\<rparr>))"
  by (simp add: sys_close_def next_choice_eq)

lemma fd_file_int [simp]: "fd_file os (int n) = os_fds os n"
  by (simp add: fd_file_def)

text \<open>Opening a file that is there, for plain reading and writing.\<close>

definition plain_flags :: "u32 \<Rightarrow> bool" where
  "plain_flags fl \<longleftrightarrow> may_read fl \<and> may_write fl \<and> \<not> has_flag fl O_CREAT
     \<and> \<not> has_flag fl O_TRUNC \<and> \<not> has_flag fl O_APPEND"

lemma sys_open_plain:
  assumes "plain_flags fl"
  shows "sys_open p fl os =
     (if choice os = Fail \<or> os_files os p = None then (-1, adv os)
      else case free_fd os of None \<Rightarrow> (-1, adv os)
        | Some fd \<Rightarrow> (int fd,
            (adv os)\<lparr>os_fds := (os_fds os)(fd \<mapsto> \<lparr>of_path = p, of_flags = fl\<rparr>)\<rparr>))"
  using assms
  by (auto simp: sys_open_def next_choice_eq plain_flags_def split: option.split)

text \<open>The flags \<open>O_WRONLY|O_CREAT\<close> a fetch opens with, on a path that does not exist.\<close>

definition create_flags :: u32 where
  "create_flags = O_WRONLY OR O_CREAT"

lemma create_flags_simps [simp]:
  "has_flag create_flags O_CREAT" "\<not> has_flag create_flags O_TRUNC"
  "\<not> has_flag create_flags O_EXCL" "may_write create_flags"
  by (simp_all add: has_flag_def may_write_def create_flags_def O_WRONLY_def O_CREAT_def
      O_TRUNC_def O_EXCL_def)

lemma sys_open_create:
  "sys_open p create_flags os =
     (if choice os = Fail then (-1, adv os)
      else case free_fd os of None \<Rightarrow> (-1, adv os)
        | Some fd \<Rightarrow>
            if os_files os p = None \<and> \<not> os_creatable os p then (-1, adv os)
            else (int fd, (adv os)
               \<lparr>os_files := (if os_files os p = None then (os_files os)(p \<mapsto> [])
                             else os_files os),
                os_fds := (os_fds os)(fd \<mapsto> \<lparr>of_path = p, of_flags = create_flags\<rparr>)\<rparr>))"
  by (auto simp: sys_open_def next_choice_eq split: option.split)

lemma length_zeros [simp]: "length (zeros n) = n"
  by (simp add: zeros_def)

lemma nth_zeros [simp]: "i < n \<Longrightarrow> zeros n ! i = 0"
  by (simp add: zeros_def)

lemma length_file_write:
  "length (file_write b off d) = max (length b) (off + length d)"
  by (auto simp: file_write_def splice_at_def)

lemma file_write_inside:
  "off + length d \<le> length b \<Longrightarrow> file_write b off d = splice_at b off d"
  by (simp add: file_write_def zeros_def)

lemma transfer_limit_le: "transfer_limit c len \<le> unat len"
  by (auto simp: transfer_limit_def split: env_choice.split)

lemma transfer_limit_pos: "len \<noteq> 0 \<Longrightarrow> 0 < transfer_limit c len"
  by (auto simp: transfer_limit_def MAX_RW_COUNT_def unat_gt_0 split: env_choice.split)

end
