(* ===== verification/Oid_Path.thy ===== *)
theory Oid_Path
  imports Osd_Types
begin

text \<open>
  Object identities and the file names of objects: src/simpleOSD_osd_helper.c,
  \<open>oid_to_str\<close> and \<open>object_to_dc_path\<close> of src/simpleOSD_helper.c, and
  \<open>osd_get_index_to_object\<close> of src/simpleOSD_osd_op.c. The last four bytes of an object id are
  a big-endian counter; distinct object indexes get distinct ids, and distinct ids get distinct
  files.
\<close>

section \<open>Object id of an index\<close>

text \<open>The first loop gathers the last four bytes of the start id, least significant first, into
  \<open>start_index\<close>; the second writes them back after the index has been added.\<close>

definition oid_counter :: "bytes \<Rightarrow> u32" where
  "oid_counter oid =
     ucast (oid ! 11) + 2 ^ 8 * ucast (oid ! 10) + 2 ^ 16 * ucast (oid ! 9)
       + 2 ^ 24 * ucast (oid ! 8)"

fun oid_put_counter :: "nat \<Rightarrow> u32 \<Rightarrow> bytes \<Rightarrow> bytes" where
  "oid_put_counter 0 v oid = oid"
| "oid_put_counter (Suc n) v oid =
     oid_put_counter n (drop_bit 8 v) (oid[MAXOIDLEN - (4 - Suc n) - 1 := ucast v])"

definition osd_get_index_to_object ::
    "osd_collection option \<Rightarrow> i32 \<Rightarrow> object_attr option \<Rightarrow> OSD_RETURN \<times> object_attr option" where
  "osd_get_index_to_object col obj_index attr =
     (case (col, attr) of
        (Some c, Some a) \<Rightarrow>
          let start_oid = oc_start_object c;
              start_index = oid_counter start_oid + obj_index
          in (OSD_SUCCESS, Some (a\<lparr>oa_oid := oid_put_counter 4 start_index start_oid\<rparr>))
      | _ \<Rightarrow> (OSD_ERROR, attr))"

definition oid_of_index :: "bytes \<Rightarrow> i32 \<Rightarrow> bytes" where
  "oid_of_index start i = oid_put_counter 4 (oid_counter start + i) start"

section \<open>Printing ids\<close>

text \<open>Each round of the loop prints one byte at the start of the string buffer.\<close>

fun print_oid_loop :: "bytes \<Rightarrow> string \<Rightarrow> string" where
  "print_oid_loop [] s = s"
| "print_oid_loop (b # bs) s = print_oid_loop bs (snprintf MAXOIDSTRLEN (hex2 b))"

definition print_oid :: "bytes \<Rightarrow> string \<Rightarrow> string" where
  "print_oid oid s = print_oid_loop (take MAXOIDLEN oid) s"

definition oid_to_str ::
    "bytes option \<Rightarrow> string option \<Rightarrow> GENERIC_RETURN \<times> string option" where
  "oid_to_str oid s =
     (case (oid, s) of
        (Some b, Some _) \<Rightarrow> (GEN_SUCCESS, Some (snprintf MAXPATHLEN (hex_bytes (take 12 b))))
      | _ \<Rightarrow> (GEN_ERROR, s))"

section \<open>Paths\<close>

datatype DC_PATH = DC_PATH_DATA | DC_PATH_FETCH | DC_PATH_BACKUP

fun dc_path_idenifier :: "DC_PATH \<Rightarrow> string" where
  "dc_path_idenifier DC_PATH_DATA = ''osd_id=''"
| "dc_path_idenifier DC_PATH_FETCH = ''tmp''"
| "dc_path_idenifier DC_PATH_BACKUP = ''osd_id=''"

fun dc_file_extention :: "DC_PATH \<Rightarrow> string" where
  "dc_file_extention DC_PATH_DATA = ''data''"
| "dc_file_extention DC_PATH_FETCH = ''tmp''"
| "dc_file_extention DC_PATH_BACKUP = ''bk''"

definition dc_dir_level :: "bytes \<Rightarrow> string" where
  "dc_dir_level oid = ''/''"

definition osd_object_to_dc_path ::
    "blk_frontend_parameters \<Rightarrow> string option \<Rightarrow> bytes option \<Rightarrow> string option
       \<Rightarrow> OSD_RETURN \<times> string option" where
  "osd_object_to_dc_path g p_name p_oid p_path =
     (case (p_name, p_oid, p_path) of
        (Some name, Some oid, Some _) \<Rightarrow>
          (OSD_SUCCESS,
           Some (snprintf MAXPATHLEN
             (bp_dc_path g @ ''/'' @ dc_path_idenifier DC_PATH_DATA @ name @ ''/''
              @ hex2 (oid ! FIRST_LEVEL) @ ''/'' @ hex2 (oid ! SECOND_LEVEL) @ ''/''
              @ ''node='' @ hex_bytes (take 12 oid) @ ''.'' @ dc_file_extention DC_PATH_DATA)))
      | _ \<Rightarrow> (OSD_ERROR, p_path))"

definition object_to_dc_path ::
    "blk_frontend_parameters \<Rightarrow> string option \<Rightarrow> DC_PATH \<Rightarrow> bytes option \<Rightarrow> string option
       \<Rightarrow> GENERIC_RETURN \<times> string option" where
  "object_to_dc_path g p_vol k p_oid p_path =
     (case (p_vol, p_oid, p_path) of
        (Some vol, Some oid, Some _) \<Rightarrow>
          (if fst (oid_to_str p_oid (Some ''0'')) \<noteq> GEN_SUCCESS then (GEN_ERROR, p_path)
           else
             let dir_level_str =
                   (if k = DC_PATH_DATA
                    then snprintf DIR_LEVEL_LEN
                           (hex2 (oid ! FIRST_LEVEL) @ ''/'' @ hex2 (oid ! SECOND_LEVEL))
                    else snprintf DIR_LEVEL_LEN ''/'')
             in (GEN_SUCCESS,
                 Some (snprintf MAXPATHLEN
                   (bp_dc_path g @ ''/'' @ dc_path_idenifier k @ vol @ ''/''
                    @ dir_level_str @ ''/'' @ ''node='' @ hex_bytes (take 12 oid)
                    @ ''.'' @ dc_file_extention k))))
      | _ \<Rightarrow> (GEN_ERROR, p_path))"

section \<open>The counter in an object id\<close>

lemma unat_octet:
  "unat (ucast (ucast (drop_bit k (v::u32)) :: u8) :: u32) = unat v div 2 ^ k mod 256"
proof -
  have "take_bit 32 (unat v) = unat v"
    using unsigned_less [of v] by (simp add: take_bit_nat_eq_self_iff)
  then have "unat (ucast (drop_bit k v) :: u8) = take_bit 8 (drop_bit k (unat v))"
    by (simp add: unsigned_ucast_eq unsigned_drop_bit_eq)
  also have "\<dots> = unat v div 2 ^ k mod 256" by (simp only: take_bit_eq_mod drop_bit_eq_div) simp
  finally have "unat (ucast (drop_bit k v) :: u8) = unat v div 2 ^ k mod 256" .
  moreover have "unat (ucast b :: u32) = unat b" for b :: u8
    proof -
    have "unat b < 256" using unsigned_less [where ?'a = nat, of b] by simp
    then show ?thesis by (simp add: unsigned_ucast_eq take_bit_nat_eq_self_iff)
  qed
  ultimately show ?thesis by simp
qed

lemma nat32_of_octets:
  fixes n :: nat
  assumes "n < 4294967296"
  shows "n mod 256 + 256 * (n div 256 mod 256) + 65536 * (n div 65536 mod 256)
     + 16777216 * (n div 16777216 mod 256) = n"
proof -
  have a: "n div 65536 = n div 256 div 256" "n div 16777216 = n div 256 div 256 div 256"
    by (simp_all add: div_mult2_eq [symmetric])
  have "n div 256 div 256 div 256 < 256" using assms by simp
  then have "n div 256 div 256 div 256 mod 256 = n div 256 div 256 div 256" by simp
  moreover have "n = 256 * (n div 256) + n mod 256"
    "n div 256 = 256 * (n div 256 div 256) + n div 256 mod 256"
    "n div 256 div 256 = 256 * (n div 256 div 256 div 256) + n div 256 div 256 mod 256"
    by simp_all
  ultimately show ?thesis unfolding a by linarith
qed

lemma word32_of_octets:
  fixes v :: u32
  shows "ucast (ucast v :: u8) + 256 * ucast (ucast (drop_bit 8 v) :: u8)
     + 65536 * ucast (ucast (drop_bit 16 v) :: u8)
     + 16777216 * ucast (ucast (drop_bit 24 v) :: u8) = v" (is "?l = v")
proof -
  have v: "unat v < 4294967296" using unsigned_less [of v] by simp
  have "unat ?l = (unat v mod 256 + 256 * (unat v div 256 mod 256) + 65536 * (unat v div 65536 mod 256)
     + 16777216 * (unat v div 16777216 mod 256)) mod 4294967296"
    using unat_octet [of 0 v] unat_octet [of 8 v] unat_octet [of 16 v] unat_octet [of 24 v]
    by (simp add: unat_word_ariths mod_simps)
  then have "unat ?l = unat v" using v by (simp only: nat32_of_octets [OF v]) simp
  then show ?thesis by (simp only: word_unat_eq_iff)
qed

text \<open>The counter of the id of an index, and the bytes in front of it.\<close>

lemma length_oid_put_counter [simp]: "length (oid_put_counter n v oid) = length oid"
  by (induction n v oid rule: oid_put_counter.induct) simp_all

lemma oid_put_counter_4:
  "oid_put_counter 4 v oid =
     oid[11 := ucast v, 10 := ucast (drop_bit 8 v), 9 := ucast (drop_bit 16 v),
         8 := ucast (drop_bit 24 v)]"
  by (simp add: eval_nat_numeral MAXOIDLEN_def drop_bit_drop_bit del: drop_bit_numeral_bit0)

lemma oid_counter_put:
  "length oid = MAXOIDLEN \<Longrightarrow> oid_counter (oid_put_counter 4 v oid) = v"
  using word32_of_octets [of v]
  by (simp add: oid_put_counter_4 oid_counter_def MAXOIDLEN_def)

lemma take_oid_put_counter: "take 8 (oid_put_counter 4 v oid) = take 8 oid"
  by (simp add: oid_put_counter_4)

lemma length_oid_of_index [simp]: "length (oid_of_index s i) = length s"
  by (simp add: oid_of_index_def)

lemma oid_of_index_inject:
  assumes "length s = MAXOIDLEN"
  shows "oid_of_index s i = oid_of_index s j \<longleftrightarrow> i = j"
  using oid_counter_put [OF assms] unfolding oid_of_index_def by (metis add_left_cancel)


text \<open>
  \<open>osd_get_index_to_object\<close> always succeeds on non-\<open>NULL\<close> arguments, changes the id and no
  other attribute of the object, keeps the first eight bytes of the collection's start id, and
  adds the index to the big-endian counter in the last four, modulo \<open>2\<^sup>32\<close>.
\<close>

theorem osd_get_index_to_object_counter:
  assumes "length (oc_start_object c) = MAXOIDLEN"
  shows "\<exists>oid. osd_get_index_to_object (Some c) i (Some a) = (OSD_SUCCESS, Some (a\<lparr>oa_oid := oid\<rparr>))
      \<and> length oid = MAXOIDLEN \<and> take 8 oid = take 8 (oc_start_object c)
      \<and> oid_counter oid = oid_counter (oc_start_object c) + i"
  using assms
  by (intro exI [of _ "oid_of_index (oc_start_object c) i"])
     (simp add: osd_get_index_to_object_def Let_def oid_of_index_def take_oid_put_counter
       oid_counter_put)

theorem osd_get_index_to_object_counter_witness:
  "\<exists>oid. osd_get_index_to_object (Some ex_collection) 1 (Some zero_object_attr)
        = (OSD_SUCCESS, Some (zero_object_attr\<lparr>oa_oid := oid\<rparr>))
      \<and> length oid = MAXOIDLEN \<and> take 8 oid = take 8 ex_start
      \<and> oid_counter oid = oid_counter ex_start + 1"
  using osd_get_index_to_object_counter [of ex_collection 1 zero_object_attr]
  by (simp add: ex_collection_def ex_start_def MAXOIDLEN_def)

section \<open>Names of object files\<close>

text \<open>The file name before \<open>snprintf\<close> cuts it, and the condition that it is not cut.\<close>

definition dc_data_path :: "blk_frontend_parameters \<Rightarrow> string \<Rightarrow> bytes \<Rightarrow> string" where
  "dc_data_path g name oid =
     bp_dc_path g @ ''/'' @ dc_path_idenifier DC_PATH_DATA @ name @ ''/''
       @ hex2 (oid ! FIRST_LEVEL) @ ''/'' @ hex2 (oid ! SECOND_LEVEL) @ ''/''
       @ ''node='' @ hex_bytes (take 12 oid) @ ''.'' @ dc_file_extention DC_PATH_DATA"

definition path_fits :: "blk_frontend_parameters \<Rightarrow> string \<Rightarrow> bool" where
  "path_fits g name \<longleftrightarrow> length (bp_dc_path g) + length name + 49 < MAXPATHLEN"

lemma length_dc_data_path:
  "length oid = MAXOIDLEN \<Longrightarrow>
   length (dc_data_path g name oid) = length (bp_dc_path g) + length name + 49"
  by (simp add: dc_data_path_def MAXOIDLEN_def)

lemma osd_object_to_dc_path_eq:
  "osd_object_to_dc_path g (Some name) (Some oid) (Some s)
     = (OSD_SUCCESS, Some (snprintf MAXPATHLEN (dc_data_path g name oid)))"
  by (simp add: osd_object_to_dc_path_def dc_data_path_def)

lemma osd_object_to_dc_path_fits:
  "path_fits g name \<Longrightarrow> length oid = MAXOIDLEN \<Longrightarrow>
   osd_object_to_dc_path g (Some name) (Some oid) (Some s)
     = (OSD_SUCCESS, Some (dc_data_path g name oid))"
  by (simp add: osd_object_to_dc_path_eq snprintf_id length_dc_data_path path_fits_def)

lemma dc_data_path_inject:
  assumes "length a = MAXOIDLEN" "length b = MAXOIDLEN"
  shows "dc_data_path g m a = dc_data_path g n b \<longleftrightarrow> m = n \<and> a = b"
proof
  assume eq: "dc_data_path g m a = dc_data_path g n b"
  then have "length m = length n"
    using length_dc_data_path [OF assms(1)] length_dc_data_path [OF assms(2)]
    by (metis add_left_cancel add_right_cancel)
  with eq assms show "m = n \<and> a = b"
    by (simp add: dc_data_path_def MAXOIDLEN_def)
qed simp



text \<open>
  The two path builders agree: on every argument, \<open>NULL\<close> ones included,
  \<open>object_to_dc_path\<close> with \<open>DC_PATH_DATA\<close> fails exactly when \<open>osd_object_to_dc_path\<close> fails and
  leaves the same string in the output buffer.
\<close>

theorem object_to_dc_path_data_eq:
  "(fst (object_to_dc_path g vol DC_PATH_DATA oid p) = GEN_ERROR
      \<longleftrightarrow> fst (osd_object_to_dc_path g vol oid p) = OSD_ERROR)
   \<and> snd (object_to_dc_path g vol DC_PATH_DATA oid p) = snd (osd_object_to_dc_path g vol oid p)"
  by (simp add: object_to_dc_path_def osd_object_to_dc_path_def oid_to_str_def Let_def
      snprintf_def DIR_LEVEL_LEN_def split: option.splits)

text \<open>
  \<open>oid_to_str\<close> loses nothing: the 24 characters it writes for a 12 byte id are the upper
  case hexadecimal digits from which the id can be read back.
\<close>

theorem oid_to_str_roundtrip:
  assumes "length oid = MAXOIDLEN"
  shows "\<exists>t. oid_to_str (Some oid) (Some s) = (GEN_SUCCESS, Some t)
      \<and> length t < MAXOIDSTRLEN \<and> unhex_bytes t = Some oid"
  using assms
  by (simp add: oid_to_str_def snprintf_id MAXOIDLEN_def MAXOIDSTRLEN_def MAXPATHLEN_def
      unhex_hex_bytes)

theorem oid_to_str_roundtrip_witness:
  "\<exists>t. oid_to_str (Some ex_start) (Some ''0'') = (GEN_SUCCESS, Some t)
      \<and> length t < MAXOIDSTRLEN \<and> unhex_bytes t = Some ex_start"
  by (rule oid_to_str_roundtrip) (simp add: ex_start_def MAXOIDLEN_def)

lemma print_oid_loop_last:
  "bs \<noteq> [] \<Longrightarrow> print_oid_loop bs s = hex2 (last bs)"
  by (induction bs s rule: print_oid_loop.induct)
     (auto simp: snprintf_id MAXOIDSTRLEN_def)

text \<open>
  \<open>print_oid\<close> does not print the id: its loop writes every byte to the start of the string,
  so that what it logs is the last byte alone, and ids that differ before it print alike.
\<close>

theorem print_oid_last_byte:
  assumes "length oid = MAXOIDLEN"
  shows "print_oid oid s = hex2 (oid ! 11)"
proof -
  from assms have "oid \<noteq> []" by (auto simp: MAXOIDLEN_def)
  with assms show ?thesis
    by (simp add: print_oid_def print_oid_loop_last last_conv_nth MAXOIDLEN_def)
qed

theorem print_oid_last_byte_witness:
  "print_oid ex_start [] = ''FF''"
  using print_oid_last_byte [of ex_start "[]"]
  by (simp add: ex_start_def MAXOIDLEN_def hex2_def hex_digit_def)

end
