(* ===== verification/Mds.thy ===== *)
theory Mds
  imports Osd_Types
begin

unbundle bit_operations_syntax

text \<open>
  The metadata helper, src/simpleOSD_mds_helper.c: which data placement node serves an object
  index, and where a volume's geometry comes from. The build switch \<open>GET_INFO_FROM_MDS_DB\<close> is the
  argument \<open>mds_db\<close>: with it the built-in test data is used, without it (as the Makefile builds
  the library) the query is a stub that fills nothing in.
\<close>

section \<open>Query arguments\<close>

datatype BLK_MDS_OP = MDS_GET | MDS_SET

definition BLK_MDS_VOLNAME :: u32 where "BLK_MDS_VOLNAME = 0x2"
definition BLK_MDS_VOLSIZE :: u32 where "BLK_MDS_VOLSIZE = 0x4"
definition BLK_MDS_NB_OBJECTS :: u32 where "BLK_MDS_NB_OBJECTS = 0x8"
definition BLK_MDS_OBJECT_SIZE :: u32 where "BLK_MDS_OBJECT_SIZE = 0x10"
definition BLK_MDS_BLOCK_SIZE :: u32 where "BLK_MDS_BLOCK_SIZE = 0x20"
definition BLK_MDS_START_OID :: u32 where "BLK_MDS_START_OID = 0x40"
definition BLK_MDS_DP_MAP :: u32 where "BLK_MDS_DP_MAP = 0x400"

definition BLK_ENTRY_VOL_META :: u32 where
  "BLK_ENTRY_VOL_META = BLK_MDS_VOLNAME OR BLK_MDS_VOLSIZE OR BLK_MDS_NB_OBJECTS OR
     BLK_MDS_OBJECT_SIZE OR BLK_MDS_BLOCK_SIZE OR BLK_MDS_START_OID"

lemmas mds_flag_defs = BLK_MDS_VOLNAME_def BLK_MDS_VOLSIZE_def BLK_MDS_NB_OBJECTS_def
  BLK_MDS_OBJECT_SIZE_def BLK_MDS_BLOCK_SIZE_def BLK_MDS_START_OID_def BLK_MDS_DP_MAP_def
  BLK_ENTRY_VOL_META_def

record blk_mds_args =
  ma_op_type :: BLK_MDS_OP
  ma_mds_datatype :: u32
  ma_blk_volname :: "string option"
  ma_blk_volSize :: u64
  ma_blk_nb_objects :: u64
  ma_blk_objectsize :: u64
  ma_blk_blocksize :: u64
  ma_start_oid :: bytes
  ma_oid :: bytes
  ma_xtime :: u64
  ma_object_index :: u64
  ma_is_fs_flag :: i32
  ma_dp_data_map :: dp_data_map    \<comment> \<open>what \<open>p_dp_data_map\<close> points to\<close>

text \<open>\<open>memset(&args,0,sizeof)\<close>; the map pointer is set by the caller.\<close>

definition zero_mds_args :: "dp_data_map \<Rightarrow> blk_mds_args" where
  "zero_mds_args m = \<lparr>ma_op_type = MDS_GET, ma_mds_datatype = 0, ma_blk_volname = None,
     ma_blk_volSize = 0, ma_blk_nb_objects = 0, ma_blk_objectsize = 0, ma_blk_blocksize = 0,
     ma_start_oid = replicate MAXOIDLEN 0, ma_oid = replicate MAXOIDLEN 0, ma_xtime = 0,
     ma_object_index = 0, ma_is_fs_flag = 0, ma_dp_data_map = m\<rparr>"

section \<open>Placement of an object index\<close>

text \<open>The range test of the loop. The bound is inclusive; the sum is a C \<open>int\<close>.\<close>

definition dp_covers :: "dp_ip_obj_range \<Rightarrow> i32 \<Rightarrow> bool" where
  "dp_covers r i \<longleftrightarrow> sint (dr_start_oid r) \<le> sint i \<and> sint i \<le> sint (dr_start_oid r + dr_range r)"

fun dpnode_loop :: "dp_data_map \<Rightarrow> i32 \<Rightarrow> nat \<Rightarrow> nat \<Rightarrow> IP option" where
  "dpnode_loop m i loop 0 = None"
| "dpnode_loop m i loop (Suc n) =
     (if dp_covers (dm_dp_data m loop) i then Some (dr_dp_ip (dm_dp_data m loop))
      else dpnode_loop m i (Suc loop) n)"

definition get_dpnode_ip_from_index ::
    "dp_data_map option \<Rightarrow> i32 \<Rightarrow> IP option \<Rightarrow> MDS_HELPER_RETURN \<times> IP option" where
  "get_dpnode_ip_from_index p_dp_map object_index p_dp_ip =
     (case (p_dp_map, p_dp_ip) of
        (Some m, Some _) \<Rightarrow>
          (case dpnode_loop m object_index 0 (nat (sint (dm_nb_dp_nodes m))) of
             Some ip \<Rightarrow> (MDS_HELPER_SUCCESS, Some ip)
           | None \<Rightarrow> (MDS_HELPER_ERROR, p_dp_ip))
      | _ \<Rightarrow> (MDS_HELPER_ERROR, p_dp_ip))"

section \<open>Test data\<close>

text \<open>\<open>inet_pton(AF_INET, \<dots>)\<close>: four decimal octets without leading zeros.\<close>

fun inet_pton_loop :: "string \<Rightarrow> nat option \<Rightarrow> nat list \<Rightarrow> nat list option" where
  "inet_pton_loop [] cur acc = (case cur of None \<Rightarrow> None | Some v \<Rightarrow> Some (rev (v # acc)))"
| "inet_pton_loop (c # cs) cur acc =
     (let n = of_char c :: nat in
      if 48 \<le> n \<and> n \<le> 57 then
        (case cur of
           None \<Rightarrow> inet_pton_loop cs (Some (n - 48)) acc
         | Some v \<Rightarrow> if v = 0 \<or> 255 < 10 * v + (n - 48) then None
                     else inet_pton_loop cs (Some (10 * v + (n - 48))) acc)
      else if n = 46 then
        (case cur of None \<Rightarrow> None | Some v \<Rightarrow> inet_pton_loop cs None (v # acc))
      else None)"

definition inet_pton :: "string \<Rightarrow> IP option" where
  "inet_pton s = (case inet_pton_loop s None [] of
       Some [a, b, c, d] \<Rightarrow> Some \<lparr>first_octet = of_nat a, second_octet = of_nat b,
                                 third_octet = of_nat c, fourth_octet = of_nat d\<rparr>
     | _ \<Rightarrow> None)"

definition TEST_NB_OBJECTS :: nat where "TEST_NB_OBJECTS = 1000"
definition TEST_DP_NODES :: nat where "TEST_DP_NODES = 2"
definition TEST_DP_NODE_IP :: string where "TEST_DP_NODE_IP = ''127.0.0.1''"

text \<open>The eight bytes of a \<open>uint64_t\<close> in memory order.\<close>

definition le_bytes64 :: "u64 \<Rightarrow> bytes" where
  "le_bytes64 w = map (\<lambda>k. ucast (drop_bit (8 * k) w)) [0..<8]"

text \<open>The loop over the placement nodes; \<open>n\<close> counts the rounds left.\<close>

fun test_dp_loop :: "nat \<Rightarrow> nat \<Rightarrow> i32 \<Rightarrow> dp_data_map
    \<Rightarrow> MDS_HELPER_RETURN \<times> nat \<times> i32 \<times> dp_data_map" where
  "test_dp_loop loop 0 fixed_range m = (MDS_HELPER_SUCCESS, loop, fixed_range, m)"
| "test_dp_loop loop (Suc n) fixed_range m =
     (let r = (dm_dp_data m loop)
            \<lparr>dr_start_oid := of_nat (loop * TEST_NB_OBJECTS div TEST_DP_NODES),
             dr_range := of_nat (TEST_NB_OBJECTS div TEST_DP_NODES)\<rparr>;
          fixed_range' = (if fixed_range = 0 then dr_range r else fixed_range)
      in case inet_pton (take MAX_IP_STRLEN TEST_DP_NODE_IP) of
           None \<Rightarrow> (MDS_HELPER_ERROR, Suc loop, fixed_range',
                    m\<lparr>dm_dp_data := (dm_dp_data m)(loop := r)\<rparr>)
         | Some ip \<Rightarrow> test_dp_loop (Suc loop) n fixed_range'
                    (m\<lparr>dm_dp_data := (dm_dp_data m)(loop := r\<lparr>dr_dp_ip := ip\<rparr>)\<rparr>))"

definition mds_generate_test_data ::
    "u64 \<Rightarrow> blk_mds_args \<Rightarrow> blk_mds_args \<Rightarrow> MDS_HELPER_RETURN \<times> blk_mds_args" where
  "mds_generate_test_data now data_in data_out =
     (let o1 = (if ma_mds_datatype data_out AND BLK_MDS_START_OID \<noteq> 0
                then data_out\<lparr>ma_start_oid := 0 # le_bytes64 now @ [0, 0, 0]\<rparr> else data_out);
          o2 = (if ma_mds_datatype data_out AND BLK_MDS_NB_OBJECTS \<noteq> 0
                then o1\<lparr>ma_blk_nb_objects := 100\<rparr> else o1);
          o3 = (if ma_mds_datatype data_out AND BLK_MDS_OBJECT_SIZE \<noteq> 0
                then o2\<lparr>ma_blk_objectsize := 1048576\<rparr> else o2);
          o4 = (if ma_mds_datatype data_out AND BLK_MDS_VOLSIZE \<noteq> 0
                then o3\<lparr>ma_blk_volSize := ma_blk_objectsize o3 * ma_blk_nb_objects o3\<rparr> else o3);
          o5 = (if ma_mds_datatype data_out AND BLK_MDS_BLOCK_SIZE \<noteq> 0
                then o4\<lparr>ma_blk_blocksize := 4096\<rparr> else o4)
      in case test_dp_loop 0 TEST_DP_NODES 0 (ma_dp_data_map o5) of
           (MDS_HELPER_ERROR, _, _, m) \<Rightarrow> (MDS_HELPER_ERROR, o5\<lparr>ma_dp_data_map := m\<rparr>)
         | (MDS_HELPER_SUCCESS, loop, fixed_range, m) \<Rightarrow>
             (MDS_HELPER_SUCCESS,
              o5\<lparr>ma_dp_data_map := m\<lparr>dm_nb_dp_nodes := of_nat loop,
                                      dm_fixed_range := fixed_range\<rparr>\<rparr>))"

section \<open>Queries\<close>

definition mds_get_blk_device_data ::
    "blk_mds_args \<Rightarrow> blk_mds_args \<Rightarrow> MDS_HELPER_RETURN \<times> blk_mds_args" where
  "mds_get_blk_device_data data_in data_out = (MDS_HELPER_SUCCESS, data_out)"

definition mds_get_blk_device_info ::
    "bool \<Rightarrow> blk_frontend_parameters \<Rightarrow> u64 \<Rightarrow> blk_mds_args \<Rightarrow> blk_mds_args
       \<Rightarrow> MDS_HELPER_RETURN \<times> blk_mds_args" where
  "mds_get_blk_device_info mds_db g now data_in data_out =
     (case (if mds_db then mds_generate_test_data now data_in data_out
            else mds_get_blk_device_data data_in data_out) of
        (MDS_HELPER_ERROR, o1) \<Rightarrow> (MDS_HELPER_ERROR, o1)
      | (MDS_HELPER_SUCCESS, o1) \<Rightarrow>
          let o2 = (if ma_mds_datatype o1 AND BLK_MDS_VOLSIZE \<noteq> 0
                    then o1\<lparr>ma_blk_volSize := ma_blk_objectsize o1 * ma_blk_nb_objects o1\<rparr>
                    else o1);
              o3 = (if ma_mds_datatype o1 AND BLK_MDS_BLOCK_SIZE \<noteq> 0
                    then o2\<lparr>ma_blk_blocksize := scast (bp_block_size g)\<rparr> else o2)
          in (MDS_HELPER_SUCCESS, o3))"

definition mds_get_object_info ::
    "blk_mds_args \<Rightarrow> blk_mds_args \<Rightarrow> MDS_HELPER_RETURN \<times> blk_mds_args" where
  "mds_get_object_info data_in data_out = (MDS_HELPER_SUCCESS, data_out)"

definition mds_set_blk_device_info ::
    "blk_mds_args \<Rightarrow> blk_mds_args \<Rightarrow> MDS_HELPER_RETURN \<times> blk_mds_args" where
  "mds_set_blk_device_info data_in data_out = (MDS_HELPER_SUCCESS, data_out)"

definition mds_set_object_info ::
    "blk_mds_args \<Rightarrow> blk_mds_args \<Rightarrow> MDS_HELPER_RETURN \<times> blk_mds_args" where
  "mds_set_object_info data_in data_out = (MDS_HELPER_SUCCESS, data_out)"

section \<open>Placement lookup\<close>

lemma dpnode_loop_Some_iff:
  "dpnode_loop m i l n = Some ip \<longleftrightarrow>
     (\<exists>k < n. dp_covers (dm_dp_data m (l + k)) i \<and> (\<forall>j < k. \<not> dp_covers (dm_dp_data m (l + j)) i)
        \<and> ip = dr_dp_ip (dm_dp_data m (l + k)))"
proof (induction m i l n rule: dpnode_loop.induct)
  case (1 m i l)
  then show ?case by simp
next
  case (2 m i l n)
  then show ?case
    by (auto simp: Ex_less_Suc2 All_less_Suc2)
qed

lemma dpnode_loop_None_iff:
  "dpnode_loop m i l n = None \<longleftrightarrow> (\<forall>k < n. \<not> dp_covers (dm_dp_data m (l + k)) i)"
  by (induction m i l n rule: dpnode_loop.induct) (auto simp: All_less_Suc2)

text \<open>
  \<open>get_dpnode_ip_from_index\<close> answers with the address of the first node whose inclusive index
  range holds the object index, and fails, leaving the output alone, exactly when no node's range
  does.
\<close>

theorem get_dpnode_ip_from_index_first:
  "(get_dpnode_ip_from_index (Some m) i (Some ip0) = (MDS_HELPER_SUCCESS, Some ip) \<longleftrightarrow>
      (\<exists>k. k < nat (sint (dm_nb_dp_nodes m)) \<and> dp_covers (dm_dp_data m k) i
         \<and> \<not> (\<exists>j. j < k \<and> dp_covers (dm_dp_data m j) i) \<and> ip = dr_dp_ip (dm_dp_data m k)))
   \<and> (get_dpnode_ip_from_index (Some m) i (Some ip0) = (MDS_HELPER_ERROR, Some ip0) \<longleftrightarrow>
      \<not> (\<exists>k. k < nat (sint (dm_nb_dp_nodes m)) \<and> dp_covers (dm_dp_data m k) i))"
proof -
  have "dpnode_loop m i 0 (nat (sint (dm_nb_dp_nodes m))) = None \<longleftrightarrow>
      \<not> (\<exists>k. k < nat (sint (dm_nb_dp_nodes m)) \<and> dp_covers (dm_dp_data m k) i)"
    by (auto simp: dpnode_loop_None_iff)
  moreover have "dpnode_loop m i 0 (nat (sint (dm_nb_dp_nodes m))) = Some ip \<longleftrightarrow>
      (\<exists>k. k < nat (sint (dm_nb_dp_nodes m)) \<and> dp_covers (dm_dp_data m k) i
         \<and> \<not> (\<exists>j. j < k \<and> dp_covers (dm_dp_data m j) i) \<and> ip = dr_dp_ip (dm_dp_data m k))"
    by (auto simp: dpnode_loop_Some_iff)
  ultimately show ?thesis
    by (auto simp: get_dpnode_ip_from_index_def split: option.splits)
qed

section \<open>The generated volume\<close>

definition test_ip :: IP where
  "test_ip = \<lparr>first_octet = 127, second_octet = 0, third_octet = 0, fourth_octet = 1\<rparr>"

lemma inet_pton_test_ip: "inet_pton (take MAX_IP_STRLEN TEST_DP_NODE_IP) = Some test_ip"
  by (simp add: inet_pton_def test_ip_def MAX_IP_STRLEN_def TEST_DP_NODE_IP_def Let_def)

text \<open>What a LUN asks for when it is opened.\<close>

definition lun_query :: u32 where
  "lun_query = BLK_ENTRY_VOL_META OR BLK_MDS_DP_MAP"

lemma lun_query_flags [simp]:
  "lun_query AND BLK_MDS_START_OID \<noteq> 0" "lun_query AND BLK_MDS_NB_OBJECTS \<noteq> 0"
  "lun_query AND BLK_MDS_OBJECT_SIZE \<noteq> 0" "lun_query AND BLK_MDS_VOLSIZE \<noteq> 0"
  "lun_query AND BLK_MDS_BLOCK_SIZE \<noteq> 0"
  by (simp_all add: lun_query_def mds_flag_defs)

definition test_range :: "i32 \<Rightarrow> dp_ip_obj_range \<Rightarrow> dp_ip_obj_range" where
  "test_range s r = r\<lparr>dr_start_oid := s, dr_range := 500, dr_dp_ip := test_ip\<rparr>"

definition test_map :: "dp_data_map \<Rightarrow> dp_data_map" where
  "test_map m = m\<lparr>dm_dp_data := (dm_dp_data m)(0 := test_range 0 (dm_dp_data m 0),
     1 := test_range 500 (dm_dp_data m 1)), dm_nb_dp_nodes := 2, dm_fixed_range := 500\<rparr>"

lemma length_le_bytes64 [simp]: "length (le_bytes64 w) = 8"
  by (simp add: le_bytes64_def)

lemma test_dp_loop_eq:
  "test_dp_loop 0 TEST_DP_NODES 0 m =
     (MDS_HELPER_SUCCESS, 2, 500,
      m\<lparr>dm_dp_data := (dm_dp_data m)(0 := test_range 0 (dm_dp_data m 0),
          1 := test_range 500 (dm_dp_data m 1))\<rparr>)"
proof -
  have two: "TEST_DP_NODES = Suc (Suc 0)" by (simp add: TEST_DP_NODES_def)
  have "test_dp_loop 0 (Suc (Suc 0)) 0 m =
     (MDS_HELPER_SUCCESS, 2, 500,
      m\<lparr>dm_dp_data := (dm_dp_data m)(0 := test_range 0 (dm_dp_data m 0),
          1 := test_range 500 (dm_dp_data m 1))\<rparr>)"
    by (simp add: TEST_DP_NODES_def TEST_NB_OBJECTS_def inet_pton_test_ip Let_def test_range_def)
  then show ?thesis by (simp only: two)
qed

lemma mds_generate_test_data_lun_query:
  "ma_mds_datatype out = lun_query \<Longrightarrow>
   mds_generate_test_data now in' out = (MDS_HELPER_SUCCESS,
     out\<lparr>ma_start_oid := 0 # le_bytes64 now @ [0, 0, 0], ma_blk_nb_objects := 100,
         ma_blk_objectsize := 1048576, ma_blk_volSize := 104857600, ma_blk_blocksize := 4096,
         ma_dp_data_map := test_map (ma_dp_data_map out)\<rparr>)"
  by (simp add: mds_generate_test_data_def Let_def test_dp_loop_eq test_map_def)

lemma dpnode_loop_2:
  "dpnode_loop m i 0 2 =
     (if dp_covers (dm_dp_data m 0) i then Some (dr_dp_ip (dm_dp_data m 0))
      else if dp_covers (dm_dp_data m 1) i then Some (dr_dp_ip (dm_dp_data m 1)) else None)"
  by (simp add: numeral_2_eq_2)

lemma dp_covers_test_range:
  "dp_covers (test_range 0 r) i \<longleftrightarrow> 0 \<le> sint i \<and> sint i \<le> 500"
  "dp_covers (test_range 500 r) i \<longleftrightarrow> 500 \<le> sint i \<and> sint i \<le> 1000"
  by (simp_all add: dp_covers_def test_range_def)

lemma get_dpnode_test_map:
  "get_dpnode_ip_from_index (Some (test_map m)) i (Some ip0) =
     (if 0 \<le> sint i \<and> sint i \<le> 1000 then (MDS_HELPER_SUCCESS, Some test_ip)
      else (MDS_HELPER_ERROR, Some ip0))"
  by (auto simp: get_dpnode_ip_from_index_def test_map_def dpnode_loop_2 dp_covers_test_range)
     (simp_all add: test_range_def)

text \<open>
  With the test data source, the query a LUN makes when it is opened describes a consistent
  volume: 100 objects of 1048576 bytes, a capacity that is their product, a start id of the right
  length, and a placement map in which every index of the volume has a node.
\<close>

theorem generated_volume_consistent:
  assumes "ma_mds_datatype out = lun_query"
  shows "\<exists>o1. mds_get_blk_device_info True g now in' out = (MDS_HELPER_SUCCESS, o1)
      \<and> unat (ma_blk_nb_objects o1) = 100 \<and> unat (ma_blk_objectsize o1) = 1048576
      \<and> unat (ma_blk_volSize o1) = unat (ma_blk_objectsize o1) * unat (ma_blk_nb_objects o1)
      \<and> length (ma_start_oid o1) = MAXOIDLEN
      \<and> (\<forall>i < 100. get_dpnode_ip_from_index (Some (ma_dp_data_map o1)) (of_nat i) (Some ip0)
            = (MDS_HELPER_SUCCESS, Some test_ip))"
  using assms
  by (simp add: mds_get_blk_device_info_def mds_generate_test_data_lun_query Let_def
      MAXOIDLEN_def get_dpnode_test_map sint_of_nat_small)

theorem generated_volume_consistent_witness:
  "\<exists>o1. mds_get_blk_device_info True ex_params 7 (zero_mds_args ex_dp_map)
          ((zero_mds_args ex_dp_map)\<lparr>ma_mds_datatype := lun_query\<rparr>) = (MDS_HELPER_SUCCESS, o1)
      \<and> unat (ma_blk_volSize o1) = 104857600
      \<and> get_dpnode_ip_from_index (Some (ma_dp_data_map o1)) (of_nat 99) (Some zero_ip)
            = (MDS_HELPER_SUCCESS, Some test_ip)"
proof -
  have "ma_mds_datatype ((zero_mds_args ex_dp_map)\<lparr>ma_mds_datatype := lun_query\<rparr>) = lun_query"
    by simp
  from generated_volume_consistent [OF this, of ex_params 7 "zero_mds_args ex_dp_map" zero_ip]
  obtain o1 where "mds_get_blk_device_info True ex_params 7 (zero_mds_args ex_dp_map)
      ((zero_mds_args ex_dp_map)\<lparr>ma_mds_datatype := lun_query\<rparr>) = (MDS_HELPER_SUCCESS, o1)"
    and "unat (ma_blk_nb_objects o1) = 100" "unat (ma_blk_objectsize o1) = 1048576"
    and "unat (ma_blk_volSize o1) = unat (ma_blk_objectsize o1) * unat (ma_blk_nb_objects o1)"
    and "\<forall>i < 100. get_dpnode_ip_from_index (Some (ma_dp_data_map o1)) (of_nat i) (Some zero_ip)
            = (MDS_HELPER_SUCCESS, Some test_ip)" by blast
  then show ?thesis by (intro exI [of _ o1]) (auto dest: spec [of _ 99])
qed

text \<open>
  Ranges include their upper end, so neighbouring nodes of the generated map overlap: index
  500, where the second node's range starts, is in both ranges and is answered with the first
  node, whatever addresses the nodes have.
\<close>

theorem dp_ranges_overlap:
  "dp_covers (dm_dp_data (test_map m) 0) 500 \<and> dp_covers (dm_dp_data (test_map m) 1) 500
   \<and> dr_start_oid (dm_dp_data (test_map m) 1) = 500
   \<and> get_dpnode_ip_from_index
       (Some (test_map m\<lparr>dm_dp_data := (dm_dp_data (test_map m))
          (0 := (dm_dp_data (test_map m) 0)\<lparr>dr_dp_ip := a\<rparr>,
           1 := (dm_dp_data (test_map m) 1)\<lparr>dr_dp_ip := b\<rparr>)\<rparr>)) 500 (Some ip0)
     = (MDS_HELPER_SUCCESS, Some a)"
  by (simp add: get_dpnode_ip_from_index_def test_map_def test_range_def dp_covers_def
      dpnode_loop_2)

end
