(* ===== verification/Fetch.thy ===== *)
theory Fetch
  imports Posix Oid_Path Mds
begin

text \<open>
  Creating an object file the first time it is used: \<open>simpleOSD_get_object_to_dc\<close> of
  src/simpleOSD_fetch_helper.c, in the build without \<open>GET_OBJECT_FROM_DP_NODE\<close>. The call takes one
  of 256 process mutexes, chosen by the object index, around the check and the creation.
\<close>

section \<open>The operation\<close>

definition MAX_GET_OBJECT_LOCK :: nat where
  "MAX_GET_OBJECT_LOCK = 256"

definition fetch_lock :: "u64 \<Rightarrow> nat" where
  "fetch_lock index = unat index mod MAX_GET_OBJECT_LOCK"

definition simpleOSD_get_object_to_dc ::
    "blk_frontend_parameters \<Rightarrow> blk_obj_fetch_arg option \<Rightarrow> os
       \<Rightarrow> (BLK_OBJ_FETCH_RET \<times> os) option" where
  "simpleOSD_get_object_to_dc g p_fetch_arg os =
     (case p_fetch_arg of
        None \<Rightarrow> Some (BLK_OBJ_FETCH_ERROR, os)
      | Some arg \<Rightarrow>
          (if fa_oid_str arg \<noteq> None then Some (BLK_OBJ_FETCH_SUCCESS, os)
           else case osd_object_to_dc_path g (Some (fa_volume_name arg)) (Some (fa_oid arg))
                       (Some []) of
             (OSD_SUCCESS, Some object_path) \<Rightarrow>
               Option.bind (pthread_mutex_lock (fetch_lock (fa_object_index arg)) os) (\<lambda>os1.
                 let (st, os2) = sys_stat object_path os1 in
                 if st \<noteq> 0 then
                   let (object_fd, os3) = sys_open object_path create_flags os2;
                       (fa, os4) = sys_fallocate object_fd (fa_object_size arg) os3
                   in if fa \<noteq> 0
                      then Some (BLK_OBJ_FETCH_ERROR,
                                 pthread_mutex_unlock (fetch_lock (fa_object_index arg)) os4)
                      else Some (BLK_OBJ_FETCH_SUCCESS,
                                 pthread_mutex_unlock (fetch_lock (fa_object_index arg)) os4)
                 else Some (BLK_OBJ_FETCH_SUCCESS,
                            pthread_mutex_unlock (fetch_lock (fa_object_index arg)) os2))
           | _ \<Rightarrow> Some (BLK_OBJ_FETCH_ERROR, os)))"

section \<open>The body under the lock\<close>

text \<open>The critical section with its path and size: what is done between lock and unlock.\<close>

definition fetch_body :: "string \<Rightarrow> u64 \<Rightarrow> os \<Rightarrow> BLK_OBJ_FETCH_RET \<times> os" where
  "fetch_body path sz os =
     (let (st, os2) = sys_stat path os in
      if st \<noteq> 0 then
        let (object_fd, os3) = sys_open path create_flags os2;
            (fa, os4) = sys_fallocate object_fd sz os3
        in (if fa \<noteq> 0 then BLK_OBJ_FETCH_ERROR else BLK_OBJ_FETCH_SUCCESS, os4)
      else (BLK_OBJ_FETCH_SUCCESS, os2))"

lemma get_object_to_dc_eq:
  assumes "path_fits g (fa_volume_name arg)" and "length (fa_oid arg) = MAXOIDLEN"
    and "fa_oid_str arg = None"
  shows "simpleOSD_get_object_to_dc g (Some arg) os =
     (if os_mutex os (fetch_lock (fa_object_index arg)) then None
      else Some (apsnd (pthread_mutex_unlock (fetch_lock (fa_object_index arg)))
        (fetch_body (dc_data_path g (fa_volume_name arg) (fa_oid arg)) (fa_object_size arg)
          (os\<lparr>os_mutex := (os_mutex os)(fetch_lock (fa_object_index arg) := True)\<rparr>))))"
  using assms
  by (simp add: simpleOSD_get_object_to_dc_def osd_object_to_dc_path_fits pthread_mutex_lock_def
      fetch_body_def Let_def split: prod.split)

text \<open>
  The effect of the critical section in one statement. Only the file \<open>path\<close> can change, and only
  by zeros at its end; at most one descriptor appears.
\<close>

definition padded :: "string \<Rightarrow> nat \<Rightarrow> os \<Rightarrow> string \<Rightarrow> bytes option" where
  "padded path k os = (os_files os)
     (path \<mapsto> (case os_files os path of None \<Rightarrow> [] | Some b \<Rightarrow> b) @ zeros k)"

lemma fetch_body_cases:
  assumes "fetch_body path sz os = (r, os')"
  obtains (kept) "os_files os' = os_files os" "os_fds os' = os_fds os"
      "r = BLK_OBJ_FETCH_SUCCESS \<longleftrightarrow> choice os \<noteq> Fail \<and> os_files os path \<noteq> None"
      "os_frame os os'" "os_mutex os' = os_mutex os"
      "r = BLK_OBJ_FETCH_ERROR \<Longrightarrow> \<not> no_faults os \<or> free_fd os = None \<or> \<not> os_creatable os path"
  | (opened) k fd where "os_files os' = padded path k os" "free_fd os = Some fd"
      "os_fds os' = (os_fds os)(fd \<mapsto> \<lparr>of_path = path, of_flags = create_flags\<rparr>)"
      "choice os = Fail \<or> os_files os path = None"
      "r = BLK_OBJ_FETCH_SUCCESS \<Longrightarrow>
        k = unat sz - (case os_files os path of None \<Rightarrow> 0 | Some b \<Rightarrow> length b)"
      "r = BLK_OBJ_FETCH_ERROR \<Longrightarrow> k = 0"
      "os_frame os os'" "os_mutex os' = os_mutex os"
      "r = BLK_OBJ_FETCH_ERROR \<Longrightarrow> \<not> no_faults os \<or> sint sz \<le> 0"
proof -
  note open_create = sys_open_create [of path "adv os"]
  show ?thesis
  proof (cases "(choice os \<noteq> Fail \<and> os_files os path \<noteq> None) \<or> choice (adv os) = Fail
      \<or> free_fd os = None \<or> os_files os path = None \<and> \<not> os_creatable os path")
    case True
    with assms show ?thesis
      by (intro kept)
         (auto simp: fetch_body_def sys_stat_eq open_create sys_fallocate_def next_choice_eq
           fd_file_def
           split: if_splits option.splits prod.splits)
  next
    case False
    then obtain fd where fd: "free_fd os = Some fd" by auto
    with False assms show ?thesis
      by (intro opened [of "if r = BLK_OBJ_FETCH_SUCCESS
             then unat sz - (case os_files os path of None \<Rightarrow> 0 | Some b \<Rightarrow> length b) else 0" fd])
         (auto simp: fetch_body_def sys_stat_eq open_create sys_fallocate_def next_choice_eq
           padded_def zeros_def fun_eq_iff
           split: if_splits option.splits prod.splits)
  qed
qed

lemma file_byte_padded [file_simps]: "file_byte (padded path k os) = file_byte (os_files os)"
  by (auto simp: fun_eq_iff file_byte_def padded_def nth_append split: option.splits)

lemma file_byte_upd_other [file_simps]:
  "p \<noteq> q \<Longrightarrow> file_byte (fs(p := v)) q = file_byte fs q"
  by (simp add: fun_eq_iff file_byte_def)

lemma padded_other [file_simps]: "p \<noteq> path \<Longrightarrow> padded path k os p = os_files os p"
  by (simp add: padded_def)

lemma padded_Some [file_simps]: "padded path k os path \<noteq> None"
  by (simp add: padded_def)

lemma fetch_body_bytes:
  "fetch_body path sz os = (r, os') \<Longrightarrow> file_byte (os_files os') = file_byte (os_files os)"
  by (erule fetch_body_cases) (simp_all add: file_simps)

lemma fetch_body_other_files:
  "fetch_body path sz os = (r, os') \<Longrightarrow> p \<noteq> path \<Longrightarrow> os_files os' p = os_files os p"
  by (erule fetch_body_cases) (simp_all add: file_simps)

section \<open>Properties\<close>

definition fetch_ready :: "blk_frontend_parameters \<Rightarrow> blk_obj_fetch_arg \<Rightarrow> os \<Rightarrow> bool" where
  "fetch_ready g arg os \<longleftrightarrow> path_fits g (fa_volume_name arg) \<and> length (fa_oid arg) = MAXOIDLEN
     \<and> fa_oid_str arg = None \<and> \<not> os_mutex os (fetch_lock (fa_object_index arg))"

definition fetch_path :: "blk_frontend_parameters \<Rightarrow> blk_obj_fetch_arg \<Rightarrow> string" where
  "fetch_path g arg = dc_data_path g (fa_volume_name arg) (fa_oid arg)"

text \<open>The call as the critical section run on the state with the lock taken.\<close>

lemma get_object_to_dc_ready:
  assumes "fetch_ready g arg os"
  obtains r os1 where
    "fetch_body (fetch_path g arg) (fa_object_size arg)
       (os\<lparr>os_mutex := (os_mutex os)(fetch_lock (fa_object_index arg) := True)\<rparr>) = (r, os1)"
    "simpleOSD_get_object_to_dc g (Some arg) os
       = Some (r, os1\<lparr>os_mutex := (os_mutex os1)(fetch_lock (fa_object_index arg) := False)\<rparr>)"
  using assms that
  by (cases "fetch_body (fetch_path g arg) (fa_object_size arg)
       (os\<lparr>os_mutex := (os_mutex os)(fetch_lock (fa_object_index arg) := True)\<rparr>)")
     (simp add: fetch_ready_def fetch_path_def get_object_to_dc_eq pthread_mutex_unlock_def)

lemma free_fd_mutex [simp]: "free_fd (os\<lparr>os_mutex := m\<rparr>) = free_fd os"
  by (simp add: free_fd_def)

lemma padded_mutex [simp]: "padded path k (os\<lparr>os_mutex := m\<rparr>) = padded path k os"
  by (simp add: padded_def)

lemma os_frame_mutex [simp]: "os_frame (os\<lparr>os_mutex := m\<rparr>) os' = os_frame os os'"
  by (simp add: os_frame_def)

text \<open>
  C20: A fetch whose mutex is free returns whatever the environment does, leaves every mutex as it
  found it on every path, and never changes a byte any path holds: it can only make an absent
  file appear as zeros or lengthen a file by zeros.
\<close>

theorem fetch_returns_and_unlocks:
  assumes "fetch_ready g arg os"
  shows "\<exists>r os'. simpleOSD_get_object_to_dc g (Some arg) os = Some (r, os')
      \<and> os_mutex os' = os_mutex os \<and> file_byte (os_files os') = file_byte (os_files os)
      \<and> os_frame os os'"
proof -
  from assms have free: "\<not> os_mutex os (fetch_lock (fa_object_index arg))"
    by (simp add: fetch_ready_def)
  from assms obtain r os1 where
    body: "fetch_body (fetch_path g arg) (fa_object_size arg)
       (os\<lparr>os_mutex := (os_mutex os)(fetch_lock (fa_object_index arg) := True)\<rparr>) = (r, os1)"
    and run: "simpleOSD_get_object_to_dc g (Some arg) os
       = Some (r, os1\<lparr>os_mutex := (os_mutex os1)(fetch_lock (fa_object_index arg) := False)\<rparr>)"
    by (rule get_object_to_dc_ready)
  from body have "os_mutex os1 = (os_mutex os)(fetch_lock (fa_object_index arg) := True)
      \<and> os_frame os os1"
    by (cases rule: fetch_body_cases) simp_all
  moreover have "file_byte (os_files os1) = file_byte (os_files os)"
    using fetch_body_bytes [OF body] by simp
  moreover have "((os_mutex os)(fetch_lock (fa_object_index arg) := True))
      (fetch_lock (fa_object_index arg) := False) = os_mutex os"
    using free by (simp add: fun_eq_iff)
  ultimately show ?thesis using run by simp
qed

definition ex_os :: os where
  "ex_os = \<lparr>os_files = (\<lambda>_. None), os_creatable = (\<lambda>_. True),
     os_fds = (\<lambda>n. if n < 4 then Some \<lparr>of_path = ''/dev/null'', of_flags = 2\<rparr> else None),
     os_nofile = 16, os_mutex = (\<lambda>_. False), os_time = 7, os_env = []\<rparr>"

definition ex_fetch_arg :: blk_obj_fetch_arg where
  "ex_fetch_arg = \<lparr>fa_volume_name = ''vol'', fa_oid = ex_start, fa_oid_str = None,
     fa_object_index = 0, fa_object_size = 4, fa_dp_ip = zero_ip\<rparr>"

lemma ex_os_simps:
  "os_files ex_os = (\<lambda>_. None)" "os_creatable ex_os p" "\<not> os_mutex ex_os k"
  "os_env ex_os = []" "no_faults ex_os" "free_fd ex_os = Some 4" "choice ex_os = Full"
  "adv ex_os = ex_os"
  by (simp_all add: ex_os_def no_faults_def free_fd_def choice_def adv_def)

lemma ex_fetch_ready_env: "fetch_ready ex_params ex_fetch_arg (ex_os\<lparr>os_env := cs\<rparr>)"
  by (simp add: fetch_ready_def ex_fetch_arg_def ex_os_def ex_params_def path_fits_def
      MAXPATHLEN_def ex_start_def MAXOIDLEN_def)

lemma ex_fetch_ready: "fetch_ready ex_params ex_fetch_arg ex_os"
  using ex_fetch_ready_env [of "[]"] by (simp add: ex_os_def)

lemma ex_fetch_succeeds:
  "\<exists>os'. simpleOSD_get_object_to_dc ex_params (Some ex_fetch_arg) ex_os
     = Some (BLK_OBJ_FETCH_SUCCESS, os')"
proof (rule get_object_to_dc_ready [OF ex_fetch_ready])
  fix r os1
  assume body: "fetch_body (fetch_path ex_params ex_fetch_arg) (fa_object_size ex_fetch_arg)
       (ex_os\<lparr>os_mutex := (os_mutex ex_os)(fetch_lock (fa_object_index ex_fetch_arg) := True)\<rparr>)
       = (r, os1)"
    and run: "simpleOSD_get_object_to_dc ex_params (Some ex_fetch_arg) ex_os
       = Some (r, os1\<lparr>os_mutex := (os_mutex os1)
           (fetch_lock (fa_object_index ex_fetch_arg) := False)\<rparr>)"
  from body have "r = BLK_OBJ_FETCH_SUCCESS"
    by (cases rule: fetch_body_cases; cases r) (simp_all add: ex_os_simps ex_fetch_arg_def)
  with run show ?thesis by blast
qed

theorem fetch_returns_and_unlocks_witness:
  "\<exists>r os'. simpleOSD_get_object_to_dc ex_params (Some ex_fetch_arg) (ex_os\<lparr>os_env := [Full, Fail]\<rparr>)
        = Some (r, os') \<and> os_mutex os' = (\<lambda>_. False)"
  using fetch_returns_and_unlocks [OF ex_fetch_ready_env [of "[Full, Fail]"]]
  by (auto simp: ex_os_def)

text \<open>
  When the object file is absent and nothing fails, the fetch creates exactly the object: it
  succeeds and the file holds \<open>object_size\<close> zero bytes, with every other file unchanged.
\<close>

theorem fetch_creates_zeroed_object:
  assumes "fetch_ready g arg os" and "os_files os (fetch_path g arg) = None"
    and "no_faults os" and "os_creatable os (fetch_path g arg)" and "free_fd os \<noteq> None"
    and "0 < sint (fa_object_size arg)"
  shows "\<exists>os'. simpleOSD_get_object_to_dc g (Some arg) os = Some (BLK_OBJ_FETCH_SUCCESS, os')
      \<and> os_files os' = (os_files os)(fetch_path g arg \<mapsto> zeros (unat (fa_object_size arg)))"
proof -
  from assms(1) obtain r os1 where
    body: "fetch_body (fetch_path g arg) (fa_object_size arg)
       (os\<lparr>os_mutex := (os_mutex os)(fetch_lock (fa_object_index arg) := True)\<rparr>) = (r, os1)"
    and run: "simpleOSD_get_object_to_dc g (Some arg) os
       = Some (r, os1\<lparr>os_mutex := (os_mutex os1)(fetch_lock (fa_object_index arg) := False)\<rparr>)"
    by (rule get_object_to_dc_ready)
  from body show ?thesis
  proof (cases rule: fetch_body_cases)
    case kept
    with assms show ?thesis by (cases r) auto
  next
    case (opened k fd)
    with assms have "r = BLK_OBJ_FETCH_SUCCESS" by (cases r) auto
    with opened assms have "os_files os1 = (os_files os)(fetch_path g arg
        \<mapsto> zeros (unat (fa_object_size arg)))"
      by (simp add: padded_def)
    with run \<open>r = _\<close> show ?thesis by simp
  qed
qed

theorem fetch_creates_zeroed_object_witness:
  "\<exists>os'. simpleOSD_get_object_to_dc ex_params (Some ex_fetch_arg) ex_os
        = Some (BLK_OBJ_FETCH_SUCCESS, os')
      \<and> os_files os' (fetch_path ex_params ex_fetch_arg) = Some (zeros 4)"
proof -
  have "\<exists>os'. simpleOSD_get_object_to_dc ex_params (Some ex_fetch_arg) ex_os
        = Some (BLK_OBJ_FETCH_SUCCESS, os') \<and> os_files os' = (os_files ex_os)
          (fetch_path ex_params ex_fetch_arg \<mapsto> zeros (unat (fa_object_size ex_fetch_arg)))"
    by (rule fetch_creates_zeroed_object [OF ex_fetch_ready])
       (simp_all add: ex_os_simps ex_fetch_arg_def)
  then show ?thesis by (auto simp: ex_fetch_arg_def)
qed

text \<open>
  The descriptor the fetch creates the file with is never closed: after a successful creation
  the lowest free descriptor of the caller is open for writing on the object, and no other
  descriptor has changed.
\<close>

theorem fetch_leaks_descriptor:
  assumes "fetch_ready g arg os" and "os_files os (fetch_path g arg) = None"
    and "simpleOSD_get_object_to_dc g (Some arg) os = Some (BLK_OBJ_FETCH_SUCCESS, os')"
  shows "\<exists>fd. free_fd os = Some fd \<and> os_fds os fd = None
      \<and> os_fds os' = (os_fds os)(fd \<mapsto> \<lparr>of_path = fetch_path g arg, of_flags = create_flags\<rparr>)"
proof -
  from assms(1) obtain r os1 where
    body: "fetch_body (fetch_path g arg) (fa_object_size arg)
       (os\<lparr>os_mutex := (os_mutex os)(fetch_lock (fa_object_index arg) := True)\<rparr>) = (r, os1)"
    and run: "simpleOSD_get_object_to_dc g (Some arg) os
       = Some (r, os1\<lparr>os_mutex := (os_mutex os1)(fetch_lock (fa_object_index arg) := False)\<rparr>)"
    by (rule get_object_to_dc_ready)
  from body show ?thesis
  proof (cases rule: fetch_body_cases)
    case kept
    with assms run show ?thesis by auto
  next
    case (opened k fd)
    with assms run show ?thesis by (auto dest: free_fd_Some)
  qed
qed

theorem fetch_leaks_descriptor_witness:
  "\<exists>os'. simpleOSD_get_object_to_dc ex_params (Some ex_fetch_arg) ex_os
        = Some (BLK_OBJ_FETCH_SUCCESS, os') \<and> os_fds ex_os 4 = None \<and> os_fds os' 4 \<noteq> None"
proof -
  obtain os' where run: "simpleOSD_get_object_to_dc ex_params (Some ex_fetch_arg) ex_os
      = Some (BLK_OBJ_FETCH_SUCCESS, os')"
    using ex_fetch_succeeds by blast
  have "\<exists>fd. free_fd ex_os = Some fd \<and> os_fds ex_os fd = None \<and> os_fds os' = (os_fds ex_os)
      (fd \<mapsto> \<lparr>of_path = fetch_path ex_params ex_fetch_arg, of_flags = create_flags\<rparr>)"
    by (rule fetch_leaks_descriptor [OF ex_fetch_ready _ run]) (simp add: ex_os_simps)
  with run show ?thesis by (auto simp: ex_os_simps)
qed

text \<open>
  When the file is created but \<open>fallocate\<close> fails (no space, say), the fetch reports an error
  and leaves an empty file under the object's path. The next fetch of the object then succeeds
  without a byte having been allocated.
\<close>

theorem fetch_failed_allocation_leaves_empty_file:
  assumes "fetch_ready g arg os" and "os_files os (fetch_path g arg) = None"
    and "os_creatable os (fetch_path g arg)" and "free_fd os \<noteq> None"
    and "os_env os = [c1, c2, Fail]" and "c2 \<noteq> Fail"
  shows "\<exists>os'. simpleOSD_get_object_to_dc g (Some arg) os = Some (BLK_OBJ_FETCH_ERROR, os')
      \<and> os_files os' = (os_files os)(fetch_path g arg \<mapsto> [])
      \<and> (\<exists>os2. simpleOSD_get_object_to_dc g (Some arg) os' = Some (BLK_OBJ_FETCH_SUCCESS, os2)
            \<and> os_files os2 = os_files os')"
proof -
  obtain fd where fd: "free_fd os = Some fd" using assms(4) by auto
  define k where "k = fetch_lock (fa_object_index arg)"
  define os' where "os' = os\<lparr>os_files := (os_files os)(fetch_path g arg \<mapsto> []),
      os_fds := (os_fds os)(fd \<mapsto> \<lparr>of_path = fetch_path g arg, of_flags = create_flags\<rparr>),
      os_env := []\<rparr>"
  from assms(1) have rdy: "path_fits g (fa_volume_name arg)" "length (fa_oid arg) = MAXOIDLEN"
    "fa_oid_str arg = None" "\<not> os_mutex os k"
    by (simp_all add: fetch_ready_def k_def)
  note eq = get_object_to_dc_eq [OF rdy(1-3), folded fetch_path_def k_def]
  have m: "(os_mutex os)(k := False) = os_mutex os" using rdy(4) by (simp add: fun_eq_iff)
  have "fetch_body (fetch_path g arg) (fa_object_size arg) (os\<lparr>os_mutex := (os_mutex os)(k := True)\<rparr>)
      = (BLK_OBJ_FETCH_ERROR, os'\<lparr>os_mutex := (os_mutex os)(k := True)\<rparr>)"
    using assms fd [unfolded free_fd_def]
    by (simp add: fetch_body_def sys_stat_eq sys_open_create sys_fallocate_def next_choice_eq
        choice_def adv_def free_fd_def os'_def)
  then have "simpleOSD_get_object_to_dc g (Some arg) os = Some (BLK_OBJ_FETCH_ERROR, os')"
    using rdy(4) m by (simp add: eq pthread_mutex_unlock_def os'_def)
  moreover have "fetch_body (fetch_path g arg) (fa_object_size arg)
      (os'\<lparr>os_mutex := (os_mutex os')(k := True)\<rparr>)
      = (BLK_OBJ_FETCH_SUCCESS, os'\<lparr>os_mutex := (os_mutex os')(k := True)\<rparr>)"
    by (simp add: fetch_body_def sys_stat_eq choice_def adv_def os'_def)
  then have "\<exists>os2. simpleOSD_get_object_to_dc g (Some arg) os' = Some (BLK_OBJ_FETCH_SUCCESS, os2)
      \<and> os_files os2 = os_files os'"
    using rdy(4) by (simp add: eq pthread_mutex_unlock_def) (simp add: os'_def)
  ultimately show ?thesis by (auto simp: os'_def)
qed

theorem fetch_failed_allocation_leaves_empty_file_witness:
  "\<exists>os'. simpleOSD_get_object_to_dc ex_params (Some ex_fetch_arg) (ex_os\<lparr>os_env := [Full, Full, Fail]\<rparr>)
        = Some (BLK_OBJ_FETCH_ERROR, os')
      \<and> os_files os' = (\<lambda>_. None)(fetch_path ex_params ex_fetch_arg \<mapsto> [])"
  using fetch_failed_allocation_leaves_empty_file
      [OF ex_fetch_ready_env [of "[Full, Full, Fail]"], of Full Full] ex_os_simps(6)
  by (auto simp: ex_os_simps free_fd_def)

end
