(* ===== verification/Obj_Op.thy ===== *)
theory Obj_Op
  imports Posix Osd_Types
begin

text \<open>
  Input and output on one open object: src/simpleOSD_obj_op.c and \<open>osd_reset_cache_object\<close> of
  src/simpleOSD_osd_op.c. The two loops repeat \<open>pread64\<close> and \<open>pwrite64\<close> until the whole range has
  been moved; \<open>None\<close> is a loop that never ends. The interface other components use, the table
  \<open>obj_op_func_t\<close>, is the locale \<open>object_io\<close>, interpreted on the two loops.
\<close>

section \<open>Operations\<close>

definition osd_reset_cache_object :: "object_attr \<Rightarrow> os \<Rightarrow> OSD_RETURN \<times> object_attr \<times> os" where
  "osd_reset_cache_object p_object os =
     (if oa_file_fd p_object > RESERVED_FDS then
        (case sys_close (oa_file_fd p_object) os of
           (rc, os1) \<Rightarrow>
             if rc \<noteq> 0 then (OSD_ERROR, p_object\<lparr>oa_file_fd := -1\<rparr>, os1)
             else (OSD_SUCCESS, zero_object_attr\<lparr>oa_object_index := -1\<rparr>, os1))
      else (OSD_SUCCESS, zero_object_attr\<lparr>oa_object_index := -1\<rparr>, os))"

text \<open>
  The buffer pointer is a memory block \<open>mem\<close> and a position \<open>buf\<close> in it, so that
  \<open>(char *)buf+buf_read\<close> is the position \<open>buf + unat buf_read\<close>.
\<close>

partial_function (option) obj_read_loop ::
    "object_attr \<Rightarrow> bytes \<Rightarrow> nat \<Rightarrow> u64 \<Rightarrow> u64 \<Rightarrow> u64 \<Rightarrow> os
       \<Rightarrow> (OBJ_RETURN \<times> object_attr \<times> bytes \<times> os) option" where
  "obj_read_loop p_object mem buf buf_read local_buf_len offset os =
     (if local_buf_len = 0 then Some (OBJ_SUCCESS, p_object, mem, os)
      else case sys_pread (oa_file_fd p_object) local_buf_len offset os of
        (None, os1) \<Rightarrow>
          (case osd_reset_cache_object p_object os1 of
             (_, p_object', os2) \<Rightarrow> Some (OBJ_ERROR, p_object', mem, os2))
      | (Some d, os1) \<Rightarrow>
          obj_read_loop p_object (splice_at mem (buf + unat buf_read) d) buf
            (buf_read + of_nat (length d)) (local_buf_len - of_nat (length d))
            (offset + of_nat (length d)) os1)"

definition simpleOSD_obj_read ::
    "object_attr \<Rightarrow> bytes \<Rightarrow> nat \<Rightarrow> u64 \<Rightarrow> u64 \<Rightarrow> os
       \<Rightarrow> (OBJ_RETURN \<times> object_attr \<times> bytes \<times> os) option" where
  "simpleOSD_obj_read p_object mem buf local_buf_len offset os =
     obj_read_loop p_object mem buf 0 local_buf_len offset os"

partial_function (option) obj_write_loop ::
    "object_attr \<Rightarrow> bytes \<Rightarrow> nat \<Rightarrow> u64 \<Rightarrow> u64 \<Rightarrow> u64 \<Rightarrow> os
       \<Rightarrow> (OBJ_RETURN \<times> object_attr \<times> os) option" where
  "obj_write_loop p_object mem buf buf_write local_buf_len offset os =
     (if local_buf_len = 0 then Some (OBJ_SUCCESS, p_object, os)
      else case sys_pwrite (oa_file_fd p_object)
                  (slice mem (buf + unat buf_write) (unat local_buf_len)) offset os of
        (None, os1) \<Rightarrow>
          (case osd_reset_cache_object p_object os1 of
             (_, p_object', os2) \<Rightarrow> Some (OBJ_ERROR, p_object', os2))
      | (Some n, os1) \<Rightarrow>
          obj_write_loop p_object mem buf (buf_write + of_nat n)
            (local_buf_len - of_nat n) (offset + of_nat n) os1)"

definition simpleOSD_obj_write ::
    "object_attr \<Rightarrow> bytes \<Rightarrow> nat \<Rightarrow> u64 \<Rightarrow> u64 \<Rightarrow> os
       \<Rightarrow> (OBJ_RETURN \<times> object_attr \<times> os) option" where
  "simpleOSD_obj_write p_object mem buf local_buf_len offset os =
     obj_write_loop p_object mem buf 0 local_buf_len offset os"

record obj_op_func =
  obj_pfn_offset_read :: "object_attr \<Rightarrow> bytes \<Rightarrow> nat \<Rightarrow> u64 \<Rightarrow> u64 \<Rightarrow> os
       \<Rightarrow> (OBJ_RETURN \<times> object_attr \<times> bytes \<times> os) option"
  obj_pfn_offset_write :: "object_attr \<Rightarrow> bytes \<Rightarrow> nat \<Rightarrow> u64 \<Rightarrow> u64 \<Rightarrow> os
       \<Rightarrow> (OBJ_RETURN \<times> object_attr \<times> os) option"

text \<open>The table after its constructor function has run.\<close>

definition simpleOSD_obj_op :: obj_op_func where
  "simpleOSD_obj_op = \<lparr>obj_pfn_offset_read = simpleOSD_obj_read,
     obj_pfn_offset_write = simpleOSD_obj_write\<rparr>"

section \<open>Releasing an object\<close>

definition closed_fds :: "int \<Rightarrow> (nat \<Rightarrow> ofile option) \<Rightarrow> nat \<Rightarrow> ofile option" where
  "closed_fds fd t = (if fd > RESERVED_FDS then t(nat fd := None) else t)"

lemma reset_cache_object_effect:
  assumes "osd_reset_cache_object obj os = (r, obj', os')"
  shows "os_files os' = os_files os \<and> os_frame os os' \<and> os_mutex os' = os_mutex os
     \<and> os_fds os' = closed_fds (oa_file_fd obj) (os_fds os) \<and> oa_file_fd obj' \<le> RESERVED_FDS
     \<and> (no_faults os \<and> fd_file os (oa_file_fd obj) \<noteq> None \<longrightarrow> r = OSD_SUCCESS)"
  using assms
  by (auto simp: osd_reset_cache_object_def sys_close_eq closed_fds_def fd_file_def fun_eq_iff
      RESERVED_FDS_def zero_object_attr_def split: if_splits)

lemma closed_fds_idem: "fd' \<le> RESERVED_FDS \<Longrightarrow> closed_fds fd' t = t"
  by (simp add: closed_fds_def)

section \<open>The interface of an open object\<close>

text \<open>The object's descriptor is open on the path \<open>p\<close>, whose contents are \<open>b\<close>.\<close>

definition obj_open :: "os \<Rightarrow> object_attr \<Rightarrow> string \<Rightarrow> bytes \<Rightarrow> bool" where
  "obj_open os obj p b \<longleftrightarrow>
     (\<exists>fl. fd_file os (oa_file_fd obj) = Some \<lparr>of_path = p, of_flags = fl\<rparr> \<and> plain_flags fl)
     \<and> os_files os p = Some b \<and> length b < 9223372036854775808"

text \<open>What a transfer does besides moving bytes: on failure the descriptor is released.\<close>

definition obj_result :: "os \<Rightarrow> object_attr \<Rightarrow> OBJ_RETURN \<Rightarrow> object_attr \<Rightarrow> os \<Rightarrow> bool" where
  "obj_result os obj r obj' os' \<longleftrightarrow>
     os_frame os os' \<and> os_mutex os' = os_mutex os \<and> (no_faults os \<longrightarrow> r = OBJ_SUCCESS) \<and>
     (case r of
        OBJ_SUCCESS \<Rightarrow> obj' = obj \<and> os_fds os' = os_fds os
      | OBJ_ERROR \<Rightarrow> oa_file_fd obj' \<le> RESERVED_FDS
          \<and> os_fds os' = closed_fds (oa_file_fd obj) (os_fds os))"

locale object_io =
  fixes ops :: obj_op_func
  assumes read_contract:
    "obj_open os obj p b \<Longrightarrow> unat off + unat len \<le> length b \<Longrightarrow> buf + unat len \<le> length mem \<Longrightarrow>
     \<exists>r obj' os' k. obj_pfn_offset_read ops obj mem buf len off os
           = Some (r, obj', splice_at mem buf (slice b (unat off) k), os')
       \<and> k \<le> unat len \<and> (r = OBJ_SUCCESS \<longrightarrow> k = unat len)
       \<and> obj_result os obj r obj' os' \<and> os_files os' = os_files os"
  and write_contract:
    "obj_open os obj p b \<Longrightarrow> unat off + unat len \<le> length b \<Longrightarrow> buf + unat len \<le> length mem \<Longrightarrow>
     \<exists>r obj' os' k. obj_pfn_offset_write ops obj mem buf len off os = Some (r, obj', os')
       \<and> k \<le> unat len \<and> (r = OBJ_SUCCESS \<longrightarrow> k = unat len)
       \<and> obj_result os obj r obj' os'
       \<and> os_files os' = (os_files os)(p \<mapsto> splice_at b (unat off) (slice mem buf k))"

section \<open>The loops meet the contract\<close>

lemma obj_open_adv [simp]: "obj_open (adv os) = obj_open os"
  by (simp add: obj_open_def fun_eq_iff)

lemma obj_result_adv:
  assumes "obj_result os1 obj r obj' os'" and "os_frame os os1"
    and "os_mutex os1 = os_mutex os" and "os_fds os1 = os_fds os"
  shows "obj_result os obj r obj' os'"
  using assms by (cases r) (auto simp: obj_result_def intro: os_frame_trans os_frame_no_faults)

lemma sys_pread_open:
  assumes "obj_open os obj p b" and "unat off \<le> length b"
  shows "sys_pread (oa_file_fd obj) len off os =
     (if choice os = Fail then None
      else Some (slice b (unat off) (transfer_limit (choice os) len)), adv os)"
  using assms sint_unat_small64 [of off]
  by (auto simp: sys_pread_def next_choice_eq obj_open_def plain_flags_def)

lemma sys_pwrite_open:
  assumes "obj_open os obj p b" and "unat off + length d \<le> length b"
  shows "sys_pwrite (oa_file_fd obj) d off os =
     (if choice os = Fail then (None, adv os)
      else let n = transfer_limit (choice os) (of_nat (length d)) in
        (Some n, (adv os)\<lparr>os_files := (os_files os)
            (p \<mapsto> splice_at b (unat off) (take n d))\<rparr>))"
  using assms sint_unat_small64 [of off]
  by (auto simp: sys_pwrite_def next_choice_eq obj_open_def plain_flags_def Let_def
      file_write_inside)

lemma obj_failure_result:
  assumes "osd_reset_cache_object obj (adv os) = (x, obj', os')" and "choice os = Fail"
  shows "obj_result os obj OBJ_ERROR obj' os'" "os_files os' = os_files os"
  using reset_cache_object_effect [OF assms(1)] assms(2)
  by (auto simp: obj_result_def intro: os_frame_trans [OF os_frame_adv])

text \<open>Word arithmetic of one round: moving \<open>n\<close> of \<open>len\<close> bytes.\<close>

lemma loop_step_words:
  fixes len off rd :: u64
  assumes "n \<le> unat len" and "unat off + unat len < 18446744073709551616"
    and "unat rd + unat len < 18446744073709551616"
  shows "unat (len - of_nat n) = unat len - n" "unat (off + of_nat n) = unat off + n"
    "unat (rd + of_nat n) = unat rd + n"
proof -
  have n: "unat (of_nat n :: u64) = n"
    using assms by (intro unat_of_nat_small) simp
  then show "unat (len - of_nat n) = unat len - n" using assms by (simp add: unat_diff_le)
  show "unat (off + of_nat n) = unat off + n"
    using assms n by (subst unat_add_no_wrap) simp_all
  show "unat (rd + of_nat n) = unat rd + n"
    using assms n by (subst unat_add_no_wrap) simp_all
qed

text \<open>One round of the read loop: the environment fails the call or moves \<open>n\<close> bytes.\<close>

lemma obj_read_loop_failed:
  assumes "obj_open os obj p b" and "unat off + unat len \<le> length b" and "len \<noteq> 0" and "choice os = Fail"
  shows "\<exists>obj' os'. obj_read_loop obj mem buf rd len off os = Some (OBJ_ERROR, obj', mem, os')
    \<and> obj_result os obj OBJ_ERROR obj' os' \<and> os_files os' = os_files os"
proof -
  obtain x obj' os' where rs: "osd_reset_cache_object obj (adv os) = (x, obj', os')"
    by (cases "osd_reset_cache_object obj (adv os)") auto
  have "obj_read_loop obj mem buf rd len off os = Some (OBJ_ERROR, obj', mem, os')"
    using assms by (subst obj_read_loop.simps) (simp add: sys_pread_open [OF assms(1)] rs)
  then show ?thesis using obj_failure_result [OF rs assms(4)] by simp
qed

lemma obj_read_loop_moved:
  assumes "obj_open os obj p b" and "unat off + unat len \<le> length b" and "len \<noteq> 0" and "choice os \<noteq> Fail"
  defines "n \<equiv> transfer_limit (choice os) len"
  shows "0 < n" "n \<le> unat len"
    "obj_read_loop obj mem buf rd len off os =
      obj_read_loop obj (splice_at mem (buf + unat rd) (slice b (unat off) n)) buf (rd + of_nat n)
        (len - of_nat n) (off + of_nat n) (adv os)"
proof -
  show n: "0 < n" "n \<le> unat len"
    using assms(3,4) by (simp_all add: n_def transfer_limit_pos transfer_limit_le)
  then have "length (slice b (unat off) n) = n" using assms(2) by simp
  then show "obj_read_loop obj mem buf rd len off os =
      obj_read_loop obj (splice_at mem (buf + unat rd) (slice b (unat off) n)) buf (rd + of_nat n)
        (len - of_nat n) (off + of_nat n) (adv os)"
    using assms(2-4)
    by (subst obj_read_loop.simps) (simp add: sys_pread_open [OF assms(1)] flip: n_def)
qed

lemma obj_read_loop_total:
  assumes "obj_open os obj p b" and "unat off + unat len \<le> length b"
    and "buf + unat rd + unat len \<le> length mem" and "unat rd + unat len < 18446744073709551616"
  shows "\<exists>r obj' os' k. obj_read_loop obj mem buf rd len off os
        = Some (r, obj', splice_at mem (buf + unat rd) (slice b (unat off) k), os')
      \<and> k \<le> unat len \<and> (r = OBJ_SUCCESS \<longrightarrow> k = unat len)
      \<and> obj_result os obj r obj' os' \<and> os_files os' = os_files os"
  using assms
proof (induction "unat len" arbitrary: mem rd len off os rule: less_induct)
  case less
  note op = less.prems(1) and rng = less.prems(2) and mem = less.prems(3) and wr = less.prems(4)
  have b63: "length b < 9223372036854775808" using op by (simp add: obj_open_def)
  consider (finished) "len = 0" | (failed) "len \<noteq> 0" "choice os = Fail"
    | (moved) "len \<noteq> 0" "choice os \<noteq> Fail" by blast
  then show ?case
  proof cases
    case finished
    then show ?thesis
      by (intro exI [of _ OBJ_SUCCESS] exI [of _ obj] exI [of _ os] exI [of _ 0])
         (simp add: obj_read_loop.simps obj_result_def)
  next
    case failed
    then obtain obj' os' where
      "obj_read_loop obj mem buf rd len off os = Some (OBJ_ERROR, obj', mem, os')"
      "obj_result os obj OBJ_ERROR obj' os'" "os_files os' = os_files os"
      using obj_read_loop_failed [OF op rng, of mem buf rd] by blast
    then show ?thesis
      by (intro exI [of _ OBJ_ERROR] exI [of _ obj'] exI [of _ os'] exI [of _ 0]) simp
  next
    case moved
    define n where "n = transfer_limit (choice os) len"
    note round = obj_read_loop_moved [OF op rng moved, folded n_def]
    note n = round(1,2) and step = round(3) [of mem buf rd]
    have w: "unat (len - of_nat n) = unat len - n" "unat (off + of_nat n) = unat off + n"
      "unat (rd + of_nat n) = unat rd + n"
      using loop_step_words [OF n(2), of off rd] rng wr b63 by simp_all
    define d where "d = slice b (unat off) n"
    note step = step [folded d_def]
    have d: "length d = n" using n rng by (simp add: d_def)
    have mem': "length (splice_at mem (buf + unat rd) d) = length mem" using mem n d by simp
    obtain r obj' os' k where
      run: "obj_read_loop obj (splice_at mem (buf + unat rd) d) buf (rd + of_nat n)
          (len - of_nat n) (off + of_nat n) (adv os)
        = Some (r, obj', splice_at (splice_at mem (buf + unat rd) d) (buf + (unat rd + n))
            (slice b (unat off + n) k), os')"
      and k: "k \<le> unat len - n" "r = OBJ_SUCCESS \<longrightarrow> k = unat len - n"
      and res: "obj_result (adv os) obj r obj' os'" "os_files os' = os_files (adv os)"
      using less.hyps [of "len - of_nat n" "adv os" "off + of_nat n" "rd + of_nat n"
          "splice_at mem (buf + unat rd) d"] op rng mem wr n w mem' by auto
    have "splice_at (splice_at mem (buf + unat rd) d) (buf + (unat rd + n))
            (slice b (unat off + n) k) = splice_at mem (buf + unat rd) (slice b (unat off) (n + k))"
      using splice_at_append [of "buf + unat rd" d "slice b (unat off + n) k" mem] d k n mem rng
      by (simp add: add.assoc d_def slice_append)
    then show ?thesis
      using step run k n obj_result_adv [OF res(1)] res(2)
      by (intro exI [of _ r] exI [of _ obj'] exI [of _ os'] exI [of _ "n + k"]) auto
  qed
qed

lemma take_slice [slice_simps]: "n \<le> m \<Longrightarrow> take n (slice b off m) = slice b off n"
  by (simp add: slice_def min_def)

lemma obj_open_write:
  "obj_open os obj p b \<Longrightarrow> unat off + length d \<le> length b \<Longrightarrow>
   obj_open (os\<lparr>os_files := (os_files os)(p \<mapsto> splice_at b (unat off) d)\<rparr>) obj p
     (splice_at b (unat off) d)"
  by (auto simp: obj_open_def fd_file_def)

lemma obj_write_loop_failed:
  assumes "obj_open os obj p b" and "unat off + unat len \<le> length b"
    and "buf + unat rd + unat len \<le> length mem" and "len \<noteq> 0" and "choice os = Fail"
  shows "\<exists>obj' os'. obj_write_loop obj mem buf rd len off os = Some (OBJ_ERROR, obj', os')
    \<and> obj_result os obj OBJ_ERROR obj' os' \<and> os_files os' = os_files os"
proof -
  obtain x obj' os' where rs: "osd_reset_cache_object obj (adv os) = (x, obj', os')"
    by (cases "osd_reset_cache_object obj (adv os)") auto
  have "obj_write_loop obj mem buf rd len off os = Some (OBJ_ERROR, obj', os')"
    using assms by (subst obj_write_loop.simps) (simp add: sys_pwrite_open [OF assms(1)] rs)
  then show ?thesis using obj_failure_result [OF rs assms(5)] by simp
qed

lemma obj_write_loop_moved:
  assumes "obj_open os obj p b" and "unat off + unat len \<le> length b"
    and "buf + unat rd + unat len \<le> length mem" and "len \<noteq> 0" and "choice os \<noteq> Fail"
  defines "n \<equiv> transfer_limit (choice os) len"
  defines "b1 \<equiv> splice_at b (unat off) (slice mem (buf + unat rd) n)"
  defines "os1 \<equiv> (adv os)\<lparr>os_files := (os_files os)(p \<mapsto> b1)\<rparr>"
  shows "0 < n" "n \<le> unat len" "length b1 = length b" "obj_open os1 obj p b1"
    "obj_write_loop obj mem buf rd len off os =
      obj_write_loop obj mem buf (rd + of_nat n) (len - of_nat n) (off + of_nat n) os1"
proof -
  show n: "0 < n" "n \<le> unat len"
    using assms(4,5) by (simp_all add: n_def transfer_limit_pos transfer_limit_le)
  then have s: "take n (slice mem (buf + unat rd) (unat len)) = slice mem (buf + unat rd) n"
    "length (slice mem (buf + unat rd) n) = n"
    using assms(3) by (simp_all add: take_slice)
  then show "length b1 = length b" using n assms(2) by (simp add: b1_def)
  show "obj_open os1 obj p b1"
    using obj_open_write [of "adv os" obj p b off "slice mem (buf + unat rd) n"] assms(1,2) n s
    by (simp add: os1_def b1_def)
  show "obj_write_loop obj mem buf rd len off os =
      obj_write_loop obj mem buf (rd + of_nat n) (len - of_nat n) (off + of_nat n) os1"
    using assms(2-5) s
    by (subst obj_write_loop.simps)
       (simp add: sys_pwrite_open [OF assms(1)] Let_def os1_def b1_def flip: n_def)
qed

lemma obj_write_loop_total:
  assumes "obj_open os obj p b" and "unat off + unat len \<le> length b"
    and "buf + unat rd + unat len \<le> length mem" and "unat rd + unat len < 18446744073709551616"
  shows "\<exists>r obj' os' k. obj_write_loop obj mem buf rd len off os = Some (r, obj', os')
      \<and> k \<le> unat len \<and> (r = OBJ_SUCCESS \<longrightarrow> k = unat len) \<and> obj_result os obj r obj' os'
      \<and> os_files os' = (os_files os)(p \<mapsto> splice_at b (unat off) (slice mem (buf + unat rd) k))"
  using assms
proof (induction "unat len" arbitrary: b rd len off os rule: less_induct)
  case less
  note op = less.prems(1) and rng = less.prems(2) and mem = less.prems(3) and wr = less.prems(4)
  have b63: "length b < 9223372036854775808" and fb: "os_files os p = Some b"
    using op by (simp_all add: obj_open_def)
  then have same: "(os_files os)(p \<mapsto> b) = os_files os" by (simp add: fun_eq_iff)
  consider (finished) "len = 0" | (failed) "len \<noteq> 0" "choice os = Fail"
    | (moved) "len \<noteq> 0" "choice os \<noteq> Fail" by blast
  then show ?case
  proof cases
    case finished
    then show ?thesis using same
      by (intro exI [of _ OBJ_SUCCESS] exI [of _ obj] exI [of _ os] exI [of _ 0])
         (simp add: obj_write_loop.simps obj_result_def)
  next
    case failed
    then obtain obj' os' where
      "obj_write_loop obj mem buf rd len off os = Some (OBJ_ERROR, obj', os')"
      "obj_result os obj OBJ_ERROR obj' os'" "os_files os' = os_files os"
      using obj_write_loop_failed [OF op rng mem] by blast
    then show ?thesis using same
      by (intro exI [of _ OBJ_ERROR] exI [of _ obj'] exI [of _ os'] exI [of _ 0]) simp
  next
    case moved
    define n where "n = transfer_limit (choice os) len"
    define b1 where "b1 = splice_at b (unat off) (slice mem (buf + unat rd) n)"
    define os1 where "os1 = (adv os)\<lparr>os_files := (os_files os)(p \<mapsto> b1)\<rparr>"
    note round = obj_write_loop_moved [OF op rng mem moved, folded n_def, folded b1_def, folded os1_def]
    note n = round(1,2) and b1 = round(3) and op1 = round(4) and step = round(5)
    have w: "unat (len - of_nat n) = unat len - n" "unat (off + of_nat n) = unat off + n"
      "unat (rd + of_nat n) = unat rd + n"
      using loop_step_words [OF n(2), of off rd] rng wr b63 by simp_all
    have fr: "os_frame os os1" "os_mutex os1 = os_mutex os" "os_fds os1 = os_fds os"
      "os_files os1 = (os_files os)(p \<mapsto> b1)"
      by (simp_all add: os1_def)
    obtain r obj' os' k where
      run: "obj_write_loop obj mem buf (rd + of_nat n) (len - of_nat n) (off + of_nat n) os1
        = Some (r, obj', os')"
      and k: "k \<le> unat len - n" "r = OBJ_SUCCESS \<longrightarrow> k = unat len - n"
      and res: "obj_result os1 obj r obj' os'"
      and files: "os_files os' = (os_files os1)
          (p \<mapsto> splice_at b1 (unat off + n) (slice mem (buf + (unat rd + n)) k))"
      using less.hyps [of "len - of_nat n" os1 b1 "off + of_nat n" "rd + of_nat n"]
        op1 rng mem wr n w b1 by auto
    have "splice_at b1 (unat off + n) (slice mem (buf + (unat rd + n)) k)
        = splice_at b (unat off) (slice mem (buf + unat rd) (n + k))"
      using splice_at_append [of "unat off" "slice mem (buf + unat rd) n"
          "slice mem (buf + (unat rd + n)) k" b]
        slice_append [of mem "buf + unat rd" n k] n k mem rng
      by (simp add: b1_def add.assoc)
    then show ?thesis
      using step run k n obj_result_adv [OF res fr(1-3)] files fr(4)
      by (intro exI [of _ r] exI [of _ obj'] exI [of _ os'] exI [of _ "n + k"]) auto
  qed
qed

interpretation simple_io: object_io simpleOSD_obj_op
proof
  fix os obj p b buf and mem :: bytes and off len :: u64
  assume op: "obj_open os obj p b" and rng: "unat off + unat len \<le> length b"
    and mem: "buf + unat len \<le> length mem"
  have "unat len < 18446744073709551616" by (rule unat_lt64)
  then show "\<exists>r obj' os' k. obj_pfn_offset_read simpleOSD_obj_op obj mem buf len off os
           = Some (r, obj', splice_at mem buf (slice b (unat off) k), os')
       \<and> k \<le> unat len \<and> (r = OBJ_SUCCESS \<longrightarrow> k = unat len)
       \<and> obj_result os obj r obj' os' \<and> os_files os' = os_files os"
    using obj_read_loop_total [OF op rng, of buf 0 mem] mem
    by (simp add: simpleOSD_obj_op_def simpleOSD_obj_read_def)
  show "\<exists>r obj' os' k. obj_pfn_offset_write simpleOSD_obj_op obj mem buf len off os
           = Some (r, obj', os')
       \<and> k \<le> unat len \<and> (r = OBJ_SUCCESS \<longrightarrow> k = unat len)
       \<and> obj_result os obj r obj' os'
       \<and> os_files os' = (os_files os)(p \<mapsto> splice_at b (unat off) (slice mem buf k))"
    using obj_write_loop_total [OF op rng, of buf 0 mem] mem \<open>unat len < 18446744073709551616\<close>
    by (simp add: simpleOSD_obj_op_def simpleOSD_obj_write_def)
qed

section \<open>Properties\<close>

text \<open>
  Reading a range that lies inside the file of an open object always returns, whatever short
  reads and failures the environment produces. On success the buffer holds exactly the file's
  bytes of the range and the object stays open; on failure only a prefix of the range has reached
  the buffer and the object's descriptor has been released. No file changes, and without
  environment failures the read succeeds.
\<close>

theorem simpleOSD_obj_read_correct:
  assumes "obj_open os obj p b" and "unat off + unat len \<le> length b"
    and "buf + unat len \<le> length mem"
  shows "\<exists>r obj' os' k. simpleOSD_obj_read obj mem buf len off os
           = Some (r, obj', splice_at mem buf (slice b (unat off) k), os')
       \<and> k \<le> unat len \<and> (r = OBJ_SUCCESS \<longrightarrow> k = unat len)
       \<and> obj_result os obj r obj' os' \<and> os_files os' = os_files os"
  using simple_io.read_contract [OF assms] by (simp add: simpleOSD_obj_op_def)

definition ex_obj :: object_attr where
  "ex_obj = zero_object_attr\<lparr>oa_file_fd := 4\<rparr>"

definition ex_open_os :: "bytes \<Rightarrow> env_choice list \<Rightarrow> os" where
  "ex_open_os b cs = \<lparr>os_files = [''/f'' \<mapsto> b], os_creatable = (\<lambda>_. True),
     os_fds = [4 \<mapsto> \<lparr>of_path = ''/f'', of_flags = O_RDWR\<rparr>],
     os_nofile = 16, os_mutex = (\<lambda>_. False), os_time = 7, os_env = cs\<rparr>"

lemma plain_flags_rdwr [simp]: "plain_flags O_RDWR"
  by (simp add: plain_flags_def may_read_def may_write_def has_flag_def O_RDWR_def O_CREAT_def
      O_TRUNC_def O_APPEND_def)

lemma ex_obj_open: "length b < 100 \<Longrightarrow> obj_open (ex_open_os b cs) ex_obj ''/f'' b"
  by (auto simp: obj_open_def ex_open_os_def ex_obj_def fd_file_def)

theorem simpleOSD_obj_read_correct_witness:
  "\<exists>obj' os'. simpleOSD_obj_read ex_obj [9, 9, 9] 0 3 1 (ex_open_os [1, 2, 3, 4] [Short 0])
     = Some (OBJ_SUCCESS, obj', [2, 3, 4], os')"
proof -
  have "obj_open (ex_open_os [1, 2, 3, 4] [Short 0]) ex_obj ''/f'' [1, 2, 3, 4]"
    by (rule ex_obj_open) simp
  from simpleOSD_obj_read_correct [OF this, of 1 3 0 "[9, 9, 9]"]
  obtain r obj' os' k where
    run: "simpleOSD_obj_read ex_obj [9, 9, 9] 0 3 1 (ex_open_os [1, 2, 3, 4] [Short 0])
      = Some (r, obj', splice_at [9, 9, 9] 0 (slice [1, 2, 3, 4] 1 k), os')"
    and k: "r = OBJ_SUCCESS \<longrightarrow> k = 3"
    and res: "obj_result (ex_open_os [1, 2, 3, 4] [Short 0]) ex_obj r obj' os'"
    by auto
  from res have "r = OBJ_SUCCESS" by (simp add: obj_result_def no_faults_def ex_open_os_def)
  with run k show ?thesis by (simp add: splice_at_def slice_def)
qed

text \<open>
  Writing a range inside the file of an open object always returns. On success the file holds
  the buffer's bytes over exactly that range and is unchanged elsewhere; on failure some prefix of
  the range has been written and the descriptor released. No other file changes.
\<close>

theorem simpleOSD_obj_write_correct:
  assumes "obj_open os obj p b" and "unat off + unat len \<le> length b"
    and "buf + unat len \<le> length mem"
  shows "\<exists>r obj' os' k. simpleOSD_obj_write obj mem buf len off os = Some (r, obj', os')
       \<and> k \<le> unat len \<and> (r = OBJ_SUCCESS \<longrightarrow> k = unat len)
       \<and> obj_result os obj r obj' os'
       \<and> os_files os' = (os_files os)(p \<mapsto> splice_at b (unat off) (slice mem buf k))"
  using simple_io.write_contract [OF assms] by (simp add: simpleOSD_obj_op_def)

theorem simpleOSD_obj_write_correct_witness:
  "\<exists>obj' os'. simpleOSD_obj_write ex_obj [7, 8] 0 2 1 (ex_open_os [1, 2, 3, 4] [Short 0])
     = Some (OBJ_SUCCESS, obj', os') \<and> os_files os' ''/f'' = Some [1, 7, 8, 4]"
proof -
  have "obj_open (ex_open_os [1, 2, 3, 4] [Short 0]) ex_obj ''/f'' [1, 2, 3, 4]"
    by (rule ex_obj_open) simp
  from simpleOSD_obj_write_correct [OF this, of 1 2 0 "[7, 8]"]
  obtain r obj' os' k where
    run: "simpleOSD_obj_write ex_obj [7, 8] 0 2 1 (ex_open_os [1, 2, 3, 4] [Short 0])
      = Some (r, obj', os')"
    and k: "r = OBJ_SUCCESS \<longrightarrow> k = 2"
    and res: "obj_result (ex_open_os [1, 2, 3, 4] [Short 0]) ex_obj r obj' os'"
    and files: "os_files os' = (os_files (ex_open_os [1, 2, 3, 4] [Short 0]))
      (''/f'' \<mapsto> splice_at [1, 2, 3, 4] 1 (slice [7, 8] 0 k))"
    by auto
  from res have "r = OBJ_SUCCESS" by (simp add: obj_result_def no_faults_def ex_open_os_def)
  with run k files show ?thesis by (simp add: splice_at_def slice_def)
qed

text \<open>
  A state from which the read loop can only go round: no failure to come, and the range reaches
  past the end of the file.
\<close>

definition read_stuck :: "string \<Rightarrow> bytes \<Rightarrow> object_attr \<Rightarrow> u64 \<Rightarrow> u64 \<Rightarrow> os \<Rightarrow> bool" where
  "read_stuck p b obj len off os \<longleftrightarrow> obj_open os obj p b \<and> no_faults os
     \<and> unat off \<le> length b \<and> length b < unat off + unat len
     \<and> unat off + unat len < 9223372036854775808"

lemma read_stuck_step:
  assumes "read_stuck p b obj len off os"
  defines "d \<equiv> slice b (unat off) (transfer_limit (choice os) len)"
  shows "sys_pread (oa_file_fd obj) len off os = (Some d, adv os)" "len \<noteq> 0"
    "read_stuck p b obj (len - of_nat (length d)) (off + of_nat (length d)) (adv os)"
proof -
  from assms(1) have op: "obj_open os obj p b" and nf: "no_faults os"
    and r: "unat off \<le> length b" "length b < unat off + unat len"
      "unat off + unat len < 9223372036854775808"
    by (simp_all add: read_stuck_def)
  show "sys_pread (oa_file_fd obj) len off os = (Some d, adv os)"
    using nf by (simp add: sys_pread_open [OF op r(1)] d_def)
  show "len \<noteq> 0" using r by auto
  have d: "length d \<le> length b - unat off" "length d \<le> unat len"
    using transfer_limit_le [of "choice os" len] by (auto simp: d_def)
  have "unat (len - of_nat (length d)) = unat len - length d"
    "unat (off + of_nat (length d)) = unat off + length d"
    using loop_step_words [OF d(2), of off 0] r by simp_all
  then show "read_stuck p b obj (len - of_nat (length d)) (off + of_nat (length d)) (adv os)"
    using op nf r d by (simp add: read_stuck_def)
qed

lemma obj_read_past_eof:
  assumes "obj_open os obj p b" and "no_faults os" and "unat off \<le> length b"
    and "length b < unat off + unat len" and "unat off + unat len < 9223372036854775808"
  shows "simpleOSD_obj_read obj mem buf len off os = None"
proof (rule ccontr)
  assume "simpleOSD_obj_read obj mem buf len off os \<noteq> None"
  then obtain res where ret: "obj_read_loop obj mem buf 0 len off os = Some res"
    by (auto simp: simpleOSD_obj_read_def)
  have "\<not> read_stuck p b obj len off os"
  proof (rule obj_read_loop.raw_induct
      [where P = "\<lambda>obj mem buf rd len off os res. \<not> read_stuck p b obj len off os", OF _ ret])
    fix loop obj mem buf rd len off os res
    assume IH: "\<And>obj mem buf rd len off os res.
        loop obj mem buf rd len off os = Some res \<Longrightarrow> \<not> read_stuck p b obj len off os"
      and eq: "(if len = 0 then Some (OBJ_SUCCESS, obj, mem, os)
        else case sys_pread (oa_file_fd obj) len off os of
          (None, os1) \<Rightarrow> (case osd_reset_cache_object obj os1 of
             (_, p_object', os2) \<Rightarrow> Some (OBJ_ERROR, p_object', mem, os2))
        | (Some d, os1) \<Rightarrow> loop obj (splice_at mem (buf + unat rd) d) buf
            (rd + of_nat (length d)) (len - of_nat (length d)) (off + of_nat (length d)) os1)
        = Some res"
    show "\<not> read_stuck p b obj len off os"
    proof
      assume st: "read_stuck p b obj len off os"
      with eq read_stuck_step [OF st] IH show False by simp
    qed
  qed
  with assms show False by (simp add: read_stuck_def)
qed

text \<open>
  A read that reaches past the end of the object's file never returns: \<open>pread64\<close> answers 0 at
  the end of the file and the loop, which only stops on -1 or when everything has been read, calls
  it again for ever.
\<close>

theorem simpleOSD_obj_read_past_eof_hangs:
  assumes "obj_open os obj p b" and "no_faults os" and "unat off \<le> length b"
    and "length b < unat off + unat len" and "unat off + unat len < 9223372036854775808"
  shows "simpleOSD_obj_read obj mem buf len off os = None"
  using obj_read_past_eof [OF assms] .

theorem simpleOSD_obj_read_past_eof_hangs_witness:
  "simpleOSD_obj_read ex_obj [9, 9] 0 2 0 (ex_open_os [] []) = None"
  by (rule simpleOSD_obj_read_past_eof_hangs [of _ _ "''/f''" "[]"])
     (simp_all add: ex_obj_open, simp add: ex_open_os_def no_faults_def)

end
