(* ===== verification/Osd_Op.thy ===== *)
theory Osd_Op
  imports Fetch Obj_Op
begin

text \<open>
  The object storage layer, src/simpleOSD_osd_op.c: a byte range of a volume is cut into pieces at
  the object boundaries, and for each piece the object is opened (created first if need be),
  transferred and released. The build modelled is the one of the headers: \<open>RECACHE_FD_ENABLED\<close> is
  \<open>FALSE\<close>, so each piece uses a local \<open>object_attr_t\<close> (the other build is \<open>Osd_Cached\<close>). \<open>INTIAL_OBJECT_CACHE\<close>, which the Makefile
  leaves undefined, is the argument \<open>initial_cache\<close> of \<open>osd_init_collection\<close>.
\<close>

section \<open>Opening an object\<close>

text \<open>The fetch that \<open>osd_recache_object\<close> and \<open>osd_init_collection\<close> make for a missing file.\<close>

definition recache_fetch ::
    "blk_frontend_parameters \<Rightarrow> osd_collection \<Rightarrow> object_attr \<Rightarrow> i32 \<Rightarrow> os
       \<Rightarrow> (OSD_RETURN \<times> os) option" where
  "recache_fetch g col obj index os =
     (case get_dpnode_ip_from_index (Some (oc_dp_data col)) index (Some zero_ip) of
        (MDS_HELPER_SUCCESS, Some ip) \<Rightarrow>
          Option.bind
            (simpleOSD_get_object_to_dc g
               (Some \<lparr>fa_volume_name = take MAXNAMESIZE (oc_name col), fa_oid = oa_oid obj,
                      fa_oid_str = None, fa_object_index = scast index,
                      fa_object_size = oa_size obj, fa_dp_ip = ip\<rparr>) os)
            (\<lambda>(r, os1). Some (if r = BLK_OBJ_FETCH_SUCCESS then OSD_SUCCESS else OSD_ERROR, os1))
      | _ \<Rightarrow> Some (OSD_ERROR, os))"

definition osd_recache_object ::
    "blk_frontend_parameters \<Rightarrow> osd_collection \<Rightarrow> object_attr \<Rightarrow> i32 \<Rightarrow> os
       \<Rightarrow> (OSD_RETURN \<times> object_attr \<times> os) option" where
  "osd_recache_object g col p_object new_obj_index os =
     (let (rc, os1) = (if oa_file_fd p_object > RESERVED_FDS
                       then sys_close (oa_file_fd p_object) os else (0, os)) in
      if rc \<noteq> 0 then Some (OSD_ERROR, p_object, os1)
      else case osd_get_index_to_object (Some col) new_obj_index (Some zero_object_attr) of
        (OSD_SUCCESS, Some obj1) \<Rightarrow>
          (case osd_object_to_dc_path g (Some (oc_name col)) (Some (oa_oid obj1)) (Some []) of
             (OSD_SUCCESS, Some object_path) \<Rightarrow>
               if oc_object_size col = 0 then Some (OSD_ERROR, obj1, os1)
               else
                 let obj2 = obj1\<lparr>oa_size := oc_object_size col, oa_object_to_path_fn := True,
                                 oa_ts := os_time os1, oa_object_index := new_obj_index\<rparr>;
                     (st, os2) = sys_stat object_path os1
                 in Option.bind
                      (if st \<noteq> 0 then recache_fetch g col obj2 new_obj_index os2
                       else Some (OSD_SUCCESS, os2))
                      (\<lambda>(r, os3).
                         if r \<noteq> OSD_SUCCESS then Some (OSD_ERROR, obj2, os3)
                         else case sys_open object_path (oc_io_flag col) os3 of
                           (fd, os4) \<Rightarrow>
                             Some (if fd < 0 then OSD_ERROR else OSD_SUCCESS,
                                   obj2\<lparr>oa_file_fd := fd\<rparr>, os4))
           | _ \<Rightarrow> Some (OSD_ERROR, obj1, os1))
      | _ \<Rightarrow> Some (OSD_ERROR, zero_object_attr, os1))"

section \<open>Addresses\<close>

text \<open>The outputs keep their old values when the offset is out of range or objects have no fixed
  size.\<close>

definition osd_offset_to_object ::
    "osd_collection \<Rightarrow> u64 \<Rightarrow> i32 \<Rightarrow> u64 \<Rightarrow> OSD_RETURN \<times> i32 \<times> u64" where
  "osd_offset_to_object col offset p_object_index p_local_offset =
     (let nb_objects = oc_nb_objects col; obj_size = oc_object_size col in
      if obj_size \<noteq> 0 then
        if offset \<ge> nb_objects * obj_size then (OSD_ERROR, p_object_index, p_local_offset)
        else let index = (ucast (offset div obj_size) :: i32)
             in (OSD_SUCCESS, index, offset - obj_size * scast index)
      else (OSD_SUCCESS, p_object_index, p_local_offset))"

section \<open>Reading and writing a range\<close>

definition piece_len :: "u64 \<Rightarrow> u64 \<Rightarrow> u64 \<Rightarrow> u64 \<Rightarrow> u64" where
  "piece_len obj_size buf_len moved osd_offset =
     (if buf_len - moved \<ge> obj_size - osd_offset then obj_size - osd_offset
      else buf_len - moved)"

partial_function (option) osd_read_loop ::
    "obj_op_func \<Rightarrow> blk_frontend_parameters \<Rightarrow> osd_collection \<Rightarrow> bytes \<Rightarrow> u64 \<Rightarrow> u64 \<Rightarrow> i32 \<Rightarrow> u64
       \<Rightarrow> os \<Rightarrow> (OSD_RETURN \<times> bytes \<times> os) option" where
  "osd_read_loop ops g col mem buf_len buf_read traverse_index osd_offset os =
     (if buf_read = buf_len then Some (OSD_SUCCESS, mem, os)
      else Option.bind (osd_recache_object g col zero_object_attr traverse_index os)
        (\<lambda>(r, obj, os1).
           if r \<noteq> OSD_SUCCESS then Some (OSD_ERROR, mem, os1)
           else Option.bind
             (obj_pfn_offset_read ops obj mem (unat buf_read)
                (piece_len (oc_object_size col) buf_len buf_read osd_offset) osd_offset os1)
             (\<lambda>(r2, obj2, mem2, os2).
                case osd_reset_cache_object obj2 os2 of (r3, _, os3) \<Rightarrow>
                  if r2 \<noteq> OBJ_SUCCESS \<or> r3 \<noteq> OSD_SUCCESS then Some (OSD_ERROR, mem2, os3)
                  else osd_read_loop ops g col mem2 buf_len
                         (buf_read + piece_len (oc_object_size col) buf_len buf_read osd_offset)
                         (traverse_index + 1) 0 os3)))"

definition osd_op_read ::
    "obj_op_func \<Rightarrow> blk_frontend_parameters \<Rightarrow> osd_collection \<Rightarrow> bytes \<Rightarrow> u64 \<Rightarrow> u64 \<Rightarrow> os
       \<Rightarrow> (OSD_RETURN \<times> bytes \<times> os) option" where
  "osd_op_read ops g col buf buf_len offset os =
     (case osd_offset_to_object col offset 0 0 of
        (OSD_ERROR, _, _) \<Rightarrow> Some (OSD_ERROR, buf, os)
      | (OSD_SUCCESS, start_object_index, start_local_offset) \<Rightarrow>
          if oc_object_size col \<noteq> 0 then
            if start_local_offset + buf_len > oc_object_size col
               \<and> fst (osd_offset_to_object col (offset + buf_len) 0 0) \<noteq> OSD_SUCCESS
            then Some (OSD_ERROR, buf, os)
            else osd_read_loop ops g col buf buf_len 0 start_object_index start_local_offset os
          else Some (OSD_SUCCESS, buf, os))"

partial_function (option) osd_write_loop ::
    "obj_op_func \<Rightarrow> blk_frontend_parameters \<Rightarrow> osd_collection \<Rightarrow> bytes \<Rightarrow> u64 \<Rightarrow> u64 \<Rightarrow> i32 \<Rightarrow> u64
       \<Rightarrow> os \<Rightarrow> (OSD_RETURN \<times> os) option" where
  "osd_write_loop ops g col mem buf_len buf_written traverse_index osd_offset os =
     (if buf_written = buf_len then Some (OSD_SUCCESS, os)
      else Option.bind (osd_recache_object g col zero_object_attr traverse_index os)
        (\<lambda>(r, obj, os1).
           if r \<noteq> OSD_SUCCESS then Some (OSD_ERROR, os1)
           else Option.bind
             (obj_pfn_offset_write ops obj mem (unat buf_written)
                (piece_len (oc_object_size col) buf_len buf_written osd_offset) osd_offset os1)
             (\<lambda>(r2, obj2, os2).
                case osd_reset_cache_object obj2 os2 of (r3, _, os3) \<Rightarrow>
                  if r2 \<noteq> OBJ_SUCCESS \<or> r3 \<noteq> OSD_SUCCESS then Some (OSD_ERROR, os3)
                  else osd_write_loop ops g col mem buf_len
                         (buf_written + piece_len (oc_object_size col) buf_len buf_written osd_offset)
                         (traverse_index + 1) 0 os3)))"

definition osd_op_write ::
    "obj_op_func \<Rightarrow> blk_frontend_parameters \<Rightarrow> osd_collection \<Rightarrow> bytes \<Rightarrow> u64 \<Rightarrow> u64 \<Rightarrow> os
       \<Rightarrow> (OSD_RETURN \<times> os) option" where
  "osd_op_write ops g col buf buf_len offset os =
     (case osd_offset_to_object col offset 0 0 of
        (OSD_ERROR, _, _) \<Rightarrow> Some (OSD_ERROR, os)
      | (OSD_SUCCESS, start_object_index, start_local_offset) \<Rightarrow>
          if oc_object_size col \<noteq> 0 then
            if start_local_offset + buf_len > oc_object_size col
               \<and> fst (osd_offset_to_object col (offset + buf_len) 0 0) \<noteq> OSD_SUCCESS
            then Some (OSD_ERROR, os)
            else osd_write_loop ops g col buf buf_len 0 start_object_index start_local_offset os
          else Some (OSD_SUCCESS, os))"

section \<open>Collections\<close>

text \<open>\<open>n\<close> counts the cache entries left; a failing \<open>close\<close> ends the loop at once.\<close>

fun free_collection_loop :: "nat \<Rightarrow> nat \<Rightarrow> osd_collection \<Rightarrow> os \<Rightarrow> OSD_RETURN \<times> osd_collection \<times> os"
  where
  "free_collection_loop loop 0 col os = (OSD_SUCCESS, col, os)"
| "free_collection_loop loop (Suc n) col os =
     (let obj = oc_object_attr_cache col loop in
      if oa_file_fd obj > RESERVED_FDS then
        (case sys_close (oa_file_fd obj) os of
           (rc, os1) \<Rightarrow>
             if rc \<noteq> 0 then (OSD_ERROR, col, os1)
             else free_collection_loop (Suc loop) n
                    (col\<lparr>oc_object_attr_cache :=
                        (oc_object_attr_cache col)(loop := obj\<lparr>oa_file_fd := 0\<rparr>)\<rparr>) os1)
      else free_collection_loop (Suc loop) n col os)"

definition cached_entries :: "osd_collection \<Rightarrow> nat" where
  "cached_entries col = min (unat (oc_nb_objects col)) NBMAXOBJECTS"

definition osd_free_collection :: "osd_lun \<Rightarrow> os \<Rightarrow> OSD_RETURN \<times> osd_lun \<times> os" where
  "osd_free_collection p_lun os =
     (case free_collection_loop 0 (cached_entries (ol_collection p_lun)) (ol_collection p_lun) os of
        (r, col, os1) \<Rightarrow> (r, p_lun\<lparr>ol_collection := col\<rparr>, os1))"

definition cache_entry :: "osd_collection \<Rightarrow> nat \<Rightarrow> object_attr \<Rightarrow> osd_collection" where
  "cache_entry col loop obj =
     col\<lparr>oc_object_attr_cache := (oc_object_attr_cache col)(loop := obj)\<rparr>"

fun init_collection_loop ::
    "blk_frontend_parameters \<Rightarrow> nat \<Rightarrow> nat \<Rightarrow> osd_collection \<Rightarrow> os
       \<Rightarrow> (OSD_RETURN \<times> osd_collection \<times> os) option" where
  "init_collection_loop g loop 0 col os = Some (OSD_SUCCESS, col, os)"
| "init_collection_loop g loop (Suc n) col os =
     (let obj1 = (oc_object_attr_cache col loop)
                   \<lparr>oa_object_index := of_nat loop, oa_ts := os_time os\<rparr> in
      case osd_get_index_to_object (Some col) (of_nat loop) (Some obj1) of
        (OSD_SUCCESS, Some obj2) \<Rightarrow>
          let obj3 = obj2\<lparr>oa_size := oc_object_size col, oa_object_to_path_fn := True\<rparr> in
          (case osd_object_to_dc_path g (Some (oc_name col)) (Some (oa_oid obj3)) (Some []) of
             (OSD_SUCCESS, Some obj_path) \<Rightarrow>
               let (st, os1) = sys_stat obj_path os in
               Option.bind
                 (if st \<noteq> 0 then recache_fetch g col obj3 (of_nat loop) os1
                  else Some (OSD_SUCCESS, os1))
                 (\<lambda>(r, os2).
                    if r \<noteq> OSD_SUCCESS then Some (OSD_ERROR, cache_entry col loop obj3, os2)
                    else case sys_open obj_path (oc_io_flag col) os2 of
                      (fd, os3) \<Rightarrow>
                        if fd < 0
                        then Some (OSD_ERROR, cache_entry col loop (obj3\<lparr>oa_file_fd := -1\<rparr>), os3)
                        else init_collection_loop g (Suc loop) n
                               (cache_entry col loop (obj3\<lparr>oa_file_fd := fd\<rparr>)) os3)
           | _ \<Rightarrow> Some (OSD_ERROR, cache_entry col loop obj3, os))
      | _ \<Rightarrow> Some (OSD_ERROR, cache_entry col loop obj1, os))"

definition osd_init_collection ::
    "bool \<Rightarrow> blk_frontend_parameters \<Rightarrow> osd_lun option \<Rightarrow> os
       \<Rightarrow> (OSD_RETURN \<times> osd_lun option \<times> os) option" where
  "osd_init_collection initial_cache g p_lun os =
     (case p_lun of
        None \<Rightarrow> Some (OSD_ERROR, None, os)
      | Some lun \<Rightarrow>
          let col = (ol_collection lun)\<lparr>oc_io_flag := ol_io_flag lun\<rparr>;
              lun1 = lun\<lparr>ol_block_size := 4096, ol_collection := col\<rparr>
          in if oc_object_size col = 0 then Some (OSD_ERROR, Some lun1, os)
             else if \<not> initial_cache then Some (OSD_SUCCESS, Some lun1, os)
             else Option.bind (init_collection_loop g 0 (cached_entries col) col os)
                    (\<lambda>(r, col', os'). Some (r, Some (lun1\<lparr>ol_collection := col'\<rparr>), os')))"

section \<open>The table\<close>

record osd_helper_func =
  osd_pfn_offset_to_osd :: "osd_collection \<Rightarrow> u64 \<Rightarrow> i32 \<Rightarrow> u64 \<Rightarrow> OSD_RETURN \<times> i32 \<times> u64"
  osd_pfn_offset_read :: "blk_frontend_parameters \<Rightarrow> osd_collection \<Rightarrow> bytes \<Rightarrow> u64 \<Rightarrow> u64 \<Rightarrow> os
       \<Rightarrow> (OSD_RETURN \<times> bytes \<times> os) option"
  osd_pfn_offset_write :: "blk_frontend_parameters \<Rightarrow> osd_collection \<Rightarrow> bytes \<Rightarrow> u64 \<Rightarrow> u64 \<Rightarrow> os
       \<Rightarrow> (OSD_RETURN \<times> os) option"

definition osd_op_func :: osd_helper_func where
  "osd_op_func = \<lparr>osd_pfn_offset_to_osd = osd_offset_to_object,
     osd_pfn_offset_read = osd_op_read simpleOSD_obj_op,
     osd_pfn_offset_write = osd_op_write simpleOSD_obj_op\<rparr>"

end
