(* ===== verification/Range_Loop.thy ===== *)
theory Range_Loop
  imports Osd_Op
begin

text \<open>
  The abstract array of bytes a volume stands for, and the loops that cut a range of it into one
  piece per object. The loops are the locale \<open>range_loops\<close>: what an operation on one piece has to
  do so that a loop over pieces does the same for a whole range. Its state is left open, so that
  it serves the layer with and without the descriptor cache.
\<close>

section \<open>Sizes and addresses\<close>

abbreviation osz :: "osd_collection \<Rightarrow> nat" where
  "osz col \<equiv> unat (oc_object_size col)"

abbreviation onb :: "osd_collection \<Rightarrow> nat" where
  "onb col \<equiv> unat (oc_nb_objects col)"

definition capacity :: "osd_collection \<Rightarrow> nat" where
  "capacity col = onb col * osz col"

text \<open>The address of byte \<open>k\<close> of object \<open>i\<close>.\<close>

lemma object_address:
  assumes "k < osz col" and "i < onb col"
  shows "i * osz col + k < capacity col" "(i * osz col + k) div osz col = i"
    "(i * osz col + k) mod osz col = k"
proof -
  have "Suc i * osz col \<le> capacity col"
    using assms(2) unfolding capacity_def by (intro mult_le_mono1) simp
  with assms(1) show "i * osz col + k < capacity col" by simp
  show "(i * osz col + k) div osz col = i" "(i * osz col + k) mod osz col = k"
    using assms(1) by simp_all
qed

lemma address_object:
  assumes "x < capacity col"
  shows "x div osz col < onb col" "x mod osz col < osz col"
    "x = x div osz col * osz col + x mod osz col"
proof -
  have pos: "0 < osz col" using assms by (cases "osz col") (auto simp: capacity_def)
  show "x div osz col < onb col"
    using assms by (simp add: capacity_def less_mult_imp_div_less)
  show "x mod osz col < osz col" using pos by simp
  show "x = x div osz col * osz col + x mod osz col" by simp
qed

lemma unat_piece_len:
  assumes "unat rd \<le> unat len" and "unat off \<le> unat sz"
  shows "unat (piece_len sz len rd off) = min (unat len - unat rd) (unat sz - unat off)"
  using assms by (simp add: piece_len_def word_le_nat_alt unat_diff_le min_def)

text \<open>
  The arithmetic of one round of the loops: \<open>n\<close> bytes are moved from object \<open>i\<close> at \<open>off\<close>, \<open>rest\<close>
  bytes of the request remain before the round.
\<close>

lemma piece_round:
  assumes "i * osz col + off + rest \<le> capacity col" and "off < osz col" and "0 < rest"
  defines "n \<equiv> min rest (osz col - off)"
  shows "i < onb col" "0 < n" "n \<le> rest" "off + n \<le> osz col"
    "Suc i * osz col + 0 + (rest - n) \<le> capacity col"
    "n < rest \<Longrightarrow> Suc i * osz col = i * osz col + off + n"
proof -
  have "i * osz col + off < capacity col" using assms(1,3) by simp
  from address_object(1) [OF this] assms(2) show i: "i < onb col" by simp
  have "Suc i * osz col \<le> capacity col"
    using i unfolding capacity_def by (intro mult_le_mono1) simp
  then show "Suc i * osz col + 0 + (rest - n) \<le> capacity col"
    using assms by (auto simp: min_def)
qed (use assms in \<open>auto simp: min_def\<close>)

lemma loop_round:
  fixes off rd len :: u64
  assumes "i * osz col + unat off + (unat len - unat rd) \<le> capacity col"
    and "unat off < osz col" and "unat rd \<le> unat len" and "rd \<noteq> len"
  defines "n \<equiv> piece_len (oc_object_size col) len rd off"
  shows "i < onb col" "0 < unat n" "unat n \<le> unat len - unat rd" "unat off + unat n \<le> osz col"
    "unat (rd + n) = unat rd + unat n"
    "Suc i * osz col + 0 + (unat len - unat rd - unat n) \<le> capacity col"
    "unat n < unat len - unat rd \<Longrightarrow> Suc i * osz col = i * osz col + unat off + unat n"
proof -
  have pos: "0 < unat len - unat rd" using assms(3,4) by (simp add: word_unat_eq_iff)
  have n: "unat n = min (unat len - unat rd) (osz col - unat off)"
    using assms(2,3) by (simp add: n_def unat_piece_len)
  note round = piece_round [OF assms(1,2) pos, folded n]
  show "i < onb col" "0 < unat n" "unat n \<le> unat len - unat rd" "unat off + unat n \<le> osz col"
    "Suc i * osz col + 0 + (unat len - unat rd - unat n) \<le> capacity col"
    "unat n < unat len - unat rd \<Longrightarrow> Suc i * osz col = i * osz col + unat off + unat n"
    by (fact round)+
  show "unat (rd + n) = unat rd + unat n"
    using round(3) assms(3) unat_lt64 [of len] by (subst unat_add_no_wrap) simp_all
qed

section \<open>Ranges\<close>

text \<open>
  The requests the range check lets through: inside one object, or ending strictly before the end
  of the volume.
\<close>

definition range_ok :: "osd_collection \<Rightarrow> nat \<Rightarrow> nat \<Rightarrow> bool" where
  "range_ok col off len \<longleftrightarrow> off < capacity col
     \<and> (off mod osz col + len \<le> osz col \<or> off + len < capacity col)"

lemma range_ok_inside:
  assumes "range_ok col off len"
  shows "off div osz col * osz col + off mod osz col + len \<le> capacity col"
    "off mod osz col < osz col" "off div osz col < onb col"
proof -
  from assms have off: "off < capacity col" by (simp add: range_ok_def)
  note ao = address_object [OF off]
  show "off mod osz col < osz col" "off div osz col < onb col" using ao by simp_all
  have "Suc (off div osz col) * osz col \<le> capacity col"
    using ao(1) unfolding capacity_def by (intro mult_le_mono1) simp
  then show "off div osz col * osz col + off mod osz col + len \<le> capacity col"
    using assms ao(3) unfolding range_ok_def mult_Suc by linarith
qed

lemma unat_local_offset:
  assumes "range_ok col (unat off) n"
  shows "unat (of_nat (unat off mod osz col) :: u64) = unat off mod osz col"
  using range_ok_inside(2) [OF assms] unat_lt64 [of "oc_object_size col"]
  by (intro unat_of_nat_small) simp

section \<open>The flat array\<close>

definition flat_read :: "(nat \<Rightarrow> u8) \<Rightarrow> nat \<Rightarrow> nat \<Rightarrow> bytes" where
  "flat_read f a n = map f [a..<a + n]"

definition flat_write :: "(nat \<Rightarrow> u8) \<Rightarrow> nat \<Rightarrow> bytes \<Rightarrow> nat \<Rightarrow> u8" where
  "flat_write f a bs x = (if a \<le> x \<and> x < a + length bs then bs ! (x - a) else f x)"

lemma length_flat_read [simp]: "length (flat_read f a n) = n"
  by (simp add: flat_read_def)

lemma flat_read_append: "flat_read f a m @ flat_read f (a + m) n = flat_read f a (m + n)"
  unfolding flat_read_def
  by (metis add.assoc le_add1 map_append upt_add_eq_append)

lemma flat_read_nth: "i < n \<Longrightarrow> flat_read f a n ! i = f (a + i)"
  by (simp add: flat_read_def)

lemma flat_write_Nil [simp]: "flat_write f a [] = f"
  by (auto simp: flat_write_def fun_eq_iff)

lemma flat_write_append:
  "flat_write (flat_write f a bs) (a + length bs) cs = flat_write f a (bs @ cs)"
  by (auto simp: flat_write_def fun_eq_iff nth_append intro: arg_cong [of _ _ "(!) cs"])

lemma flat_read_write: "flat_read (flat_write f a bs) a (length bs) = bs"
  by (auto simp: list_eq_iff_nth_eq flat_read_nth flat_write_def)

lemma flat_write_read: "flat_write f a (flat_read f a n) = f"
  by (auto simp: flat_write_def fun_eq_iff flat_read_nth)

section \<open>Transfers\<close>

text \<open>
  What a transfer of \<open>n\<close> bytes at volume address \<open>a\<close> may return: a prefix of them is moved, all of
  them on success, and a read leaves the volume as it was. \<open>F\<close> is the array a state stands for and
  \<open>R\<close> what a transfer may do besides. Transfers compose the way the loops compose their rounds.
\<close>

definition reads ::
    "('s \<Rightarrow> nat \<Rightarrow> u8) \<Rightarrow> ('s \<Rightarrow> OSD_RETURN \<Rightarrow> 's \<Rightarrow> bool) \<Rightarrow> 's \<Rightarrow> bytes \<Rightarrow> nat \<Rightarrow> nat \<Rightarrow> nat
       \<Rightarrow> (OSD_RETURN \<times> bytes \<times> 's) option \<Rightarrow> bool" where
  "reads F R s mem bp a n res \<longleftrightarrow>
     (\<exists>r k s'. res = Some (r, splice_at mem bp (flat_read (F s) a k), s')
      \<and> k \<le> n \<and> (r = OSD_SUCCESS \<longrightarrow> k = n) \<and> R s r s' \<and> F s' = F s)"

definition writes ::
    "('s \<Rightarrow> nat \<Rightarrow> u8) \<Rightarrow> ('s \<Rightarrow> OSD_RETURN \<Rightarrow> 's \<Rightarrow> bool) \<Rightarrow> 's \<Rightarrow> bytes \<Rightarrow> nat \<Rightarrow> nat \<Rightarrow> nat
       \<Rightarrow> (OSD_RETURN \<times> 's) option \<Rightarrow> bool" where
  "writes F R s mem bp a n res \<longleftrightarrow>
     (\<exists>r k s'. res = Some (r, s') \<and> k \<le> n \<and> (r = OSD_SUCCESS \<longrightarrow> k = n) \<and> R s r s'
      \<and> F s' = flat_write (F s) a (slice mem bp k))"

lemma reads_zero: "reads F R s mem bp a 0 res \<Longrightarrow> reads F R s mem bp b 0 res"
  by (auto simp: reads_def flat_read_def)

lemma writes_zero: "writes F R s mem bp a 0 res \<Longrightarrow> writes F R s mem bp b 0 res"
  by (auto simp: writes_def)

lemma reads_bind:
  assumes trans: "\<And>s1 r s2. R s OSD_SUCCESS s1 \<Longrightarrow> R s1 r s2 \<Longrightarrow> R s r s2"
    and first: "reads F R s mem bp a m res" and "m \<le> n" and "bp + n \<le> length mem"
    and rest: "\<And>mem1 s1. R s OSD_SUCCESS s1 \<Longrightarrow> length mem1 = length mem \<Longrightarrow>
        reads F R s1 mem1 (bp + m) (a + m) (n - m) (c mem1 s1)"
  shows "reads F R s mem bp a n
    (Option.bind res (\<lambda>(r, mem1, s1). if r \<noteq> OSD_SUCCESS then Some (OSD_ERROR, mem1, s1) else c mem1 s1))"
proof -
  obtain r k s1 where res: "res = Some (r, splice_at mem bp (flat_read (F s) a k), s1)"
    and k: "k \<le> m" "r = OSD_SUCCESS \<longrightarrow> k = m" and R1: "R s r s1" and fl: "F s1 = F s"
    using first by (auto simp: reads_def)
  show ?thesis
  proof (cases r)
    case OSD_ERROR
    then show ?thesis using res k R1 fl assms(3) by (auto simp: reads_def)
  next
    case OSD_SUCCESS
    let ?mem1 = "splice_at mem bp (flat_read (F s) a m)"
    have "length ?mem1 = length mem" using assms(3,4) by simp
    then obtain r2 k2 s2 where
      c: "c ?mem1 s1 = Some (r2, splice_at ?mem1 (bp + m) (flat_read (F s) (a + m) k2), s2)"
      and k2: "k2 \<le> n - m" "r2 = OSD_SUCCESS \<longrightarrow> k2 = n - m" and R2: "R s1 r2 s2" and fl2: "F s2 = F s"
      using rest [of s1 ?mem1] R1 OSD_SUCCESS fl by (auto simp: reads_def)
    have "splice_at ?mem1 (bp + m) (flat_read (F s) (a + m) k2) = splice_at mem bp (flat_read (F s) a (m + k2))"
      using splice_at_append [of bp "flat_read (F s) a m" "flat_read (F s) (a + m) k2" mem] k2(1) assms(3,4)
      by (simp add: flat_read_append)
    then show ?thesis
      using res OSD_SUCCESS k c k2 R1 R2 fl2 assms(3) unfolding reads_def
      by (intro exI [of _ r2] exI [of _ "m + k2"] exI [of _ s2]) (auto intro: trans)
  qed
qed

lemma writes_bind:
  assumes trans: "\<And>s1 r s2. R s OSD_SUCCESS s1 \<Longrightarrow> R s1 r s2 \<Longrightarrow> R s r s2"
    and first: "writes F R s mem bp a m res" and "m \<le> n" and "bp + n \<le> length mem"
    and rest: "\<And>s1. R s OSD_SUCCESS s1 \<Longrightarrow> writes F R s1 mem (bp + m) (a + m) (n - m) (c s1)"
  shows "writes F R s mem bp a n
    (Option.bind res (\<lambda>(r, s1). if r \<noteq> OSD_SUCCESS then Some (OSD_ERROR, s1) else c s1))"
proof -
  obtain r k s1 where res: "res = Some (r, s1)"
    and k: "k \<le> m" "r = OSD_SUCCESS \<longrightarrow> k = m" and R1: "R s r s1"
    and fl: "F s1 = flat_write (F s) a (slice mem bp k)"
    using first by (auto simp: writes_def)
  show ?thesis
  proof (cases r)
    case OSD_ERROR
    then show ?thesis using res k R1 fl assms(3) unfolding writes_def
      by (intro exI [of _ OSD_ERROR] exI [of _ k] exI [of _ s1]) simp
  next
    case OSD_SUCCESS
    then obtain r2 k2 s2 where c: "c s1 = Some (r2, s2)"
      and k2: "k2 \<le> n - m" "r2 = OSD_SUCCESS \<longrightarrow> k2 = n - m" and R2: "R s1 r2 s2"
      and fl2: "F s2 = flat_write (F s1) (a + m) (slice mem (bp + m) k2)"
      using rest [of s1] R1 by (auto simp: writes_def)
    have d: "length (slice mem bp m) = m" using assms(3,4) by simp
    have "F s2 = flat_write (F s) a (slice mem bp (m + k2))"
      using flat_write_append [of "F s" a "slice mem bp m" "slice mem (bp + m) k2"] fl fl2 k OSD_SUCCESS
      by (simp only: d slice_append simp_thms)
    then show ?thesis
      using res OSD_SUCCESS c k2 R1 R2 assms(3) unfolding writes_def
      by (intro exI [of _ r2] exI [of _ "m + k2"] exI [of _ s2]) (auto intro: trans)
  qed
qed

section \<open>The loops\<close>

text \<open>\<open>ok\<close> is the invariant of the loops; a loop is its piece, then the loop on the rest.\<close>

locale range_loops =
  fixes col :: osd_collection
    and F :: "'s \<Rightarrow> nat \<Rightarrow> u8" and R :: "'s \<Rightarrow> OSD_RETURN \<Rightarrow> 's \<Rightarrow> bool" and ok :: "'s \<Rightarrow> bool"
    and rpiece :: "bytes \<Rightarrow> nat \<Rightarrow> u64 \<Rightarrow> i32 \<Rightarrow> u64 \<Rightarrow> 's \<Rightarrow> (OSD_RETURN \<times> bytes \<times> 's) option"
    and rloop :: "bytes \<Rightarrow> u64 \<Rightarrow> u64 \<Rightarrow> i32 \<Rightarrow> u64 \<Rightarrow> 's \<Rightarrow> (OSD_RETURN \<times> bytes \<times> 's) option"
    and wpiece :: "bytes \<Rightarrow> nat \<Rightarrow> u64 \<Rightarrow> i32 \<Rightarrow> u64 \<Rightarrow> 's \<Rightarrow> (OSD_RETURN \<times> 's) option"
    and wloop :: "bytes \<Rightarrow> u64 \<Rightarrow> u64 \<Rightarrow> i32 \<Rightarrow> u64 \<Rightarrow> 's \<Rightarrow> (OSD_RETURN \<times> 's) option"
  assumes R_refl: "ok s \<Longrightarrow> R s OSD_SUCCESS s"
    and R_trans: "R s OSD_SUCCESS s1 \<Longrightarrow> R s1 r s2 \<Longrightarrow> R s r s2"
    and R_ok: "ok s \<Longrightarrow> R s OSD_SUCCESS s1 \<Longrightarrow> ok s1"
    and rpiece_reads: "ok s \<Longrightarrow> i < onb col \<Longrightarrow> unat off + unat n \<le> osz col \<Longrightarrow> bp + unat n \<le> length mem \<Longrightarrow>
      reads F R s mem bp (i * osz col + unat off) (unat n) (rpiece mem bp n (of_nat i) off s)"
    and wpiece_writes: "ok s \<Longrightarrow> i < onb col \<Longrightarrow> unat off + unat n \<le> osz col \<Longrightarrow> bp + unat n \<le> length mem \<Longrightarrow>
      writes F R s mem bp (i * osz col + unat off) (unat n) (wpiece mem bp n (of_nat i) off s)"
    and rloop_eq: "ok s \<Longrightarrow> rloop mem len rd idx off s =
      (if rd = len then Some (OSD_SUCCESS, mem, s)
       else let n = piece_len (oc_object_size col) len rd off in
         Option.bind (rpiece mem (unat rd) n idx off s)
           (\<lambda>(r, mem1, s1). if r \<noteq> OSD_SUCCESS then Some (OSD_ERROR, mem1, s1)
              else rloop mem1 len (rd + n) (idx + 1) 0 s1))"
    and wloop_eq: "ok s \<Longrightarrow> wloop mem len rd idx off s =
      (if rd = len then Some (OSD_SUCCESS, s)
       else let n = piece_len (oc_object_size col) len rd off in
         Option.bind (wpiece mem (unat rd) n idx off s)
           (\<lambda>(r, s1). if r \<noteq> OSD_SUCCESS then Some (OSD_ERROR, s1)
              else wloop mem len (rd + n) (idx + 1) 0 s1))"
begin

lemma rloop_reads:
  assumes "ok s" and "unat off < osz col" and "unat rd \<le> unat len" and "unat len \<le> length mem"
    and "i * osz col + unat off + (unat len - unat rd) \<le> capacity col"
  shows "reads F R s mem (unat rd) (i * osz col + unat off) (unat len - unat rd)
    (rloop mem len rd (of_nat i) off s)"
  using assms
proof (induction "unat len - unat rd" arbitrary: mem rd i off s rule: less_induct)
  case less
  note ok = less.prems(1)
  show ?case
  proof (cases "rd = len")
    case True
    then show ?thesis
      using R_refl [OF ok] by (auto simp: rloop_eq [OF ok] reads_def flat_read_def)
  next
    case False
    note round = loop_round [OF less.prems(5,2,3) False]
    define n where "n = piece_len (oc_object_size col) len rd off"
    have bp: "unat rd + (unat len - unat rd) \<le> length mem" using less.prems(3,4) by simp
    have piece: "reads F R s mem (unat rd) (i * osz col + unat off) (unat n)
        (rpiece mem (unat rd) n (of_nat i) off s)"
      unfolding n_def by (rule rpiece_reads [OF ok round(1,4)]) (use round(3) bp in simp)
    show ?thesis
      unfolding rloop_eq [OF ok, of mem len rd] if_not_P [OF False] n_def [symmetric] Let_def
    proof (rule reads_bind [OF R_trans piece round(3) [folded n_def] bp])
      fix mem1 :: bytes and s1
      assume st: "R s OSD_SUCCESS s1" and mem1: "length mem1 = length mem"
      have "reads F R s1 mem1 (unat (rd + n)) (Suc i * osz col + unat (0 :: u64))
          (unat len - unat (rd + n)) (rloop mem1 len (rd + n) (of_nat (Suc i)) 0 s1)"
        by (rule less.hyps)
           (use R_ok [OF ok st] mem1 round [folded n_def] less.prems(2-4) in simp_all)
      then show "reads F R s1 mem1 (unat rd + unat n) (i * osz col + unat off + unat n)
          (unat len - unat rd - unat n) (rloop mem1 len (rd + n) (of_nat i + 1) 0 s1)"
        using round(5,7) [folded n_def]
        by (cases "unat n < unat len - unat rd") (auto simp: ac_simps intro: reads_zero)
    qed
  qed
qed

lemma wloop_writes:
  assumes "ok s" and "unat off < osz col" and "unat rd \<le> unat len" and "unat len \<le> length mem"
    and "i * osz col + unat off + (unat len - unat rd) \<le> capacity col"
  shows "writes F R s mem (unat rd) (i * osz col + unat off) (unat len - unat rd)
    (wloop mem len rd (of_nat i) off s)"
  using assms
proof (induction "unat len - unat rd" arbitrary: rd i off s rule: less_induct)
  case less
  note ok = less.prems(1)
  show ?case
  proof (cases "rd = len")
    case True
    then show ?thesis
      using R_refl [OF ok] by (auto simp: wloop_eq [OF ok] writes_def)
  next
    case False
    note round = loop_round [OF less.prems(5,2,3) False]
    define n where "n = piece_len (oc_object_size col) len rd off"
    have bp: "unat rd + (unat len - unat rd) \<le> length mem" using less.prems(3,4) by simp
    have piece: "writes F R s mem (unat rd) (i * osz col + unat off) (unat n)
        (wpiece mem (unat rd) n (of_nat i) off s)"
      unfolding n_def by (rule wpiece_writes [OF ok round(1,4)]) (use round(3) bp in simp)
    show ?thesis
      unfolding wloop_eq [OF ok, of mem len rd] if_not_P [OF False] n_def [symmetric] Let_def
    proof (rule writes_bind [OF R_trans piece round(3) [folded n_def] bp])
      fix s1
      assume st: "R s OSD_SUCCESS s1"
      have "writes F R s1 mem (unat (rd + n)) (Suc i * osz col + unat (0 :: u64))
          (unat len - unat (rd + n)) (wloop mem len (rd + n) (of_nat (Suc i)) 0 s1)"
        by (rule less.hyps)
           (use R_ok [OF ok st] round [folded n_def] less.prems(2-4) in simp_all)
      then show "writes F R s1 mem (unat rd + unat n) (i * osz col + unat off + unat n)
          (unat len - unat rd - unat n) (wloop mem len (rd + n) (of_nat i + 1) 0 s1)"
        using round(5,7) [folded n_def]
        by (cases "unat n < unat len - unat rd") (auto simp: ac_simps intro: writes_zero)
    qed
  qed
qed

text \<open>A whole range, from the object and the place its first byte is at.\<close>

lemma range_reads:
  assumes "ok s" and "range_ok col (unat off) (unat len)" and "unat len \<le> length mem"
  shows "reads F R s mem 0 (unat off) (unat len)
    (rloop mem len 0 (of_nat (unat off div osz col)) (of_nat (unat off mod osz col)) s)"
  using rloop_reads [OF assms(1), of "of_nat (unat off mod osz col)" 0 len mem "unat off div osz col"]
    assms(3) range_ok_inside [OF assms(2)] unat_local_offset [OF assms(2)] by simp

lemma range_writes:
  assumes "ok s" and "range_ok col (unat off) (unat len)" and "unat len \<le> length mem"
  shows "writes F R s mem 0 (unat off) (unat len)
    (wloop mem len 0 (of_nat (unat off div osz col)) (of_nat (unat off mod osz col)) s)"
  using wloop_writes [OF assms(1), of "of_nat (unat off mod osz col)" 0 len mem "unat off div osz col"]
    assms(3) range_ok_inside [OF assms(2)] unat_local_offset [OF assms(2)] by simp

end

end
