(* ===== verification/Osd_Flat.thy ===== *)
theory Osd_Flat
  imports Range_Loop
begin

text \<open>
  The abstract specification of a volume and the proof that the object layer implements it. A
  volume is one flat array of bytes, \<open>flat\<close>: byte \<open>a\<close> is byte \<open>a mod object_size\<close> of the file of
  object \<open>a div object_size\<close>, and zero while that object does not exist. \<open>osd_op_read\<close> reads a
  range of the array and \<open>osd_op_write\<close> replaces a range of it.
\<close>

section \<open>Volumes\<close>

text \<open>
  The geometry the layer is correct for: object indexes fit a C \<open>int\<close>, the capacity fits
  \<open>uint64_t\<close>, an object fits \<open>off_t\<close>, names are not cut, and the volume is opened for plain reading
  and writing.
\<close>

definition geometry_ok :: "blk_frontend_parameters \<Rightarrow> osd_collection \<Rightarrow> bool" where
  "geometry_ok g col \<longleftrightarrow> length (oc_start_object col) = MAXOIDLEN \<and> path_fits g (oc_name col)
     \<and> length (oc_name col) < MAXNAMESIZE \<and> plain_flags (oc_io_flag col)
     \<and> 0 < osz col \<and> osz col < 9223372036854775808 \<and> onb col \<le> 2147483648
     \<and> capacity col < 18446744073709551616"

definition obj_file :: "blk_frontend_parameters \<Rightarrow> osd_collection \<Rightarrow> nat \<Rightarrow> string" where
  "obj_file g col i = dc_data_path g (oc_name col) (oid_of_index (oc_start_object col) (of_nat i))"

text \<open>Every object file that exists has room for a whole object.\<close>

definition objects_ok :: "blk_frontend_parameters \<Rightarrow> osd_collection \<Rightarrow> os \<Rightarrow> bool" where
  "objects_ok g col os \<longleftrightarrow> (\<forall>i < onb col. \<forall>b. os_files os (obj_file g col i) = Some b \<longrightarrow>
     osz col \<le> length b \<and> length b < 9223372036854775808)"

definition locks_free :: "os \<Rightarrow> bool" where
  "locks_free os \<longleftrightarrow> (\<forall>k. \<not> os_mutex os k)"

text \<open>The state a volume is used in: files that exist are whole, and no fetch lock is held.\<close>

definition volume_ready :: "blk_frontend_parameters \<Rightarrow> osd_collection \<Rightarrow> os \<Rightarrow> bool" where
  "volume_ready g col os \<longleftrightarrow> geometry_ok g col \<and> objects_ok g col os \<and> locks_free os"

definition flat :: "blk_frontend_parameters \<Rightarrow> osd_collection \<Rightarrow> os \<Rightarrow> nat \<Rightarrow> u8" where
  "flat g col os a =
     (if a < capacity col
      then file_byte (os_files os) (obj_file g col (a div osz col)) (a mod osz col) else 0)"

section \<open>Opening an object\<close>

text \<open>Nothing a volume can see: bytes, other files and open descriptors stay.\<close>

definition quiet :: "string \<Rightarrow> os \<Rightarrow> os \<Rightarrow> bool" where
  "quiet path os os' \<longleftrightarrow> os_frame os os' \<and> os_mutex os' = os_mutex os
     \<and> file_byte (os_files os') = file_byte (os_files os)
     \<and> (\<forall>p. p \<noteq> path \<longrightarrow> os_files os' p = os_files os p) \<and> os_fds os \<subseteq>\<^sub>m os_fds os'"

lemma quiet_refl [simp]: "quiet path os os"
  by (simp add: quiet_def)

lemma quiet_adv [simp]: "quiet path os (adv os)"
  by (simp add: quiet_def)

lemma quiet_trans: "quiet path a b \<Longrightarrow> quiet path b c \<Longrightarrow> quiet path a c"
  by (auto simp: quiet_def intro: os_frame_trans map_le_trans)

lemma quiet_new_fd:
  "free_fd os = Some fd \<Longrightarrow> quiet path os os1 \<Longrightarrow> os_fds os1 = os_fds os \<Longrightarrow>
   quiet path os (os1\<lparr>os_fds := (os_fds os)(fd \<mapsto> f)\<rparr>)"
  by (auto simp: quiet_def map_le_def dest: free_fd_Some)

text \<open>What a successful open step promises about the size of the file.\<close>

definition sized :: "string \<Rightarrow> nat \<Rightarrow> os \<Rightarrow> os \<Rightarrow> bool" where
  "sized path n os os' \<longleftrightarrow> (case os_files os path of
       None \<Rightarrow> os_files os' path = Some (zeros n)
     | Some b \<Rightarrow> n \<le> length b \<longrightarrow> os_files os' path = Some b)"

lemma geometry_volume_name:
  "geometry_ok g col \<Longrightarrow> take MAXNAMESIZE (oc_name col) = oc_name col"
  by (simp add: geometry_ok_def)

lemma locks_free_adv [simp]: "locks_free (adv os) = locks_free os"
  by (simp add: locks_free_def)

lemma fetch_body_quiet:
  assumes "fetch_body path sz os = (r, os')"
  shows "quiet path os os'"
  using assms
proof (cases rule: fetch_body_cases)
  case (opened k fd)
  then show ?thesis
    using fetch_body_bytes [OF assms] free_fd_Some [OF opened(2)]
    by (auto simp: quiet_def map_le_def file_simps)
qed (simp add: quiet_def)

lemma fetch_body_sized:
  assumes "fetch_body path sz os = (BLK_OBJ_FETCH_SUCCESS, os')"
  shows "sized path (unat sz) os os'"
  using assms
  by (cases rule: fetch_body_cases)
     (auto simp: sized_def padded_def zeros_def split: option.splits)

lemma recache_fetch_effect:
  assumes geo: "geometry_ok g col" and "locks_free os" and "length (oa_oid obj) = MAXOIDLEN"
  defines "path \<equiv> dc_data_path g (oc_name col) (oa_oid obj)"
  shows "\<exists>r os'. recache_fetch g col obj idx os = Some (r, os') \<and> quiet path os os'
     \<and> (r = OSD_SUCCESS \<longrightarrow> sized path (unat (oa_size obj)) os os')"
proof (cases "get_dpnode_ip_from_index (Some (oc_dp_data col)) idx (Some zero_ip)")
  case (Pair m oip)
  show ?thesis
  proof (cases "m = MDS_HELPER_SUCCESS \<and> oip \<noteq> None")
    case False
    then show ?thesis
      using Pair by (cases m; cases oip) (simp_all add: recache_fetch_def)
  next
    case True
    then obtain ip where ip: "oip = Some ip" and m: "m = MDS_HELPER_SUCCESS" by auto
    define arg where "arg = \<lparr>fa_volume_name = oc_name col, fa_oid = oa_oid obj,
        fa_oid_str = None, fa_object_index = scast idx, fa_object_size = oa_size obj,
        fa_dp_ip = ip\<rparr>"
    have ready: "fetch_ready g arg os"
      using assms by (simp add: fetch_ready_def arg_def geometry_ok_def locks_free_def)
    obtain r os1 where
      body: "fetch_body (fetch_path g arg) (fa_object_size arg)
         (os\<lparr>os_mutex := (os_mutex os)(fetch_lock (fa_object_index arg) := True)\<rparr>) = (r, os1)"
      and run: "simpleOSD_get_object_to_dc g (Some arg) os
         = Some (r, os1\<lparr>os_mutex := (os_mutex os1)(fetch_lock (fa_object_index arg) := False)\<rparr>)"
      by (rule get_object_to_dc_ready [OF ready])
    have path: "fetch_path g arg = path" "fa_object_size arg = oa_size obj"
      by (simp_all add: fetch_path_def arg_def path_def)
    define os2 where
      "os2 = os1\<lparr>os_mutex := (os_mutex os1)(fetch_lock (fa_object_index arg) := False)\<rparr>"
    have "recache_fetch g col obj idx os
        = Some (if r = BLK_OBJ_FETCH_SUCCESS then OSD_SUCCESS else OSD_ERROR, os2)"
      using run Pair m ip geometry_volume_name [OF geo]
      by (simp add: recache_fetch_def arg_def os2_def)
    moreover have "quiet path os os2"
      using fetch_body_quiet [OF body] assms(2)
      by (auto simp: quiet_def path os2_def locks_free_def fun_eq_iff)
    moreover have "r = BLK_OBJ_FETCH_SUCCESS \<longrightarrow> sized path (unat (oa_size obj)) os os2"
    proof
      assume "r = BLK_OBJ_FETCH_SUCCESS"
      then have "sized path (unat (oa_size obj))
          (os\<lparr>os_mutex := (os_mutex os)(fetch_lock (fa_object_index arg) := True)\<rparr>) os1"
        using fetch_body_sized body by (simp add: path)
      then show "sized path (unat (oa_size obj)) os os2"
        by (simp add: sized_def os2_def split: option.splits)
    qed
    ultimately show ?thesis by auto
  qed
qed

lemma oid_of_index_eq:
  "length (oc_start_object col) = MAXOIDLEN \<Longrightarrow>
   osd_get_index_to_object (Some col) i (Some a)
     = (OSD_SUCCESS, Some (a\<lparr>oa_oid := oid_of_index (oc_start_object col) i\<rparr>))"
  by (simp add: osd_get_index_to_object_def oid_of_index_def Let_def)

text \<open>
  The second half of \<open>osd_recache_object\<close>, and of each round of \<open>osd_init_collection\<close>: the
  object's file is there or is fetched, then it is opened. \<open>attr_of\<close> says that the attributes are
  those of object \<open>i\<close>.
\<close>

definition materialise ::
    "blk_frontend_parameters \<Rightarrow> osd_collection \<Rightarrow> object_attr \<Rightarrow> nat \<Rightarrow> os \<Rightarrow> (OSD_RETURN \<times> os) option" where
  "materialise g col obj i os =
     (if fst (sys_stat (obj_file g col i) os) \<noteq> 0 then recache_fetch g col obj (of_nat i) (adv os)
      else Some (OSD_SUCCESS, adv os))"

definition open_object ::
    "blk_frontend_parameters \<Rightarrow> osd_collection \<Rightarrow> object_attr \<Rightarrow> nat \<Rightarrow> os
       \<Rightarrow> (OSD_RETURN \<times> object_attr \<times> os) option" where
  "open_object g col obj i os =
     Option.bind (materialise g col obj i os)
       (\<lambda>(r, os3). if r \<noteq> OSD_SUCCESS then Some (OSD_ERROR, obj, os3)
          else case sys_open (obj_file g col i) (oc_io_flag col) os3 of (fd, os4) \<Rightarrow>
            Some (if fd < 0 then OSD_ERROR else OSD_SUCCESS, obj\<lparr>oa_file_fd := fd\<rparr>, os4))"

definition attr_of :: "osd_collection \<Rightarrow> nat \<Rightarrow> object_attr \<Rightarrow> bool" where
  "attr_of col i obj \<longleftrightarrow> oa_oid obj = oid_of_index (oc_start_object col) (of_nat i)
     \<and> oa_size obj = oc_object_size col \<and> oa_object_index obj = of_nat i"

definition opened_attr :: "osd_collection \<Rightarrow> nat \<Rightarrow> os \<Rightarrow> object_attr" where
  "opened_attr col i os = zero_object_attr
     \<lparr>oa_oid := oid_of_index (oc_start_object col) (of_nat i), oa_size := oc_object_size col,
      oa_object_to_path_fn := True, oa_ts := os_time os, oa_object_index := of_nat i\<rparr>"

lemma opened_attr_of [simp]: "attr_of col i (opened_attr col i os)"
  by (simp add: attr_of_def opened_attr_def)

lemma recache_object_eq:
  assumes "geometry_ok g col"
  shows "osd_recache_object g col zero_object_attr (of_nat i) os = open_object g col (opened_attr col i os) i os"
proof -
  have fd0: "oa_file_fd zero_object_attr = 0" by (simp add: zero_object_attr_def)
  show ?thesis
    using assms unfolding opened_attr_def obj_file_def open_object_def materialise_def
    by (simp add: osd_recache_object_def fd0 RESERVED_FDS_def oid_of_index_eq geometry_ok_def
        osd_object_to_dc_path_fits unat_gt_0 sys_stat_eq Let_def)
qed

lemma materialise_effect:
  assumes geo: "geometry_ok g col" and lf: "locks_free os" and obj: "attr_of col i obj"
  shows "\<exists>r os3. materialise g col obj i os = Some (r, os3) \<and> quiet (obj_file g col i) os os3
      \<and> (r = OSD_SUCCESS \<longrightarrow> sized (obj_file g col i) (osz col) os os3)"
proof (cases "fst (sys_stat (obj_file g col i) os) = 0")
  case True
  then have "os_files os (obj_file g col i) \<noteq> None" by (auto simp: sys_stat_eq split: if_splits)
  with True show ?thesis by (auto simp: materialise_def sized_def)
next
  case False
  have "length (oa_oid obj) = MAXOIDLEN" "dc_data_path g (oc_name col) (oa_oid obj) = obj_file g col i"
    "oa_size obj = oc_object_size col"
    using geo obj by (simp_all add: attr_of_def geometry_ok_def obj_file_def)
  moreover have "sized path n (adv os) os3 = sized path n os os3" for path n os3
    by (simp add: sized_def)
  ultimately show ?thesis
    using False recache_fetch_effect [OF geo, of "adv os" obj "of_nat i"] lf
      quiet_trans [OF quiet_adv]
    by (auto simp: materialise_def)
qed

text \<open>
  Opening object \<open>i\<close> always returns, nothing a volume can see changes, and on success a new
  descriptor is open on the object's file, which has the right size.
\<close>

lemma open_object_effect:
  assumes geo: "geometry_ok g col" and lf: "locks_free os" and obj: "attr_of col i obj"
  shows "\<exists>r obj' os'. open_object g col obj i os = Some (r, obj', os')
     \<and> quiet (obj_file g col i) os os'
     \<and> (r = OSD_SUCCESS \<longrightarrow> sized (obj_file g col i) (osz col) os os'
         \<and> (\<exists>fd. obj' = obj\<lparr>oa_file_fd := int fd\<rparr> \<and> os_fds os fd = None
              \<and> os_fds os' fd = Some \<lparr>of_path = obj_file g col i, of_flags = oc_io_flag col\<rparr>))"
proof -
  define path where "path = obj_file g col i"
  note eq = open_object_def [of g col obj i os, folded path_def]
  obtain r os3 where F: "materialise g col obj i os = Some (r, os3)" and q: "quiet path os os3"
    and sz: "r = OSD_SUCCESS \<Longrightarrow> sized path (osz col) os os3"
    using materialise_effect [OF geo lf obj] unfolding path_def by blast
  show ?thesis
  proof (cases "r = OSD_SUCCESS \<and> choice os3 \<noteq> Fail \<and> os_files os3 path \<noteq> None \<and> free_fd os3 \<noteq> None")
    case False
    then show ?thesis
      using eq F q geo quiet_trans [OF q quiet_adv]
      by (auto simp: sys_open_plain geometry_ok_def path_def split: option.splits)
  next
    case True
    then obtain fd where fd: "free_fd os3 = Some fd" by auto
    define os4 where "os4 = (adv os3)\<lparr>os_fds := (os_fds os3)
        (fd \<mapsto> \<lparr>of_path = path, of_flags = oc_io_flag col\<rparr>)\<rparr>"
    have "open_object g col obj i os = Some (OSD_SUCCESS, obj\<lparr>oa_file_fd := int fd\<rparr>, os4)"
      using eq F geo True fd by (auto simp: sys_open_plain geometry_ok_def os4_def)
    moreover have "quiet path os os4"
      using quiet_trans [OF q quiet_new_fd [OF fd, of path "adv os3"]] by (simp add: os4_def)
    moreover have "sized path (osz col) os os4"
      using sz True by (simp add: sized_def os4_def split: option.splits)
    moreover have "os_fds os fd = None"
      using free_fd_Some [OF fd] q by (auto simp: quiet_def map_le_def dom_def)
    ultimately show ?thesis by (auto simp: path_def os4_def)
  qed
qed

lemma recache_object_effect:
  assumes geo: "geometry_ok g col" and lf: "locks_free os"
  shows "\<exists>r obj os'. osd_recache_object g col zero_object_attr (of_nat i) os = Some (r, obj, os')
     \<and> quiet (obj_file g col i) os os'
     \<and> (r = OSD_SUCCESS \<longrightarrow> sized (obj_file g col i) (osz col) os os'
         \<and> (\<exists>fd. obj = (opened_attr col i os)\<lparr>oa_file_fd := int fd\<rparr> \<and> os_fds os fd = None
              \<and> os_fds os' fd = Some \<lparr>of_path = obj_file g col i, of_flags = oc_io_flag col\<rparr>))"
  unfolding recache_object_eq [OF geo] by (rule open_object_effect [OF geo lf opened_attr_of])

section \<open>One piece\<close>

definition read_piece ::
    "obj_op_func \<Rightarrow> blk_frontend_parameters \<Rightarrow> osd_collection \<Rightarrow> bytes \<Rightarrow> nat \<Rightarrow> u64 \<Rightarrow> i32 \<Rightarrow> u64
       \<Rightarrow> os \<Rightarrow> (OSD_RETURN \<times> bytes \<times> os) option" where
  "read_piece ops g col mem bp len idx off os =
     Option.bind (osd_recache_object g col zero_object_attr idx os)
       (\<lambda>(r, obj, os1).
          if r \<noteq> OSD_SUCCESS then Some (OSD_ERROR, mem, os1)
          else Option.bind (obj_pfn_offset_read ops obj mem bp len off os1)
            (\<lambda>(r2, obj2, mem2, os2).
               case osd_reset_cache_object obj2 os2 of (r3, _, os3) \<Rightarrow>
                 Some (if r2 \<noteq> OBJ_SUCCESS \<or> r3 \<noteq> OSD_SUCCESS then OSD_ERROR else OSD_SUCCESS,
                       mem2, os3)))"

definition write_piece ::
    "obj_op_func \<Rightarrow> blk_frontend_parameters \<Rightarrow> osd_collection \<Rightarrow> bytes \<Rightarrow> nat \<Rightarrow> u64 \<Rightarrow> i32 \<Rightarrow> u64
       \<Rightarrow> os \<Rightarrow> (OSD_RETURN \<times> os) option" where
  "write_piece ops g col mem bp len idx off os =
     Option.bind (osd_recache_object g col zero_object_attr idx os)
       (\<lambda>(r, obj, os1).
          if r \<noteq> OSD_SUCCESS then Some (OSD_ERROR, os1)
          else Option.bind (obj_pfn_offset_write ops obj mem bp len off os1)
            (\<lambda>(r2, obj2, os2).
               case osd_reset_cache_object obj2 os2 of (r3, _, os3) \<Rightarrow>
                 Some (if r2 \<noteq> OBJ_SUCCESS \<or> r3 \<noteq> OSD_SUCCESS then OSD_ERROR else OSD_SUCCESS,
                       os3)))"

lemma osd_read_loop_piece:
  "osd_read_loop ops g col mem len rd idx off os =
     (if rd = len then Some (OSD_SUCCESS, mem, os)
      else Option.bind (read_piece ops g col mem (unat rd)
               (piece_len (oc_object_size col) len rd off) idx off os)
        (\<lambda>(r, mem2, os3). if r \<noteq> OSD_SUCCESS then Some (OSD_ERROR, mem2, os3)
           else osd_read_loop ops g col mem2 len
                  (rd + piece_len (oc_object_size col) len rd off) (idx + 1) 0 os3))"
  by (subst osd_read_loop.simps)
     (auto simp: read_piece_def split: prod.splits Option.bind_split)

lemma osd_write_loop_piece:
  "osd_write_loop ops g col mem len rd idx off os =
     (if rd = len then Some (OSD_SUCCESS, os)
      else Option.bind (write_piece ops g col mem (unat rd)
               (piece_len (oc_object_size col) len rd off) idx off os)
        (\<lambda>(r, os3). if r \<noteq> OSD_SUCCESS then Some (OSD_ERROR, os3)
           else osd_write_loop ops g col mem len
                  (rd + piece_len (oc_object_size col) len rd off) (idx + 1) 0 os3))"
  by (subst osd_write_loop.simps)
     (auto simp: write_piece_def split: prod.splits Option.bind_split)

text \<open>What one operation on a volume may do outside the volume's bytes.\<close>

definition volume_step :: "blk_frontend_parameters \<Rightarrow> osd_collection \<Rightarrow> os \<Rightarrow> os \<Rightarrow> bool" where
  "volume_step g col os os' \<longleftrightarrow> os_frame os os' \<and> os_mutex os' = os_mutex os
     \<and> os_fds os \<subseteq>\<^sub>m os_fds os'
     \<and> (\<forall>p. p \<notin> range (obj_file g col) \<longrightarrow> os_files os' p = os_files os p)"

lemma volume_step_refl [simp]: "volume_step g col os os"
  by (simp add: volume_step_def)

lemma volume_step_trans:
  "volume_step g col a b \<Longrightarrow> volume_step g col b c \<Longrightarrow> volume_step g col a c"
  by (auto simp: volume_step_def intro: os_frame_trans map_le_trans)

lemma volume_step_locks: "volume_step g col a b \<Longrightarrow> locks_free b = locks_free a"
  by (simp add: volume_step_def locks_free_def)

lemma quiet_volume_step: "quiet (obj_file g col i) a b \<Longrightarrow> volume_step g col a b"
  by (auto simp: quiet_def volume_step_def)

lemma quiet_flat: "quiet p a b \<Longrightarrow> flat g col b = flat g col a"
  by (simp add: quiet_def flat_def fun_eq_iff)

text \<open>
  A volume on which nothing can go wrong: no failures to come, every object has its file, and a
  descriptor above \<open>RESERVED_FDS\<close> is the next one.
\<close>

definition vol_live :: "blk_frontend_parameters \<Rightarrow> osd_collection \<Rightarrow> os \<Rightarrow> bool" where
  "vol_live g col os \<longleftrightarrow> no_faults os \<and> (\<forall>i < onb col. os_files os (obj_file g col i) \<noteq> None)
     \<and> (\<exists>fd. free_fd os = Some fd \<and> 3 < fd)"

text \<open>The outcome of an operation on a volume, its bytes apart.\<close>

definition vol_result ::
    "blk_frontend_parameters \<Rightarrow> osd_collection \<Rightarrow> os \<Rightarrow> OSD_RETURN \<Rightarrow> os \<Rightarrow> bool" where
  "vol_result g col os r os' \<longleftrightarrow> volume_step g col os os'
     \<and> (r = OSD_SUCCESS \<longrightarrow> objects_ok g col os')
     \<and> (vol_live g col os \<longrightarrow> r = OSD_SUCCESS \<and> vol_live g col os' \<and> os_fds os' = os_fds os)"

lemma vol_result_refl: "objects_ok g col os \<Longrightarrow> vol_result g col os OSD_SUCCESS os"
  by (simp add: vol_result_def)

lemma vol_result_trans:
  "vol_result g col a OSD_SUCCESS b \<Longrightarrow> vol_result g col b r c \<Longrightarrow> vol_result g col a r c"
  by (auto simp: vol_result_def intro: volume_step_trans)

lemma vol_live_cong:
  assumes "volume_step g col os os'" and "os_fds os' = os_fds os" and "vol_live g col os"
    and "\<And>p. os_files os p \<noteq> None \<Longrightarrow> os_files os' p \<noteq> None"
  shows "vol_live g col os'"
proof -
  have "free_fd os' = free_fd os" "no_faults os \<longrightarrow> no_faults os'"
    using assms(1,2) os_frame_no_faults
    by (auto simp: free_fd_def volume_step_def os_frame_def no_faults_def)
  then show ?thesis using assms(3,4) by (simp add: vol_live_def)
qed

lemma obj_file_inject:
  assumes "geometry_ok g col" and "i < 4294967296" and "j < 4294967296"
  shows "obj_file g col i = obj_file g col j \<longleftrightarrow> i = j"
proof -
  have "unat (of_nat i :: u32) = i" "unat (of_nat j :: u32) = j"
    using assms by - (rule unat_of_nat_small, simp)+
  then have "(of_nat i :: u32) = of_nat j \<longleftrightarrow> i = j" by metis
  then show ?thesis
    using assms(1)
    by (simp add: obj_file_def dc_data_path_inject geometry_ok_def oid_of_index_inject)
qed

lemma flat_object:
  "k < osz col \<Longrightarrow> i < onb col \<Longrightarrow>
   flat g col os (i * osz col + k) = file_byte (os_files os) (obj_file g col i) k"
  by (simp add: flat_def object_address)

text \<open>Writing inside the file of one object is writing inside the volume.\<close>

lemma flat_file_write:
  assumes geo: "geometry_ok g col" and i: "i < onb col"
    and b: "os_files os (obj_file g col i) = Some b" "osz col \<le> length b"
    and d: "o' + length d \<le> osz col"
    and w: "os_files os' = (os_files os)(obj_file g col i \<mapsto> splice_at b o' d)"
  shows "flat g col os' = flat_write (flat g col os) (i * osz col + o') d"
proof
  fix x
  show "flat g col os' x = flat_write (flat g col os) (i * osz col + o') d x"
  proof (cases "x < capacity col")
    case False
    have "i * osz col + o' + length d \<le> capacity col"
      using i d mult_le_mono1 [of "Suc i" "onb col" "osz col"] by (simp add: capacity_def)
    with False show ?thesis by (simp add: flat_def flat_write_def)
  next
    case True
    define j k where "j = x div osz col" and "k = x mod osz col"
    have jk: "j < onb col" "k < osz col" "x = j * osz col + k"
      using address_object [OF True] by (simp_all add: j_def k_def)
    have nb: "onb col < 4294967296" using geo by (simp add: geometry_ok_def)
    have inj: "obj_file g col j = obj_file g col i \<longleftrightarrow> j = i"
      using obj_file_inject [OF geo] jk i nb by simp
    show ?thesis
    proof (cases "j = i")
      case True
      have "flat g col os' x = splice_at b o' d ! k" "flat g col os x = b ! k"
        using True jk b d w by (simp_all add: flat_object file_byte_def)
      then show ?thesis
        using True jk b d by (auto simp: flat_write_def nth_splice_at)
    next
      case False
      have "\<not> (i * osz col + o' \<le> x \<and> x < i * osz col + o' + length d)"
      proof
        assume "i * osz col + o' \<le> x \<and> x < i * osz col + o' + length d"
        then have "x div osz col = i"
          using d by (intro div_nat_eqI) (simp_all add: mult.commute)
        with False show False by (simp add: j_def)
      qed
      then show ?thesis
        using False inj jk w by (auto simp: flat_write_def flat_object file_byte_def)
    qed
  qed
qed

text \<open>After the transfer the object is released again, whatever happened.\<close>

lemma transfer_released:
  assumes "obj_result os1 obj r2 obj2 os2" and "osd_reset_cache_object obj2 os2 = (r3, x, os3)"
    and "fd_file os1 (oa_file_fd obj) \<noteq> None"
  shows "os_frame os1 os3" "os_mutex os3 = os_mutex os1" "os_files os3 = os_files os2"
    "os_fds os3 = closed_fds (oa_file_fd obj) (os_fds os1)"
    "no_faults os1 \<Longrightarrow> r2 = OBJ_SUCCESS \<and> r3 = OSD_SUCCESS"
proof -
  note rs = reset_cache_object_effect [OF assms(2)]
  have fr: "os_frame os1 os2" "os_mutex os2 = os_mutex os1" using assms(1) by (simp_all add: obj_result_def)
  show "os_frame os1 os3" "os_mutex os3 = os_mutex os1" "os_files os3 = os_files os2"
    using rs fr by (auto intro: os_frame_trans)
  show "os_fds os3 = closed_fds (oa_file_fd obj) (os_fds os1)"
    using rs assms(1) by (cases r2) (auto simp: obj_result_def closed_fds_idem)
  show "r2 = OBJ_SUCCESS \<and> r3 = OSD_SUCCESS" if nf: "no_faults os1"
  proof -
    have r2: "r2 = OBJ_SUCCESS" using assms(1) nf by (simp add: obj_result_def)
    then have "obj2 = obj" "fd_file os2 = fd_file os1"
      using assms(1) by (simp_all add: obj_result_def fd_file_def fun_eq_iff)
    then show ?thesis
      using r2 rs nf os_frame_no_faults [OF fr(1) nf] assms(3) by simp
  qed
qed

lemma map_le_closed:
  "t \<subseteq>\<^sub>m t1 \<Longrightarrow> t fd = None \<Longrightarrow> t \<subseteq>\<^sub>m closed_fds (int fd) t1"
  by (auto simp: closed_fds_def map_le_def)

text \<open>The object file once it has been opened.\<close>

lemma opened_object:
  assumes geo: "geometry_ok g col" and ok: "objects_ok g col os" and i: "i < onb col"
    and q: "quiet (obj_file g col i) os os1" and s: "sized (obj_file g col i) (osz col) os os1"
  obtains b where "os_files os1 (obj_file g col i) = Some b" "osz col \<le> length b"
    "length b < 9223372036854775808" "objects_ok g col os1"
    "\<And>k. k < osz col \<Longrightarrow> b ! k = flat g col os (i * osz col + k)"
proof -
  have "\<exists>b. os_files os1 (obj_file g col i) = Some b \<and> osz col \<le> length b
      \<and> length b < 9223372036854775808"
    using s ok i geo
    by (auto simp: sized_def objects_ok_def geometry_ok_def split: option.splits)
  then obtain b where b: "os_files os1 (obj_file g col i) = Some b" "osz col \<le> length b"
    "length b < 9223372036854775808" by blast
  moreover have "objects_ok g col os1"
    unfolding objects_ok_def
  proof (intro allI impI)
    fix j c
    assume "j < onb col" and "os_files os1 (obj_file g col j) = Some c"
    with b ok q show "osz col \<le> length c \<and> length c < 9223372036854775808"
      by (cases "obj_file g col j = obj_file g col i") (auto simp: quiet_def objects_ok_def)
  qed
  moreover have "b ! k = flat g col os (i * osz col + k)" if "k < osz col" for k
  proof -
    have "file_byte (os_files os1) (obj_file g col i) k = b ! k"
      using b that by (simp add: file_byte_def)
    then show ?thesis using q i that by (simp add: flat_object quiet_def)
  qed
  ultimately show ?thesis by (rule that)
qed

lemma objects_ok_splice:
  assumes "objects_ok g col os1" and "os_files os1 p = Some b" and "length b' = length b"
    and "os_files os3 = (os_files os1)(p \<mapsto> b')"
  shows "objects_ok g col os3"
  using assms by (auto simp: objects_ok_def)

lemma flat_cong: "os_files a = os_files b \<Longrightarrow> flat g col a = flat g col b"
  by (rule ext) (simp add: flat_def)

lemma recache_object_live:
  assumes "geometry_ok g col" and "no_faults os" and "os_files os (obj_file g col i) \<noteq> None"
    and "free_fd os = Some fd"
  shows "osd_recache_object g col zero_object_attr (of_nat i) os
     = Some (OSD_SUCCESS, (opened_attr col i os)\<lparr>oa_file_fd := int fd\<rparr>,
         (adv (adv os))\<lparr>os_fds := (os_fds os)
            (fd \<mapsto> \<lparr>of_path = obj_file g col i, of_flags = oc_io_flag col\<rparr>)\<rparr>)"
  using assms
  by (auto simp: recache_object_eq open_object_def materialise_def sys_stat_eq sys_open_plain geometry_ok_def)

lemma recache_object_cases:
  assumes geo: "geometry_ok g col" and ok: "objects_ok g col os" and lf: "locks_free os"
    and i: "i < onb col"
  obtains (failed) obj os1 where
      "osd_recache_object g col zero_object_attr (of_nat i) os = Some (OSD_ERROR, obj, os1)"
      "vol_result g col os OSD_ERROR os1" "flat g col os1 = flat g col os"
  | (opened) obj os1 b where
      "osd_recache_object g col zero_object_attr (of_nat i) os = Some (OSD_SUCCESS, obj, os1)"
      "volume_step g col os os1" "flat g col os1 = flat g col os"
      "obj_open os1 obj (obj_file g col i) b" "osz col \<le> length b" "objects_ok g col os1"
      "\<And>k. k < osz col \<Longrightarrow> b ! k = flat g col os (i * osz col + k)"
      "os_fds os \<subseteq>\<^sub>m closed_fds (oa_file_fd obj) (os_fds os1)"
      "vol_live g col os \<longrightarrow> no_faults os1 \<and> os_files os1 = os_files os
          \<and> closed_fds (oa_file_fd obj) (os_fds os1) = os_fds os"
proof -
  define p where "p = obj_file g col i"
  obtain r obj os1 where
    rc: "osd_recache_object g col zero_object_attr (of_nat i) os = Some (r, obj, os1)"
    and q: "quiet p os os1"
    and opened: "r = OSD_SUCCESS \<Longrightarrow> sized p (osz col) os os1
         \<and> (\<exists>fd. oa_file_fd obj = int fd \<and> os_fds os fd = None
              \<and> os_fds os1 fd = Some \<lparr>of_path = p, of_flags = oc_io_flag col\<rparr>)"
    using recache_object_effect [OF geo lf, of i] unfolding p_def by fastforce
  note qv = quiet_volume_step [OF q [unfolded p_def]] quiet_flat [OF q]
  show ?thesis
  proof (cases r)
    case OSD_ERROR
    have "\<not> vol_live g col os"
      using recache_object_live [OF geo] i rc OSD_ERROR by (auto simp: vol_live_def)
    with qv(1) have "vol_result g col os OSD_ERROR os1" by (simp add: vol_result_def)
    then show ?thesis by (rule that(1) [OF rc [unfolded OSD_ERROR] _ qv(2)])
  next
    case OSD_SUCCESS
    then obtain fd where s: "sized p (osz col) os os1" and fd: "oa_file_fd obj = int fd"
      "os_fds os fd = None" "os_fds os1 fd = Some \<lparr>of_path = p, of_flags = oc_io_flag col\<rparr>"
      using opened by blast
    obtain b where b: "os_files os1 p = Some b" "osz col \<le> length b"
      "length b < 9223372036854775808" "objects_ok g col os1"
      "\<And>k. k < osz col \<Longrightarrow> b ! k = flat g col os (i * osz col + k)"
      by (rule opened_object [OF geo ok i q [unfolded p_def] s [unfolded p_def], folded p_def])
         (auto intro: that)
    have "obj_open os1 obj p b" using fd b geo by (simp add: obj_open_def geometry_ok_def)
    moreover have "os_fds os \<subseteq>\<^sub>m closed_fds (oa_file_fd obj) (os_fds os1)"
      using q fd by (simp add: quiet_def map_le_closed)
    moreover have "no_faults os1 \<and> os_files os1 = os_files os
        \<and> closed_fds (oa_file_fd obj) (os_fds os1) = os_fds os" if "vol_live g col os"
    proof -
      from that obtain f where "free_fd os = Some f" "3 < f" "no_faults os"
        "os_files os (obj_file g col i) \<noteq> None" using i by (auto simp: vol_live_def)
      with recache_object_live [OF geo, of os i f] rc free_fd_Some [of os f] show ?thesis
        by (auto simp: closed_fds_def RESERVED_FDS_def fun_eq_iff)
    qed
    ultimately show ?thesis
      using that(2) [OF rc [unfolded OSD_SUCCESS] qv _ b(2,4,5)] by (simp add: p_def)
  qed
qed

lemma transfer_result:
  assumes res: "obj_result os1 obj r2 obj2 os2" "osd_reset_cache_object obj2 os2 = (r3, x, os3)"
    and fd: "fd_file os1 (oa_file_fd obj) \<noteq> None"
    and step: "volume_step g col os os1"
    and le: "os_fds os \<subseteq>\<^sub>m closed_fds (oa_file_fd obj) (os_fds os1)"
    and live: "vol_live g col os \<longrightarrow> no_faults os1 \<and> os_files os1 = os_files os
          \<and> closed_fds (oa_file_fd obj) (os_fds os1) = os_fds os"
    and ok: "objects_ok g col os3"
    and files: "\<And>p. p \<notin> range (obj_file g col) \<Longrightarrow> os_files os3 p = os_files os1 p"
      "\<And>p. os_files os1 p \<noteq> None \<Longrightarrow> os_files os3 p \<noteq> None"
  shows "vol_result g col os
     (if r2 \<noteq> OBJ_SUCCESS \<or> r3 \<noteq> OSD_SUCCESS then OSD_ERROR else OSD_SUCCESS) os3"
proof -
  note rel = transfer_released [OF res fd]
  have vs: "volume_step g col os os3"
    using step le files(1) rel(1,2,4) by (auto simp: volume_step_def intro: os_frame_trans)
  have "vol_live g col os3" if "vol_live g col os"
    using live that rel(4) files(2) by (intro vol_live_cong [OF vs _ that]) simp_all
  with vs ok live rel(4,5) show ?thesis by (auto simp: vol_result_def)
qed

context object_io
begin

lemma read_piece_effect:
  assumes geo: "geometry_ok g col" and ok: "objects_ok g col os" and lf: "locks_free os"
    and i: "i < onb col" and rng: "unat off + unat len \<le> osz col"
    and mem: "bp + unat len \<le> length mem"
  shows "\<exists>r k os'. read_piece ops g col mem bp len (of_nat i) off os
        = Some (r, splice_at mem bp (flat_read (flat g col os) (i * osz col + unat off) k), os')
      \<and> k \<le> unat len \<and> (r = OSD_SUCCESS \<longrightarrow> k = unat len)
      \<and> vol_result g col os r os' \<and> flat g col os' = flat g col os"
  using geo ok lf i
proof (cases rule: recache_object_cases)
  case (failed obj os1)
  then show ?thesis
    by (intro exI [of _ OSD_ERROR] exI [of _ 0] exI [of _ os1])
       (simp add: read_piece_def flat_read_def)
next
  case (opened obj os1 b)
  from rng opened(5) have rng': "unat off + unat len \<le> length b" by simp
  obtain r2 obj2 os2 k where
    run: "obj_pfn_offset_read ops obj mem bp len off os1
       = Some (r2, obj2, splice_at mem bp (slice b (unat off) k), os2)"
    and k: "k \<le> unat len" "r2 = OBJ_SUCCESS \<longrightarrow> k = unat len"
    and res: "obj_result os1 obj r2 obj2 os2" and files: "os_files os2 = os_files os1"
    using read_contract [OF opened(4) rng' mem] by blast
  obtain r3 x os3 where rs: "osd_reset_cache_object obj2 os2 = (r3, x, os3)"
    by (cases "osd_reset_cache_object obj2 os2") auto
  have fd: "fd_file os1 (oa_file_fd obj) \<noteq> None" using opened(4) by (auto simp: obj_open_def)
  note rel = transfer_released [OF res rs fd]
  have same: "os_files os3 = os_files os1" using rel(3) files by simp
  have "slice b (unat off) k = flat_read (flat g col os) (i * osz col + unat off) k"
    using opened(5,7) k rng by (auto simp: list_eq_iff_nth_eq flat_read_nth add.assoc)
  moreover have "objects_ok g col os3" using opened(6) same by (simp add: objects_ok_def)
  then have "vol_result g col os
      (if r2 \<noteq> OBJ_SUCCESS \<or> r3 \<noteq> OSD_SUCCESS then OSD_ERROR else OSD_SUCCESS) os3"
    by (rule transfer_result [OF res rs fd opened(2,8,9)]) (simp_all add: same)
  moreover have "flat g col os3 = flat g col os" using flat_cong [OF same] opened(3) by metis
  ultimately show ?thesis
    using opened(1) run rs k
    by (intro exI [of _ "if r2 \<noteq> OBJ_SUCCESS \<or> r3 \<noteq> OSD_SUCCESS then OSD_ERROR else OSD_SUCCESS"]
        exI [of _ k] exI [of _ os3]) (simp add: read_piece_def)
qed

lemma write_piece_effect:
  assumes geo: "geometry_ok g col" and ok: "objects_ok g col os" and lf: "locks_free os"
    and i: "i < onb col" and rng: "unat off + unat len \<le> osz col"
    and mem: "bp + unat len \<le> length mem"
  shows "\<exists>r k os'. write_piece ops g col mem bp len (of_nat i) off os = Some (r, os')
      \<and> k \<le> unat len \<and> (r = OSD_SUCCESS \<longrightarrow> k = unat len)
      \<and> vol_result g col os r os'
      \<and> flat g col os' = flat_write (flat g col os) (i * osz col + unat off) (slice mem bp k)"
  using geo ok lf i
proof (cases rule: recache_object_cases)
  case (failed obj os1)
  then show ?thesis
    by (intro exI [of _ OSD_ERROR] exI [of _ 0] exI [of _ os1]) (simp add: write_piece_def)
next
  case (opened obj os1 b)
  from rng opened(5) have rng': "unat off + unat len \<le> length b" by simp
  obtain r2 obj2 os2 k where
    run: "obj_pfn_offset_write ops obj mem bp len off os1 = Some (r2, obj2, os2)"
    and k: "k \<le> unat len" "r2 = OBJ_SUCCESS \<longrightarrow> k = unat len"
    and res: "obj_result os1 obj r2 obj2 os2"
    and files: "os_files os2 = (os_files os1)
        (obj_file g col i \<mapsto> splice_at b (unat off) (slice mem bp k))"
    using write_contract [OF opened(4) rng' mem] by blast
  obtain r3 x os3 where rs: "osd_reset_cache_object obj2 os2 = (r3, x, os3)"
    by (cases "osd_reset_cache_object obj2 os2") auto
  have fd: "fd_file os1 (oa_file_fd obj) \<noteq> None" using opened(4) by (auto simp: obj_open_def)
  note rel = transfer_released [OF res rs fd]
  have d: "length (slice mem bp k) = k" using mem k by simp
  have fb: "os_files os1 (obj_file g col i) = Some b" using opened(4) by (simp add: obj_open_def)
  have "flat g col os3 = flat_write (flat g col os1) (i * osz col + unat off) (slice mem bp k)"
    by (rule flat_file_write [OF geo i fb opened(5)]) (use d rng k rel(3) files in simp_all)
  moreover have "objects_ok g col os3"
    by (rule objects_ok_splice [OF opened(6) fb]) (use d rng' k rel(3) files in simp_all)
  then have "vol_result g col os
      (if r2 \<noteq> OBJ_SUCCESS \<or> r3 \<noteq> OSD_SUCCESS then OSD_ERROR else OSD_SUCCESS) os3"
    by (rule transfer_result [OF res rs fd opened(2,8,9)]) (use rel(3) files in auto)
  ultimately show ?thesis
    using opened(1,3) run rs k
    by (intro exI [of _ "if r2 \<noteq> OBJ_SUCCESS \<or> r3 \<noteq> OSD_SUCCESS then OSD_ERROR else OSD_SUCCESS"]
        exI [of _ k] exI [of _ os3]) (simp add: write_piece_def)
qed

end

text \<open>The range loops of the layer meet the contract \<open>range_loops\<close>.\<close>

sublocale object_io \<subseteq> plain: range_loops col "flat g col" "vol_result g col" "volume_ready g col"
    "read_piece ops g col" "\<lambda>mem len rd. osd_read_loop ops g col mem len rd"
    "write_piece ops g col" "\<lambda>mem len rd. osd_write_loop ops g col mem len rd" for g col
proof
  fix s assume ok: "volume_ready g col s"
  then have rd: "geometry_ok g col" "objects_ok g col s" "locks_free s" by (simp_all add: volume_ready_def)
  show "vol_result g col s OSD_SUCCESS s" by (rule vol_result_refl [OF rd(2)])
  show "volume_ready g col s1" if "vol_result g col s OSD_SUCCESS s1" for s1
    using that rd volume_step_locks by (auto simp: volume_ready_def vol_result_def)
  show "reads (flat g col) (vol_result g col) s mem bp (i * osz col + unat off) (unat n)
      (read_piece ops g col mem bp n (of_nat i) off s)"
    if "i < onb col" "unat off + unat n \<le> osz col" "bp + unat n \<le> length mem" for i off n bp mem
    unfolding reads_def by (rule read_piece_effect [OF rd that])
  show "writes (flat g col) (vol_result g col) s mem bp (i * osz col + unat off) (unat n)
      (write_piece ops g col mem bp n (of_nat i) off s)"
    if "i < onb col" "unat off + unat n \<le> osz col" "bp + unat n \<le> length mem" for i off n bp mem
    unfolding writes_def by (rule write_piece_effect [OF rd that])
qed (use vol_result_trans osd_read_loop_piece osd_write_loop_piece in \<open>simp_all add: Let_def\<close>)

end
