(* ===== verification/Volume.thy ===== *)
theory Volume
  imports Osd_Flat
begin

text \<open>
  What the object layer promises about a volume: the address arithmetic, the refinement of the
  flat array by \<open>osd_op_read\<close> and \<open>osd_op_write\<close> under every pattern of failures and short
  transfers, read after write, isolation of volumes, progress, and the requests the range check
  gets wrong.
\<close>

section \<open>Example instances\<close>

lemma ex_collection_geometry: "geometry_ok ex_params ex_collection"
  by (simp add: geometry_ok_def ex_params_def ex_collection_def ex_start_def MAXOIDLEN_def
      path_fits_def MAXPATHLEN_def MAXNAMESIZE_def capacity_def plain_flags_def may_read_def
      may_write_def has_flag_def O_CREAT_def O_TRUNC_def O_APPEND_def)

lemma ex_collection_sizes [simp]:
  "osz ex_collection = 4" "onb ex_collection = 3" "capacity ex_collection = 12"
  by (simp_all add: ex_collection_def capacity_def)

lemma ex_objects_ok:
  "os_files os = (\<lambda>_. None) \<Longrightarrow> objects_ok g col os"
  by (simp add: objects_ok_def)

section \<open>Addresses\<close>

text \<open>
  C26: An offset inside the volume maps to the object of index \<open>offset div object_size\<close> and the
  place \<open>offset mod object_size\<close> in it; any other offset is refused and the outputs are left
  alone. No step of the C arithmetic wraps around or is cut by the \<open>int\<close> index.
\<close>

theorem osd_offset_to_object_correct:
  assumes "geometry_ok g col"
  shows "osd_offset_to_object col off i0 l0 =
     (if unat off < capacity col
      then (OSD_SUCCESS, of_nat (unat off div osz col), of_nat (unat off mod osz col))
      else (OSD_ERROR, i0, l0))"
proof -
  from assms have sz: "0 < osz col" and nb: "onb col \<le> 2147483648"
    and cap: "onb col * osz col < 18446744073709551616"
    by (simp_all add: geometry_ok_def capacity_def)
  have prod: "unat (oc_nb_objects col * oc_object_size col) = capacity col"
    using cap by (simp add: capacity_def unat_mult_no_wrap)
  have le: "oc_nb_objects col * oc_object_size col \<le> off \<longleftrightarrow> \<not> unat off < capacity col"
    by (simp add: word_le_nat_alt prod not_less)
  have "(ucast (off div oc_object_size col) :: i32) = of_nat (unat (off div oc_object_size col))"
    by simp
  then have idx: "(ucast (off div oc_object_size col) :: i32) = of_nat (unat off div osz col)"
    by (simp only: unat_div_distrib)
  have loc: "off - oc_object_size col * scast (of_nat (unat off div osz col) :: i32)
      = of_nat (unat off mod osz col)" if "unat off < capacity col"
  proof -
    have "unat off div osz col < 2147483648"
      using address_object(1) [OF that] nb by simp
    then have "scast (of_nat (unat off div osz col) :: i32)
        = (of_int (int (unat off div osz col)) :: u64)"
      by (simp only: scast_eq sint_of_nat_small)
    then have sc: "scast (of_nat (unat off div osz col) :: i32)
        = (of_nat (unat off div osz col) :: u64)" by simp
    have "unat off = osz col * (unat off div osz col) + unat off mod osz col" by simp
    then have "(of_nat (unat off) :: u64)
        = of_nat (osz col * (unat off div osz col) + unat off mod osz col)" by (rule arg_cong)
    then have "off = oc_object_size col * of_nat (unat off div osz col) + of_nat (unat off mod osz col)"
      by (simp only: of_nat_add of_nat_mult of_nat_unat ucast_id)
    then show ?thesis unfolding sc by (metis add_diff_cancel_left')
  qed
  show ?thesis
    using sz le idx loc by (simp add: osd_offset_to_object_def Let_def unat_gt_0)
qed

theorem osd_offset_to_object_correct_witness:
  "osd_offset_to_object ex_collection 10 7 7 = (OSD_SUCCESS, 2, 2)
   \<and> osd_offset_to_object ex_collection 12 7 7 = (OSD_ERROR, 7, 7)"
  by (simp add: osd_offset_to_object_correct [OF ex_collection_geometry])

section \<open>Ranges\<close>

lemma op_range_check:
  assumes geo: "geometry_ok g col" and wrap: "unat off + unat len < 18446744073709551616"
  shows "(unat off < capacity col \<and>
      \<not> ((of_nat (unat off mod osz col) + len :: u64) > oc_object_size col
         \<and> fst (osd_offset_to_object col (off + len) 0 0) \<noteq> OSD_SUCCESS))
      \<longleftrightarrow> range_ok col (unat off) (unat len)"
proof -
  have le: "unat off mod osz col \<le> unat off" by (rule mod_less_eq_dividend)
  then have m: "unat (of_nat (unat off mod osz col) :: u64) = unat off mod osz col"
    using le_less_trans [OF _ unat_lt64 [of off]] by (intro unat_of_nat_small) simp
  have "unat (of_nat (unat off mod osz col) + len :: u64) = unat off mod osz col + unat len"
    using unat_add_no_wrap [of "of_nat (unat off mod osz col) :: u64" len]
      le_less_trans [OF add_right_mono [OF le] wrap] by (simp add: m)
  moreover have "unat (off + len) = unat off + unat len"
    using wrap by (subst unat_add_no_wrap) simp_all
  ultimately show ?thesis
    by (auto simp: range_ok_def osd_offset_to_object_correct [OF geo] word_less_nat_alt)
qed

lemma osd_op_read_eq:
  assumes geo: "geometry_ok g col" and wrap: "unat off + unat len < 18446744073709551616"
  shows "osd_op_read ops g col buf len off os =
     (if range_ok col (unat off) (unat len)
      then osd_read_loop ops g col buf len 0 (of_nat (unat off div osz col))
             (of_nat (unat off mod osz col)) os
      else Some (OSD_ERROR, buf, os))"
proof -
  have sz: "oc_object_size col \<noteq> 0" using geo by (auto simp: geometry_ok_def)
  show ?thesis
    using op_range_check [OF geo wrap] sz
    by (auto simp: osd_op_read_def osd_offset_to_object_correct [OF geo, of off])
qed

lemma osd_op_write_eq:
  assumes geo: "geometry_ok g col" and wrap: "unat off + unat len < 18446744073709551616"
  shows "osd_op_write ops g col buf len off os =
     (if range_ok col (unat off) (unat len)
      then osd_write_loop ops g col buf len 0 (of_nat (unat off div osz col))
             (of_nat (unat off mod osz col)) os
      else Some (OSD_ERROR, os))"
proof -
  have sz: "oc_object_size col \<noteq> 0" using geo by (auto simp: geometry_ok_def)
  show ?thesis
    using op_range_check [OF geo wrap] sz
    by (auto simp: osd_op_write_def osd_offset_to_object_correct [OF geo, of off])
qed

section \<open>Refinement of the flat array\<close>

lemma osd_op_read_effect:
  assumes rdy: "volume_ready g col os" and buf: "unat len \<le> length buf"
    and wrap: "unat off + unat len < 18446744073709551616"
  shows "\<exists>r k os'. osd_op_read simpleOSD_obj_op g col buf len off os
        = Some (r, splice_at buf 0 (flat_read (flat g col os) (unat off) k), os')
      \<and> k \<le> unat len \<and> (r = OSD_SUCCESS \<longrightarrow> k = unat len \<and> volume_ready g col os')
      \<and> (\<not> range_ok col (unat off) (unat len) \<longrightarrow> r = OSD_ERROR \<and> k = 0 \<and> os' = os)
      \<and> (range_ok col (unat off) (unat len) \<longrightarrow> vol_result g col os r os')
      \<and> volume_step g col os os' \<and> flat g col os' = flat g col os"
proof (cases "range_ok col (unat off) (unat len)")
  case False
  then show ?thesis using rdy wrap
    by (intro exI [of _ OSD_ERROR] exI [of _ 0] exI [of _ os])
       (simp add: osd_op_read_eq volume_ready_def flat_read_def)
next
  case True
  have "reads (flat g col) (vol_result g col) os buf 0 (unat off) (unat len)
      (osd_op_read simpleOSD_obj_op g col buf len off os)"
    using simple_io.plain.range_reads [OF rdy True buf] True rdy wrap
    by (simp add: osd_op_read_eq volume_ready_def)
  then show ?thesis
    using True rdy volume_step_locks unfolding reads_def
    by (simp add: volume_ready_def) (metis vol_result_def)
qed

lemma osd_op_write_effect:
  assumes rdy: "volume_ready g col os" and buf: "unat len \<le> length buf"
    and wrap: "unat off + unat len < 18446744073709551616"
  shows "\<exists>r k os'. osd_op_write simpleOSD_obj_op g col buf len off os = Some (r, os')
      \<and> k \<le> unat len \<and> (r = OSD_SUCCESS \<longrightarrow> k = unat len \<and> volume_ready g col os')
      \<and> (\<not> range_ok col (unat off) (unat len) \<longrightarrow> r = OSD_ERROR \<and> k = 0 \<and> os' = os)
      \<and> (range_ok col (unat off) (unat len) \<longrightarrow> vol_result g col os r os')
      \<and> volume_step g col os os'
      \<and> flat g col os' = flat_write (flat g col os) (unat off) (take k buf)"
proof (cases "range_ok col (unat off) (unat len)")
  case False
  then show ?thesis using rdy wrap
    by (intro exI [of _ OSD_ERROR] exI [of _ 0] exI [of _ os])
       (simp add: osd_op_write_eq volume_ready_def)
next
  case True
  have "writes (flat g col) (vol_result g col) os buf 0 (unat off) (unat len)
      (osd_op_write simpleOSD_obj_op g col buf len off os)"
    using simple_io.plain.range_writes [OF rdy True buf] True rdy wrap
    by (simp add: osd_op_write_eq volume_ready_def)
  then show ?thesis
    using True rdy volume_step_locks unfolding writes_def
    by (simp add: volume_ready_def slice_def) (metis vol_result_def)
qed

lemma ex_volume_ready: "volume_ready ex_params ex_collection (ex_os\<lparr>os_env := cs\<rparr>)"
  by (simp add: volume_ready_def ex_collection_geometry ex_objects_ok ex_os_def locks_free_def)

text \<open>
  C1: \<open>osd_op_read\<close> refines reading the flat array. Whatever failures and short reads the
  environment produces, it returns and the volume's bytes stay the same. On success the range
  passed the check and the buffer holds exactly that range of the array; on failure the buffer
  holds a prefix of it; a request the check refuses changes nothing at all.
\<close>

theorem osd_op_read_refines_flat:
  assumes "volume_ready g col os" and "unat len \<le> length buf"
    and "unat off + unat len < 18446744073709551616"
  shows "\<exists>r k os'. osd_op_read simpleOSD_obj_op g col buf len off os
        = Some (r, splice_at buf 0 (flat_read (flat g col os) (unat off) k), os')
      \<and> k \<le> unat len \<and> (r = OSD_SUCCESS \<longrightarrow> k = unat len \<and> volume_ready g col os')
      \<and> (\<not> range_ok col (unat off) (unat len) \<longrightarrow> r = OSD_ERROR \<and> k = 0 \<and> os' = os)
      \<and> volume_step g col os os' \<and> flat g col os' = flat g col os"
  using osd_op_read_effect [OF assms] by blast

theorem osd_op_read_refines_flat_witness:
  "\<exists>r k os'. osd_op_read simpleOSD_obj_op ex_params ex_collection [9, 9, 9, 9, 9] 5 2
        (ex_os\<lparr>os_env := [Full, Full, Fail]\<rparr>) = Some (r, zeros k @ replicate (5 - k) 9, os') \<and> k \<le> 5"
proof -
  have "flat ex_params ex_collection (ex_os\<lparr>os_env := [Full, Full, Fail]\<rparr>) = (\<lambda>_. 0)"
    by (simp add: fun_eq_iff flat_def file_byte_def ex_os_simps)
  moreover have "flat_read (\<lambda>_. 0) 2 k = zeros k" for k
    by (rule nth_equalityI) (simp_all add: flat_read_nth)
  moreover have "drop k [9, 9, 9, 9, 9 :: u8] = replicate (5 - k) 9" for k
    using drop_replicate [of k 5 "9 :: u8"] by (simp add: numeral_eq_Suc)
  moreover obtain r k os' where "k \<le> unat (5 :: u64)"
    "osd_op_read simpleOSD_obj_op ex_params ex_collection [9, 9, 9, 9, 9] 5 2
       (ex_os\<lparr>os_env := [Full, Full, Fail]\<rparr>)
     = Some (r, splice_at [9, 9, 9, 9, 9] 0 (flat_read (flat ex_params ex_collection
         (ex_os\<lparr>os_env := [Full, Full, Fail]\<rparr>)) (unat (2 :: u64)) k), os')"
    using osd_op_read_refines_flat [OF ex_volume_ready [of "[Full, Full, Fail]"],
        of 5 "[9, 9, 9, 9, 9]" 2] by auto
  ultimately show ?thesis
    by (intro exI [of _ r] exI [of _ k] exI [of _ os']) (simp add: splice_at_def)
qed

text \<open>
  C2: \<open>osd_op_write\<close> refines writing the flat array: it returns in every environment; on success
  exactly the range is replaced by the buffer's bytes, on failure a prefix of it, and a request
  the check refuses changes nothing.
\<close>

theorem osd_op_write_refines_flat:
  assumes "volume_ready g col os" and "unat len \<le> length buf"
    and "unat off + unat len < 18446744073709551616"
  shows "\<exists>r k os'. osd_op_write simpleOSD_obj_op g col buf len off os = Some (r, os')
      \<and> k \<le> unat len \<and> (r = OSD_SUCCESS \<longrightarrow> k = unat len \<and> volume_ready g col os')
      \<and> (\<not> range_ok col (unat off) (unat len) \<longrightarrow> r = OSD_ERROR \<and> k = 0 \<and> os' = os)
      \<and> volume_step g col os os'
      \<and> flat g col os' = flat_write (flat g col os) (unat off) (take k buf)"
  using osd_op_write_effect [OF assms] by blast

theorem osd_op_write_refines_flat_witness:
  "\<exists>r k os'. osd_op_write simpleOSD_obj_op ex_params ex_collection [1, 2, 3, 4, 5] 5 2
        (ex_os\<lparr>os_env := [Short 0, Full, Fail]\<rparr>) = Some (r, os') \<and> k \<le> 5
     \<and> flat ex_params ex_collection os' = flat_write (\<lambda>_. 0) 2 (take k [1, 2, 3, 4, 5])"
proof -
  have "flat ex_params ex_collection (ex_os\<lparr>os_env := [Short 0, Full, Fail]\<rparr>) = (\<lambda>_. 0)"
    by (simp add: fun_eq_iff flat_def file_byte_def ex_os_simps)
  then show ?thesis
    using osd_op_write_refines_flat [OF ex_volume_ready [of "[Short 0, Full, Fail]"],
        of 5 "[1, 2, 3, 4, 5]" 2] by fastforce
qed

section \<open>Read after write\<close>

lemma ex_volume_flat: "flat ex_params ex_collection (ex_os\<lparr>os_env := cs\<rparr>) = (\<lambda>_. 0)"
  by (simp add: fun_eq_iff flat_def file_byte_def ex_os_def)

text \<open>
  After a successful write, a read of the same range returns in every environment and leaves
  the written bytes readable; when it succeeds the buffer holds exactly what was written, also
  when the range spans several objects and when the objects did not exist before.
\<close>

theorem osd_read_after_write:
  assumes "volume_ready g col os" and "unat len \<le> length buf" and "unat len \<le> length buf2"
    and "unat off + unat len < 18446744073709551616"
    and "osd_op_write simpleOSD_obj_op g col buf len off os = Some (OSD_SUCCESS, os1)"
  shows "\<exists>r out os2. osd_op_read simpleOSD_obj_op g col buf2 len off os1 = Some (r, out, os2)
      \<and> (r = OSD_SUCCESS \<longrightarrow> take (unat len) out = take (unat len) buf)
      \<and> flat_read (flat g col os2) (unat off) (unat len) = take (unat len) buf"
proof -
  have rdy: "volume_ready g col os1"
    and fl: "flat g col os1 = flat_write (flat g col os) (unat off) (take (unat len) buf)"
    using osd_op_write_effect [OF assms(1,2,4)] assms(5) by auto
  have readback: "flat_read (flat g col os1) (unat off) (unat len) = take (unat len) buf"
    using flat_read_write [of "flat g col os" "unat off" "take (unat len) buf"] assms(2)
    by (simp add: fl)
  obtain r k os2 where
    "osd_op_read simpleOSD_obj_op g col buf2 len off os1
       = Some (r, splice_at buf2 0 (flat_read (flat g col os1) (unat off) k), os2)"
    "r = OSD_SUCCESS \<longrightarrow> k = unat len" "flat g col os2 = flat g col os1"
    using osd_op_read_effect [OF rdy assms(3,4)] by blast
  with readback show ?thesis by (auto simp: splice_at_def)
qed

section \<open>Volumes do not interfere\<close>

lemma volume_step_other:
  assumes "volume_step g col os os'" and "geometry_ok g col" and "geometry_ok g col2"
    and "oc_name col2 \<noteq> oc_name col"
  shows "flat g col2 os' = flat g col2 os" "objects_ok g col2 os' = objects_ok g col2 os"
proof -
  have "obj_file g col2 i \<notin> range (obj_file g col)" for i
    using assms(2-4) by (auto simp: obj_file_def geometry_ok_def dc_data_path_inject)
  with assms(1) have same: "os_files os' (obj_file g col2 i) = os_files os (obj_file g col2 i)" for i
    by (simp add: volume_step_def)
  then show "flat g col2 os' = flat g col2 os"
    by (simp add: fun_eq_iff flat_def file_byte_def)
  show "objects_ok g col2 os' = objects_ok g col2 os"
    by (simp add: objects_ok_def same)
qed

text \<open>
  C27: Volumes are isolated: whatever a write to one volume does, successful or not, the bytes of
  a volume of another name stay as they are, and it stays ready for use.
\<close>

theorem osd_write_isolates_volumes:
  assumes "volume_ready g col os" and "unat len \<le> length buf"
    and "unat off + unat len < 18446744073709551616"
    and "volume_ready g col2 os" and "oc_name col2 \<noteq> oc_name col"
    and "osd_op_write simpleOSD_obj_op g col buf len off os = Some (r, os')"
  shows "flat g col2 os' = flat g col2 os \<and> volume_ready g col2 os'"
proof -
  have vs: "volume_step g col os os'"
    using osd_op_write_effect [OF assms(1-3)] assms(6) by auto
  have geo: "geometry_ok g col" "geometry_ok g col2"
    using assms(1,4) by (simp_all add: volume_ready_def)
  show ?thesis
    using volume_step_other [OF vs geo assms(5)] volume_step_locks [OF vs] assms(4)
    by (simp add: volume_ready_def)
qed

definition ex_collection2 :: osd_collection where
  "ex_collection2 = ex_collection\<lparr>oc_name := ''wol''\<rparr>"

lemma ex_collection2_ready: "volume_ready ex_params ex_collection2 (ex_os\<lparr>os_env := cs\<rparr>)"
  using ex_volume_ready [of cs]
  by (simp add: volume_ready_def geometry_ok_def ex_collection2_def ex_objects_ok ex_os_simps
      capacity_def path_fits_def) (simp add: ex_collection_def MAXNAMESIZE_def)

theorem osd_write_isolates_volumes_witness:
  "\<exists>r os'. osd_op_write simpleOSD_obj_op ex_params ex_collection [1, 2, 3, 4, 5] 5 2
        (ex_os\<lparr>os_env := [Full, Short 1]\<rparr>) = Some (r, os')
     \<and> volume_ready ex_params ex_collection2 os'"
proof -
  obtain r os' where run: "osd_op_write simpleOSD_obj_op ex_params ex_collection [1, 2, 3, 4, 5] 5 2
        (ex_os\<lparr>os_env := [Full, Short 1]\<rparr>) = Some (r, os')"
    using osd_op_write_effect [OF ex_volume_ready [of "[Full, Short 1]"],
        of 5 "[1, 2, 3, 4, 5]" 2] by auto
  have "oc_name ex_collection2 \<noteq> oc_name ex_collection"
    by (simp add: ex_collection2_def ex_collection_def)
  from osd_write_isolates_volumes [OF ex_volume_ready _ _ ex_collection2_ready this run] run
  show ?thesis by auto
qed

section \<open>Progress\<close>

definition ex_live_os :: os where
  "ex_live_os = ex_os\<lparr>os_files := (\<lambda>_. Some (zeros 4))\<rparr>"

lemma ex_live: "volume_ready ex_params ex_collection ex_live_os"
    "vol_live ex_params ex_collection ex_live_os"
  by (simp_all add: volume_ready_def ex_collection_geometry objects_ok_def ex_live_os_def
      ex_os_def locks_free_def vol_live_def no_faults_def free_fd_def)

lemma ex_live_flat: "flat ex_params ex_collection ex_live_os = (\<lambda>_. 0)"
  by (simp add: fun_eq_iff flat_def file_byte_def ex_live_os_def)

lemma ex_range: "range_ok ex_collection 2 5"
  by (simp add: range_ok_def)

text \<open>
  C21: On a volume whose objects exist, with no failures to come and a free descriptor above 3, an
  accepted request succeeds, short transfers or not: the read delivers the whole range, the write
  stores it, and the descriptor table is afterwards exactly what it was, so the volume stays live.
\<close>

theorem osd_op_progress:
  assumes "volume_ready g col os" and "vol_live g col os" and "unat len \<le> length buf"
    and "unat off + unat len < 18446744073709551616" and "range_ok col (unat off) (unat len)"
  shows "(\<exists>os'. osd_op_read simpleOSD_obj_op g col buf len off os
          = Some (OSD_SUCCESS, splice_at buf 0 (flat_read (flat g col os) (unat off) (unat len)), os')
        \<and> vol_live g col os' \<and> os_fds os' = os_fds os)
    \<and> (\<exists>os'. osd_op_write simpleOSD_obj_op g col buf len off os = Some (OSD_SUCCESS, os')
        \<and> flat g col os' = flat_write (flat g col os) (unat off) (take (unat len) buf)
        \<and> vol_live g col os' \<and> os_fds os' = os_fds os)"
  using osd_op_read_effect [OF assms(1,3,4)] osd_op_write_effect [OF assms(1,3,4)] assms(2,5)
  by (auto simp: vol_result_def)

theorem osd_op_progress_witness:
  "\<exists>os'. osd_op_write simpleOSD_obj_op ex_params ex_collection [1, 2, 3, 4, 5] 5 2 ex_live_os
        = Some (OSD_SUCCESS, os') \<and> os_fds os' = os_fds ex_os
      \<and> flat ex_params ex_collection os' = flat_write (\<lambda>_. 0) 2 [1, 2, 3, 4, 5]"
  using osd_op_progress [OF ex_live, of 5 "[1, 2, 3, 4, 5]" 2] ex_range
  by (auto simp: ex_live_flat) (simp add: ex_live_os_def)

theorem osd_read_after_write_witness:
  "\<exists>os1 r out os2. osd_op_write simpleOSD_obj_op ex_params ex_collection [1, 2, 3, 4, 5] 5 2 ex_live_os
        = Some (OSD_SUCCESS, os1)
      \<and> osd_op_read simpleOSD_obj_op ex_params ex_collection [9, 9, 9, 9, 9] 5 2 os1 = Some (r, out, os2)
      \<and> flat_read (flat ex_params ex_collection os2) 2 5 = [1, 2, 3, 4, 5]"
proof -
  obtain os1 where run: "osd_op_write simpleOSD_obj_op ex_params ex_collection [1, 2, 3, 4, 5] 5 2
      ex_live_os = Some (OSD_SUCCESS, os1)"
    using osd_op_write_effect [OF ex_live(1), of 5 "[1, 2, 3, 4, 5]" 2] ex_live(2) ex_range
    by (auto simp: vol_result_def)
  show ?thesis
    using osd_read_after_write [OF ex_live(1) _ _ _ run, of "[9, 9, 9, 9, 9]"] run by auto
qed

section \<open>Requests the layer gets wrong\<close>

text \<open>
  C40: A request that crosses an object boundary and ends exactly at the end of the volume is
  refused, although every byte of it lies inside: the check asks whether the offset just past the
  request is an offset of the volume.
\<close>

theorem osd_range_to_end_refused:
  assumes "geometry_ok g col" and "unat off < capacity col"
    and "unat off + unat len = capacity col" and "osz col < unat off mod osz col + unat len"
  shows "osd_op_read ops g col buf len off os = Some (OSD_ERROR, buf, os)
       \<and> osd_op_write ops g col buf len off os = Some (OSD_ERROR, os)"
proof -
  have "unat off + unat len < 18446744073709551616"
    using assms(1,3) by (simp add: geometry_ok_def)
  then show ?thesis
    using assms by (simp add: osd_op_read_eq osd_op_write_eq range_ok_def)
qed

theorem osd_range_to_end_refused_witness:
  "osd_op_write simpleOSD_obj_op ex_params ex_collection (zeros 6) 6 6 ex_live_os
     = Some (OSD_ERROR, ex_live_os)"
  using osd_range_to_end_refused [OF ex_collection_geometry, of 6 6] by simp

text \<open>
  A collection whose object size is 0 makes every request of any length and offset succeed
  without moving a byte.
\<close>

theorem osd_op_zero_object_size:
  assumes "oc_object_size col = 0"
  shows "osd_op_read ops g col buf len off os = Some (OSD_SUCCESS, buf, os)
       \<and> osd_op_write ops g col buf len off os = Some (OSD_SUCCESS, os)"
  using assms by (simp add: osd_op_read_def osd_op_write_def osd_offset_to_object_def)

theorem osd_op_zero_object_size_witness:
  "osd_op_write simpleOSD_obj_op ex_params (ex_collection\<lparr>oc_object_size := 0\<rparr>) (zeros 6) 6 100 ex_os
     = Some (OSD_SUCCESS, ex_os)"
  using osd_op_zero_object_size [of "ex_collection\<lparr>oc_object_size := 0\<rparr>"] by simp

text \<open>
  C39: An object file shorter than the object makes reads hang: a read inside one object that
  reaches past the end of its file never returns. A fetch whose \<open>fallocate\<close> failed leaves exactly
  such a file, of length 0.
\<close>

theorem osd_read_short_object_hangs:
  assumes "geometry_ok g col" and "no_faults os" and "free_fd os \<noteq> None"
    and "os_files os (obj_file g col (unat off div osz col)) = Some b"
    and "unat off < capacity col" and "unat off mod osz col \<le> length b"
    and "length b < unat off mod osz col + unat len" and "unat off mod osz col + unat len \<le> osz col"
  shows "osd_op_read simpleOSD_obj_op g col buf len off os = None"
proof -
  define i where "i = unat off div osz col"
  obtain fd where fd: "free_fd os = Some fd" using assms(3) by auto
  define obj where "obj = (opened_attr col i os)\<lparr>oa_file_fd := int fd\<rparr>"
  define os1 where "os1 = (adv (adv os))\<lparr>os_fds := (os_fds os)
      (fd \<mapsto> \<lparr>of_path = obj_file g col i, of_flags = oc_io_flag col\<rparr>)\<rparr>"
  have sz: "osz col < 9223372036854775808" and cap: "capacity col < 18446744073709551616"
    using assms(1) by (simp_all add: geometry_ok_def)
  have r: "range_ok col (unat off) (unat len)" using assms(5,8) by (simp add: range_ok_def)
  have wrap: "unat off + unat len < 18446744073709551616"
    using range_ok_inside(1) [OF r] cap by simp
  note loc = unat_local_offset [OF r]
  have ne: "len \<noteq> 0" using assms(6,7) by auto
  have op: "obj_open os1 obj (obj_file g col i) b"
    using assms sz by (simp add: obj_open_def os1_def obj_def geometry_ok_def flip: i_def)
  have n: "piece_len (oc_object_size col) len 0 (of_nat (unat off mod osz col)) = len"
    using unat_piece_len [of 0 len "of_nat (unat off mod osz col)" "oc_object_size col"] assms(8)
    by (simp add: loc word_unat_eq_iff)
  have "simpleOSD_obj_read obj buf (unat (0 :: u64)) len (of_nat (unat off mod osz col)) os1 = None"
    by (rule obj_read_past_eof [OF op]) (use assms sz in \<open>simp_all add: loc os1_def\<close>)
  then show ?thesis
    using assms(2,4) recache_object_live [OF assms(1,2), of i fd] fd ne
    by (simp add: osd_op_read_eq [OF assms(1) wrap] r osd_read_loop.simps n simpleOSD_obj_op_def
        flip: i_def os1_def obj_def)
qed

theorem osd_read_short_object_hangs_witness:
  "osd_op_read simpleOSD_obj_op ex_params ex_collection [9, 9] 2 5
     (ex_os\<lparr>os_files := (\<lambda>_. Some [1])\<rparr>) = None"
proof (rule osd_read_short_object_hangs [OF ex_collection_geometry, where b = "[1]"])
  show "free_fd (ex_os\<lparr>os_files := (\<lambda>_. Some [1])\<rparr>) \<noteq> None"
    by (simp add: free_fd_def ex_os_def)
qed (simp_all add: ex_os_simps)

end
