(* ===== verification/Blk_Io.thy ===== *)
theory Blk_Io
  imports Lun_Table Volume
begin

text \<open>
  Block input and output on an open LUN: src/simpleOSD_io_op.c. A LUN index is looked up in the
  table, and the request is handed to the object layer's table \<open>osd_op_func\<close>, which is an argument
  here. \<open>SUPPORT_UNFORMATTED_DISK\<close> is on (include/simpleOSD_generic.h defines it as \<open>TRUE\<close>): a LUN
  on which nothing has been written since it was opened answers reads with success and leaves
  the buffer alone.
\<close>

section \<open>Operations\<close>

text \<open>\<open>p_read_in\<close> and \<open>p_read_out\<close> point to two argument blocks; the data goes to the second.\<close>

definition simpleOSD_blk_read ::
    "osd_helper_func \<Rightarrow> blk_frontend_parameters \<Rightarrow> blk_io_args \<Rightarrow> blk_io_args \<Rightarrow> bs_state \<Rightarrow> os
       \<Rightarrow> (BLK_IO_RETURN \<times> blk_io_args \<times> bs_state \<times> os) c_result" where
  "simpleOSD_blk_read tbl g p_in p_out st os =
     c_bind (lun_slot st (ba_lun_index p_in)) (\<lambda>p.
       if VAL_POINTER p = 0 then Returns (BLK_IO_ERROR, p_out, st, os)
       else c_bind (deref_lun st (VAL_POINTER p)) (\<lambda>lun.
         if ol_is_fs_done lun = FALSE then Returns (BLK_IO_SUCCESS, p_out, st, os)
         else c_bind (of_run (osd_pfn_offset_read tbl g (ol_collection lun) (ba_buf p_out)
                                (ba_buf_len p_in) (ba_offset p_in) os))
           (\<lambda>(r, buf, os1).
              Returns (if r \<noteq> OSD_SUCCESS then BLK_IO_ERROR else BLK_IO_SUCCESS,
                       p_out\<lparr>ba_buf := buf\<rparr>, st, os1))))"

definition simpleOSD_blk_write ::
    "osd_helper_func \<Rightarrow> blk_frontend_parameters \<Rightarrow> blk_io_args \<Rightarrow> blk_io_args \<Rightarrow> bs_state \<Rightarrow> os
       \<Rightarrow> (BLK_IO_RETURN \<times> blk_io_args \<times> bs_state \<times> os) c_result" where
  "simpleOSD_blk_write tbl g p_in p_out st os =
     c_bind (lun_slot st (ba_lun_index p_in)) (\<lambda>p.
       if VAL_POINTER p = 0 then Returns (BLK_IO_ERROR, p_out, st, os)
       else c_bind (deref_lun st (VAL_POINTER p)) (\<lambda>lun.
         let st1 = (if ol_is_fs_done lun = FALSE
                    then store_lun st (VAL_POINTER p) (lun\<lparr>ol_is_fs_done := TRUE\<rparr>) else st)
         in c_bind (of_run (osd_pfn_offset_write tbl g (ol_collection lun) (ba_buf p_in)
                              (ba_buf_len p_in) (ba_offset p_in) os))
           (\<lambda>(r, os1).
              Returns (if r \<noteq> OSD_SUCCESS then BLK_IO_ERROR else BLK_IO_SUCCESS, p_out, st1, os1))))"

definition simpleOSD_blk_datasync ::
    "blk_io_args \<Rightarrow> blk_io_args \<Rightarrow> bs_state \<Rightarrow> os
       \<Rightarrow> (BLK_IO_RETURN \<times> blk_io_args \<times> bs_state \<times> os) c_result" where
  "simpleOSD_blk_datasync p_in p_out st os = Returns (BLK_IO_SUCCESS, p_out, st, os)"

definition simpleOSD_blk_unmap_file_region ::
    "blk_io_args \<Rightarrow> blk_io_args \<Rightarrow> bs_state \<Rightarrow> os
       \<Rightarrow> (BLK_IO_RETURN \<times> blk_io_args \<times> bs_state \<times> os) c_result" where
  "simpleOSD_blk_unmap_file_region p_in p_out st os = Returns (BLK_IO_SUCCESS, p_out, st, os)"

definition simpleOSD_blk_posix_advise ::
    "blk_io_args \<Rightarrow> blk_io_args \<Rightarrow> bs_state \<Rightarrow> os
       \<Rightarrow> (BLK_IO_RETURN \<times> blk_io_args \<times> bs_state \<times> os) c_result" where
  "simpleOSD_blk_posix_advise p_in p_out st os = Returns (BLK_IO_SUCCESS, p_out, st, os)"

type_synonym blk_fn = "blk_io_args \<Rightarrow> blk_io_args \<Rightarrow> bs_state \<Rightarrow> os
       \<Rightarrow> (BLK_IO_RETURN \<times> blk_io_args \<times> bs_state \<times> os) c_result"

record blk_io_op =
  blk_pfn_read64 :: blk_fn
  blk_pfn_write64 :: blk_fn
  blk_pfn_posix_advise :: blk_fn
  blk_pfn_unmap_file_region :: blk_fn
  blk_pfn_data_sync :: blk_fn

text \<open>\<open>simpleOSD_blk_op\<close> after its constructor function.\<close>

definition simpleOSD_blk_op :: "osd_helper_func \<Rightarrow> blk_frontend_parameters \<Rightarrow> blk_io_op" where
  "simpleOSD_blk_op tbl g = \<lparr>blk_pfn_read64 = simpleOSD_blk_read tbl g,
     blk_pfn_write64 = simpleOSD_blk_write tbl g,
     blk_pfn_posix_advise = simpleOSD_blk_posix_advise,
     blk_pfn_unmap_file_region = simpleOSD_blk_unmap_file_region,
     blk_pfn_data_sync = simpleOSD_blk_datasync\<rparr>"

section \<open>The interface of the object layer\<close>

text \<open>
  What block input and output relies on: the promise of the object layer's table, on volumes that
  are ready, for requests whose buffer is long enough and whose end does not wrap around.
\<close>

definition request_ok :: "bytes \<Rightarrow> u64 \<Rightarrow> u64 \<Rightarrow> bool" where
  "request_ok buf len off \<longleftrightarrow>
     unat len \<le> length buf \<and> unat off + unat len < 18446744073709551616"

locale volume_io =
  fixes tbl :: osd_helper_func
  assumes volume_read:
    "volume_ready g col os \<Longrightarrow> request_ok buf len off \<Longrightarrow>
     \<exists>r k os'. osd_pfn_offset_read tbl g col buf len off os
         = Some (r, splice_at buf 0 (flat_read (flat g col os) (unat off) k), os')
       \<and> k \<le> unat len \<and> (r = OSD_SUCCESS \<longrightarrow> k = unat len \<and> volume_ready g col os')
       \<and> volume_step g col os os' \<and> flat g col os' = flat g col os
       \<and> (vol_live g col os \<and> range_ok col (unat off) (unat len) \<longrightarrow>
            r = OSD_SUCCESS \<and> vol_live g col os' \<and> os_fds os' = os_fds os)"
  and volume_write:
    "volume_ready g col os \<Longrightarrow> request_ok buf len off \<Longrightarrow>
     \<exists>r k os'. osd_pfn_offset_write tbl g col buf len off os = Some (r, os')
       \<and> k \<le> unat len \<and> (r = OSD_SUCCESS \<longrightarrow> k = unat len \<and> volume_ready g col os')
       \<and> volume_step g col os os'
       \<and> flat g col os' = flat_write (flat g col os) (unat off) (take k buf)
       \<and> (vol_live g col os \<and> range_ok col (unat off) (unat len) \<longrightarrow>
            r = OSD_SUCCESS \<and> vol_live g col os' \<and> os_fds os' = os_fds os)"

interpretation osd_table: volume_io osd_op_func
proof
  fix g col os buf and len off :: u64
  assume a: "volume_ready g col os" and b: "request_ok buf len off"
  then have c: "unat len \<le> length buf" "unat off + unat len < 18446744073709551616"
    by (simp_all add: request_ok_def)
  show "\<exists>r k os'. osd_pfn_offset_read osd_op_func g col buf len off os
         = Some (r, splice_at buf 0 (flat_read (flat g col os) (unat off) k), os')
       \<and> k \<le> unat len \<and> (r = OSD_SUCCESS \<longrightarrow> k = unat len \<and> volume_ready g col os')
       \<and> volume_step g col os os' \<and> flat g col os' = flat g col os
       \<and> (vol_live g col os \<and> range_ok col (unat off) (unat len) \<longrightarrow>
            r = OSD_SUCCESS \<and> vol_live g col os' \<and> os_fds os' = os_fds os)"
    using osd_op_read_effect [OF a c] by (auto simp: osd_op_func_def vol_result_def)
  show "\<exists>r k os'. osd_pfn_offset_write osd_op_func g col buf len off os = Some (r, os')
       \<and> k \<le> unat len \<and> (r = OSD_SUCCESS \<longrightarrow> k = unat len \<and> volume_ready g col os')
       \<and> volume_step g col os os'
       \<and> flat g col os' = flat_write (flat g col os) (unat off) (take k buf)
       \<and> (vol_live g col os \<and> range_ok col (unat off) (unat len) \<longrightarrow>
            r = OSD_SUCCESS \<and> vol_live g col os' \<and> os_fds os' = os_fds os)"
    using osd_op_write_effect [OF a c] by (auto simp: osd_op_func_def vol_result_def)
qed

section \<open>Requests on a LUN\<close>

text \<open>The LUN a slot points to.\<close>

definition lun_at :: "bs_state \<Rightarrow> i32 \<Rightarrow> osd_lun option" where
  "lun_at st i = (case lun_slot st i of
       Returns p \<Rightarrow> if VAL_POINTER p = 0 then None else bs_heap st (VAL_POINTER p)
     | _ \<Rightarrow> None)"

lemma lun_at_SomeE:
  assumes "lun_at st i = Some lun"
  obtains p where "lun_slot st i = Returns p" "VAL_POINTER p \<noteq> 0"
    "deref_lun st (VAL_POINTER p) = Returns lun" "bs_heap st (VAL_POINTER p) = Some lun"
  using assms by (auto simp: lun_at_def deref_lun_def split: c_result.splits if_splits)

lemma lun_slot_store [simp]: "lun_slot (store_lun st a l) i = lun_slot st i"
  by (simp add: lun_slot_def store_lun_def)

text \<open>The mark a write leaves on the LUN.\<close>

definition mark_fs :: "osd_lun \<Rightarrow> osd_lun" where
  "mark_fs lun = (if ol_is_fs_done lun = FALSE then lun\<lparr>ol_is_fs_done := TRUE\<rparr> else lun)"

lemma mark_fs_simps [simp]:
  "ol_collection (mark_fs lun) = ol_collection lun" "ol_is_fs_done (mark_fs lun) \<noteq> FALSE"
  by (simp_all add: mark_fs_def FALSE_def TRUE_def)

text \<open>The table with the mark left on the LUN of a slot.\<close>

definition mark_lun :: "bs_state \<Rightarrow> i32 \<Rightarrow> bs_state" where
  "mark_lun st i = (case lun_slot st i of
       Returns p \<Rightarrow> (case bs_heap st (VAL_POINTER p) of
           Some lun \<Rightarrow> if ol_is_fs_done lun = FALSE then store_lun st (VAL_POINTER p) (mark_fs lun)
                       else st
         | None \<Rightarrow> st)
     | _ \<Rightarrow> st)"

lemma lun_at_mark_lun: "lun_at st i = Some lun \<Longrightarrow> lun_at (mark_lun st i) i = Some (mark_fs lun)"
  by (erule lun_at_SomeE) (simp add: lun_at_def mark_lun_def mark_fs_def store_lun_def lun_slot_def
      split: if_splits)

lemma mark_lun_slots [simp]: "bs_lun_list (mark_lun st i) = bs_lun_list st"
  by (simp add: mark_lun_def store_lun_def split: c_result.split option.split)

lemma bs_ok_mark_lun: "bs_ok st \<Longrightarrow> bs_ok (mark_lun st i)"
  by (auto simp: mark_lun_def bs_ok_store split: c_result.split option.split)

lemma blk_read_unformatted:
  assumes "lun_at st (ba_lun_index p_in) = Some lun" and "ol_is_fs_done lun = FALSE"
  shows "simpleOSD_blk_read tbl g p_in p_out st os = Returns (BLK_IO_SUCCESS, p_out, st, os)"
  using assms by (auto elim!: lun_at_SomeE simp: simpleOSD_blk_read_def)

context volume_io
begin

lemma blk_read_effect:
  assumes "lun_at st (ba_lun_index p_in) = Some lun" and "ol_is_fs_done lun \<noteq> FALSE"
    and "volume_ready g (ol_collection lun) os"
    and "request_ok (ba_buf p_out) (ba_buf_len p_in) (ba_offset p_in)"
  defines "col \<equiv> ol_collection lun" and "off \<equiv> unat (ba_offset p_in)"
    and "len \<equiv> unat (ba_buf_len p_in)"
  shows "\<exists>r k os'. simpleOSD_blk_read tbl g p_in p_out st os
      = Returns (r, p_out\<lparr>ba_buf := splice_at (ba_buf p_out) 0
           (flat_read (flat g col os) off k)\<rparr>, st, os')
    \<and> k \<le> len \<and> (r = BLK_IO_SUCCESS \<longrightarrow> k = len \<and> volume_ready g col os')
    \<and> volume_step g col os os' \<and> flat g col os' = flat g col os
    \<and> (vol_live g col os \<and> range_ok col off len \<longrightarrow>
         r = BLK_IO_SUCCESS \<and> vol_live g col os' \<and> os_fds os' = os_fds os)"
proof -
  obtain r k os' where run: "osd_pfn_offset_read tbl g col (ba_buf p_out) (ba_buf_len p_in)
        (ba_offset p_in) os
      = Some (r, splice_at (ba_buf p_out) 0 (flat_read (flat g col os) off k), os')"
    and rest: "k \<le> len" "r = OSD_SUCCESS \<longrightarrow> k = len \<and> volume_ready g col os'"
      "volume_step g col os os'" "flat g col os' = flat g col os"
      "vol_live g col os \<and> range_ok col off len \<longrightarrow>
         r = OSD_SUCCESS \<and> vol_live g col os' \<and> os_fds os' = os_fds os"
    using volume_read [OF assms(3,4)] unfolding col_def off_def len_def by blast
  show ?thesis
    using assms(1,2) run rest
    by (intro exI [of _ "if r \<noteq> OSD_SUCCESS then BLK_IO_ERROR else BLK_IO_SUCCESS"]
        exI [of _ k] exI [of _ os'])
       (auto elim!: lun_at_SomeE simp: simpleOSD_blk_read_def col_def)
qed

lemma blk_write_effect:
  assumes "lun_at st (ba_lun_index p_in) = Some lun"
    and "volume_ready g (ol_collection lun) os"
    and "request_ok (ba_buf p_in) (ba_buf_len p_in) (ba_offset p_in)"
  defines "col \<equiv> ol_collection lun" and "off \<equiv> unat (ba_offset p_in)"
    and "len \<equiv> unat (ba_buf_len p_in)"
  shows "\<exists>r k os'. simpleOSD_blk_write tbl g p_in p_out st os
      = Returns (r, p_out, mark_lun st (ba_lun_index p_in), os')
    \<and> k \<le> len \<and> (r = BLK_IO_SUCCESS \<longrightarrow> k = len \<and> volume_ready g col os')
    \<and> volume_step g col os os'
    \<and> flat g col os' = flat_write (flat g col os) off (take k (ba_buf p_in))
    \<and> (vol_live g col os \<and> range_ok col off len \<longrightarrow>
         r = BLK_IO_SUCCESS \<and> vol_live g col os' \<and> os_fds os' = os_fds os)"
proof -
  obtain r k os' where run: "osd_pfn_offset_write tbl g col (ba_buf p_in) (ba_buf_len p_in)
        (ba_offset p_in) os = Some (r, os')"
    and rest: "k \<le> len" "r = OSD_SUCCESS \<longrightarrow> k = len \<and> volume_ready g col os'"
      "volume_step g col os os'"
      "flat g col os' = flat_write (flat g col os) off (take k (ba_buf p_in))"
      "vol_live g col os \<and> range_ok col off len \<longrightarrow>
         r = OSD_SUCCESS \<and> vol_live g col os' \<and> os_fds os' = os_fds os"
    using volume_write [OF assms(2,3)] unfolding col_def off_def len_def by blast
  show ?thesis
    using assms(1) run rest
    by (intro exI [of _ "if r \<noteq> OSD_SUCCESS then BLK_IO_ERROR else BLK_IO_SUCCESS"]
        exI [of _ k] exI [of _ os'])
       (auto elim!: lun_at_SomeE simp: simpleOSD_blk_write_def col_def mark_lun_def mark_fs_def)
qed

end

end
