(* ===== verification/Bs.thy ===== *)
theory Bs
  imports Blk_Io
begin

text \<open>
  The backing store interface, src/simpleOSD_bs.c: opening and closing LUNs in the table of twenty
  slots, and the read, write and sync calls on a LUN index. The source of the volume geometry
  (\<open>mds_db\<close>, see \<open>Mds\<close>) and \<open>INTIAL_OBJECT_CACHE\<close> (\<open>initial_cache\<close>) are build switches and
  arguments here.
\<close>

section \<open>Opening\<close>

definition simpleOSD_get_lun_info ::
    "bool \<Rightarrow> bool \<Rightarrow> blk_frontend_parameters \<Rightarrow> osd_lun \<Rightarrow> os
       \<Rightarrow> (BS_IO_RETURN \<times> osd_lun \<times> os) option" where
  "simpleOSD_get_lun_info mds_db initial_cache g p_lun os =
     (let col = ol_collection p_lun;
          lun_info_in = (zero_mds_args (oc_dp_data col))
             \<lparr>ma_blk_volname := Some (ol_lun_vol p_lun), ma_op_type := MDS_GET,
              ma_mds_datatype := BLK_MDS_VOLNAME\<rparr>;
          lun_info_out = (zero_mds_args (oc_dp_data col))
             \<lparr>ma_mds_datatype := BLK_ENTRY_VOL_META OR BLK_MDS_DP_MAP\<rparr>
      in case mds_get_blk_device_info mds_db g (os_time os) lun_info_in lun_info_out of
           (MDS_HELPER_ERROR, o1) \<Rightarrow>
             Some (BS_IO_ERROR,
                   p_lun\<lparr>ol_collection := col\<lparr>oc_dp_data := ma_dp_data_map o1\<rparr>\<rparr>, os)
         | (MDS_HELPER_SUCCESS, o1) \<Rightarrow>
             let lun1 = p_lun\<lparr>ol_lun_capacity := ma_blk_volSize o1,
                    ol_block_size := ma_blk_blocksize o1, ol_is_fs_done := ma_is_fs_flag o1,
                    ol_collection := col\<lparr>oc_dp_data := ma_dp_data_map o1,
                       oc_nb_objects := ma_blk_nb_objects o1,
                       oc_object_size := ma_blk_objectsize o1,
                       oc_start_object := take MAXOIDLEN (ma_start_oid o1),
                       oc_name := snprintf MAXNAMESIZE (ol_lun_vol p_lun)\<rparr>\<rparr>
             in Option.bind (osd_init_collection initial_cache g (Some lun1) os)
                  (\<lambda>(r, l, os1). Some (if r \<noteq> OSD_SUCCESS then BS_IO_ERROR else BS_IO_SUCCESS,
                       case l of None \<Rightarrow> lun1 | Some lun2 \<Rightarrow> lun2, os1)))"

text \<open>The three outputs: size, block size and LUN index.\<close>

type_synonym lun_out = "u64 \<times> u32 \<times> i32"

text \<open>The \<open>strncpy\<close> of a path of 256 characters or more leaves \<open>lun_vol\<close> without a terminator, and
  the \<open>snprintf\<close> that follows reads past its end.\<close>

definition simpleOSD_lun_open ::
    "bool \<Rightarrow> bool \<Rightarrow> blk_frontend_parameters \<Rightarrow> string \<Rightarrow> u32 \<Rightarrow> lun_out \<Rightarrow> bs_state \<Rightarrow> os
       \<Rightarrow> (BS_IO_RETURN \<times> lun_out \<times> bs_state \<times> os) c_result" where
  "simpleOSD_lun_open mds_db initial_cache g path oflag outs st os =
     (let n = next_free_lun (bs_lun_list st) in
      if n \<ge> NB_MAX_LUN then Returns (BS_IO_ERROR, outs, st, os)
      else
        let (p, st1) = (if bs_lun_list st ! n = 0 then GET_MEMORY st else (bs_lun_list st ! n, st));
            st2 = set_slot st1 n (USE_LUN p);
            a = VAL_POINTER (USE_LUN p)
        in c_bind (deref_lun st2 a) (\<lambda>lun0.
             if length path \<ge> MAXNAMESIZE then Undefined
             else
               let lun1 = lun0\<lparr>ol_lun_vol := path, ol_lun_index := of_nat n, ol_io_flag := oflag,
                     ol_lun_dc_path := snprintf MAXPATHSIZE
                        (''/'' @ bp_dc_path g @ ''/'' @ path @ ''/'')\<rparr>
               in c_bind (of_run (simpleOSD_get_lun_info mds_db initial_cache g lun1 os))
                    (\<lambda>(r, lun2, os1).
                       let st3 = store_lun st2 a lun2 in
                       if r \<noteq> BS_IO_SUCCESS then Returns (BS_IO_ERROR, outs, st3, os1)
                       else Returns (BS_IO_SUCCESS,
                              (ol_lun_capacity lun2, ucast (ol_block_size lun2), of_nat n),
                              st3, os1))))"

section \<open>Closing\<close>

definition simpleOSD_lun_close ::
    "i32 \<Rightarrow> bs_state \<Rightarrow> os \<Rightarrow> (BS_IO_RETURN \<times> bs_state \<times> os) c_result" where
  "simpleOSD_lun_close lun_index st os =
     c_bind (lun_slot st lun_index) (\<lambda>p.
       c_bind (deref_lun st (VAL_POINTER p)) (\<lambda>lun.
         case osd_free_collection lun os of (r, lun1, os1) \<Rightarrow>
           let st1 = store_lun st (VAL_POINTER p) lun1 in
           if r \<noteq> OSD_SUCCESS then Returns (BS_IO_ERROR, st1, os1)
           else Returns (BS_IO_SUCCESS, set_slot st1 (nat (sint lun_index)) (FREE_LUN p), os1)))"

section \<open>Input and output\<close>

definition simpleOSD_read ::
    "blk_io_op \<Rightarrow> i32 \<Rightarrow> bytes \<Rightarrow> u64 \<Rightarrow> u64 \<Rightarrow> bs_state \<Rightarrow> os
       \<Rightarrow> (BS_IO_RETURN \<times> bytes \<times> bs_state \<times> os) c_result" where
  "simpleOSD_read blk lun_fd buf buf_len offset st os =
     (let in_args = \<lparr>ba_lun_index = lun_fd, ba_buf = [], ba_buf_len = buf_len,
                     ba_offset = offset\<rparr>;
          out_args = \<lparr>ba_lun_index = 0, ba_buf = buf, ba_buf_len = 0, ba_offset = 0\<rparr>
      in c_bind (blk_pfn_read64 blk in_args out_args st os) (\<lambda>(r, out_args1, st1, os1).
           Returns (if r \<noteq> BLK_IO_SUCCESS then BS_IO_ERROR else BS_IO_SUCCESS,
                    ba_buf out_args1, st1, os1)))"

text \<open>The unset fields of the argument blocks are indeterminate; \<open>junk\<close> stands for them.\<close>

definition simpleOSD_write ::
    "blk_io_op \<Rightarrow> blk_io_args \<Rightarrow> i32 \<Rightarrow> bytes \<Rightarrow> u64 \<Rightarrow> u64 \<Rightarrow> bs_state \<Rightarrow> os
       \<Rightarrow> (BS_IO_RETURN \<times> bs_state \<times> os) c_result" where
  "simpleOSD_write blk junk lun_fd buf buf_len offset st os =
     (let in_args = junk\<lparr>ba_lun_index := lun_fd, ba_buf_len := buf_len, ba_offset := offset,
                         ba_buf := buf\<rparr>
      in c_bind (blk_pfn_write64 blk in_args junk st os) (\<lambda>(r, out_args1, st1, os1).
           Returns (if r \<noteq> BLK_IO_SUCCESS then BS_IO_ERROR else BS_IO_SUCCESS, st1, os1)))"

definition simpleOSD_datasync ::
    "blk_io_op \<Rightarrow> blk_io_args \<Rightarrow> i32 \<Rightarrow> bs_state \<Rightarrow> os
       \<Rightarrow> (BS_IO_RETURN \<times> bs_state \<times> os) c_result" where
  "simpleOSD_datasync blk junk lun_fd st os =
     c_bind (blk_pfn_data_sync blk (junk\<lparr>ba_lun_index := lun_fd\<rparr>) junk st os)
       (\<lambda>(r, out_args1, st1, os1).
          Returns (if r \<noteq> BLK_IO_SUCCESS then BS_IO_ERROR else BS_IO_SUCCESS, st1, os1))"

definition simpleOSD_unmap_file_region ::
    "i32 \<Rightarrow> u64 \<Rightarrow> u64 \<Rightarrow> bs_state \<Rightarrow> os \<Rightarrow> (BS_IO_RETURN \<times> bs_state \<times> os) c_result" where
  "simpleOSD_unmap_file_region lun_fd offset len st os = Returns (BS_IO_SUCCESS, st, os)"

definition simpleOSD_posix_advise ::
    "i32 \<Rightarrow> u64 \<Rightarrow> u64 \<Rightarrow> i32 \<Rightarrow> bs_state \<Rightarrow> os
       \<Rightarrow> (BS_IO_RETURN \<times> bs_state \<times> os) c_result" where
  "simpleOSD_posix_advise fd offset len advice st os = Returns (BS_IO_SUCCESS, st, os)"

record bs_io_op =
  bs_pfn_read64 :: "i32 \<Rightarrow> bytes \<Rightarrow> u64 \<Rightarrow> u64 \<Rightarrow> bs_state \<Rightarrow> os
       \<Rightarrow> (BS_IO_RETURN \<times> bytes \<times> bs_state \<times> os) c_result"
  bs_pfn_write64 :: "i32 \<Rightarrow> bytes \<Rightarrow> u64 \<Rightarrow> u64 \<Rightarrow> bs_state \<Rightarrow> os
       \<Rightarrow> (BS_IO_RETURN \<times> bs_state \<times> os) c_result"
  bs_pfn_posix_advise :: "i32 \<Rightarrow> u64 \<Rightarrow> u64 \<Rightarrow> i32 \<Rightarrow> bs_state \<Rightarrow> os
       \<Rightarrow> (BS_IO_RETURN \<times> bs_state \<times> os) c_result"
  bs_pfn_unmap_file_region :: "i32 \<Rightarrow> u64 \<Rightarrow> u64 \<Rightarrow> bs_state \<Rightarrow> os
       \<Rightarrow> (BS_IO_RETURN \<times> bs_state \<times> os) c_result"
  bs_pfn_data_sync :: "i32 \<Rightarrow> bs_state \<Rightarrow> os \<Rightarrow> (BS_IO_RETURN \<times> bs_state \<times> os) c_result"
  bs_pfn_open :: "string \<Rightarrow> u32 \<Rightarrow> lun_out \<Rightarrow> bs_state \<Rightarrow> os
       \<Rightarrow> (BS_IO_RETURN \<times> lun_out \<times> bs_state \<times> os) c_result"
  bs_pfn_close :: "i32 \<Rightarrow> bs_state \<Rightarrow> os \<Rightarrow> (BS_IO_RETURN \<times> bs_state \<times> os) c_result"

text \<open>\<open>simpleOSD_bs_op\<close> after its constructor function.\<close>

definition simpleOSD_bs_op ::
    "bool \<Rightarrow> bool \<Rightarrow> blk_frontend_parameters \<Rightarrow> blk_io_args \<Rightarrow> bs_io_op" where
  "simpleOSD_bs_op mds_db initial_cache g junk =
     (let blk = simpleOSD_blk_op osd_op_func g in
      \<lparr>bs_pfn_read64 = simpleOSD_read blk, bs_pfn_write64 = simpleOSD_write blk junk,
       bs_pfn_posix_advise = simpleOSD_posix_advise,
       bs_pfn_unmap_file_region = simpleOSD_unmap_file_region,
       bs_pfn_data_sync = simpleOSD_datasync blk junk,
       bs_pfn_open = simpleOSD_lun_open mds_db initial_cache g,
       bs_pfn_close = simpleOSD_lun_close\<rparr>)"

end
