(* ===== verification/Tgt.thy ===== *)
theory Tgt
  imports Bs
begin

text \<open>
  The SCSI target plugin, tgt_patch/usr/bs_simpleOSD.c: the request handler that turns a SCSI
  command into calls of the backing store table, and the open and close of a logical unit. The
  target framework (tgt) is not part of the repository: what the handler asks of a command
  (\<open>scsi_get_out_length\<close>, \<open>find_mode_page\<close>, the device's attributes) are fields of the command
  record, the command codes and sense codes are datatypes with the framework's names, and
  \<open>malloc\<close> is a parameter that gives a block of the asked length with indeterminate contents, or
  nothing.
\<close>

section \<open>Commands and results\<close>

datatype scsi_op =
    ORWRITE_16 | COMPARE_AND_WRITE | SYNCHRONIZE_CACHE | SYNCHRONIZE_CACHE_16
  | WRITE_VERIFY | WRITE_VERIFY_12 | WRITE_VERIFY_16
  | WRITE_6 | WRITE_10 | WRITE_12 | WRITE_16 | WRITE_SAME | WRITE_SAME_16
  | READ_6 | READ_10 | READ_12 | READ_16 | PRE_FETCH_10 | PRE_FETCH_16
  | VERIFY_10 | VERIFY_12 | VERIFY_16 | UNMAP | OTHER_OP

datatype sam_stat = SAM_STAT_GOOD | SAM_STAT_CHECK_CONDITION

datatype sense_key = NO_SENSE | MEDIUM_ERROR | HARDWARE_ERROR | ILLEGAL_REQUEST | MISCOMPARE

datatype sense_asc = NO_ADDITIONAL_SENSE | ASC_READ_ERROR | ASC_INTERNAL_TGT_FAILURE
  | ASC_INVALID_FIELD_IN_CDB | ASC_MISCOMPARE_DURING_VERIFY_OPERATION | ASC_LBA_OUT_OF_RANGE

record scsi_cmd =
  sc_op :: scsi_op               \<comment> \<open>\<open>scb[0]\<close>\<close>
  sc_flags :: u8                 \<comment> \<open>\<open>scb[1]\<close>\<close>
  sc_fd :: i32                   \<comment> \<open>\<open>dev->fd\<close>\<close>
  sc_offset :: u64
  sc_tl :: u32
  sc_out_length :: u32
  sc_out_buffer :: bytes
  sc_in_length :: u32
  sc_in_buffer :: bytes
  sc_blk_shift :: nat            \<comment> \<open>\<open>dev->blk_shift\<close>\<close>
  sc_dev_size :: u64
  sc_thinprovisioning :: bool
  sc_mode_page_8 :: "u8 option"  \<comment> \<open>\<open>find_mode_page(dev,0x08,0)->mode_data[0]\<close>\<close>

text \<open>The handler's local variables that outlive a step, with the state it acts on.\<close>

record request =
  rq_result :: sam_stat
  rq_key :: sense_key
  rq_asc :: sense_asc
  rq_info :: u32
  rq_cmd :: scsi_cmd
  rq_bs :: bs_state
  rq_os :: os

definition fail_with :: "sense_key \<Rightarrow> sense_asc \<Rightarrow> request \<Rightarrow> request" where
  "fail_with key asc rq =
     rq\<lparr>rq_result := SAM_STAT_CHECK_CONDITION, rq_key := key, rq_asc := asc\<rparr>"

definition set_medium_error :: "request \<Rightarrow> request" where
  "set_medium_error rq = fail_with MEDIUM_ERROR ASC_READ_ERROR rq"

definition internal_failure :: "request \<Rightarrow> request" where
  "internal_failure rq = fail_with HARDWARE_ERROR ASC_INTERNAL_TGT_FAILURE rq"

definition invalid_field :: "request \<Rightarrow> request" where
  "invalid_field rq = fail_with ILLEGAL_REQUEST ASC_INVALID_FIELD_IN_CDB rq"

definition flag :: "request \<Rightarrow> u8 \<Rightarrow> bool" where
  "flag rq b \<longleftrightarrow> sc_flags (rq_cmd rq) AND b \<noteq> 0"

type_synonym malloc = "u32 \<Rightarrow> bytes option"

section \<open>Calls of the backing store\<close>

definition bs_sync_sync_range :: "bs_io_op \<Rightarrow> request \<Rightarrow> request c_result" where
  "bs_sync_sync_range tbl rq =
     c_bind (bs_pfn_data_sync tbl (sc_fd (rq_cmd rq)) (rq_bs rq) (rq_os rq)) (\<lambda>(ret, st, os).
       let rq1 = rq\<lparr>rq_bs := st, rq_os := os\<rparr>
       in Returns (if ret \<noteq> BS_IO_SUCCESS then set_medium_error rq1 else rq1))"

text \<open>
  The repeated \<open>if(pfn(...)) ret=-1; else ret=length;\<close> followed by \<open>ret != length\<close>: the flag that
  comes back says whether the two are equal. The comparison is of 32 bit values, so an error is
  taken for success when the length is \<open>0xffffffff\<close>.
\<close>

definition ret_is_length :: "BS_IO_RETURN \<Rightarrow> u32 \<Rightarrow> bool" where
  "ret_is_length r len \<longleftrightarrow> (if r \<noteq> BS_IO_SUCCESS then (-1 :: u32) else len) = len"

definition rq_read ::
    "bs_io_op \<Rightarrow> bytes \<Rightarrow> u32 \<Rightarrow> u64 \<Rightarrow> request \<Rightarrow> (bool \<times> bytes \<times> request) c_result" where
  "rq_read tbl buf len offset rq =
     c_bind (bs_pfn_read64 tbl (sc_fd (rq_cmd rq)) buf (ucast len) offset (rq_bs rq) (rq_os rq))
       (\<lambda>(r, buf1, st, os).
          Returns (ret_is_length r len, buf1, rq\<lparr>rq_bs := st, rq_os := os\<rparr>))"

definition rq_write ::
    "bs_io_op \<Rightarrow> bytes \<Rightarrow> u32 \<Rightarrow> u64 \<Rightarrow> request \<Rightarrow> (bool \<times> request) c_result" where
  "rq_write tbl buf len offset rq =
     c_bind (bs_pfn_write64 tbl (sc_fd (rq_cmd rq)) buf (ucast len) offset (rq_bs rq) (rq_os rq))
       (\<lambda>(r, st, os). Returns (ret_is_length r len, rq\<lparr>rq_bs := st, rq_os := os\<rparr>))"

text \<open>\<open>pfn_posix_advise\<close>, whose result only \<open>PRE_FETCH\<close> looks at.\<close>

definition POSIX_FADV_WILLNEED :: i32 where "POSIX_FADV_WILLNEED = 3"
definition POSIX_FADV_NOREUSE :: i32 where "POSIX_FADV_NOREUSE = 5"

definition rq_advise ::
    "bs_io_op \<Rightarrow> u64 \<Rightarrow> u32 \<Rightarrow> i32 \<Rightarrow> request \<Rightarrow> (BS_IO_RETURN \<times> request) c_result" where
  "rq_advise tbl offset len advice rq =
     c_bind (bs_pfn_posix_advise tbl (sc_fd (rq_cmd rq)) offset (ucast len) advice
               (rq_bs rq) (rq_os rq))
       (\<lambda>(r, st, os). Returns (r, rq\<lparr>rq_bs := st, rq_os := os\<rparr>))"

definition advise_noreuse :: "bs_io_op \<Rightarrow> bool \<Rightarrow> u32 \<Rightarrow> request \<Rightarrow> request c_result" where
  "advise_noreuse tbl wanted len rq =
     (if wanted
      then c_bind (rq_advise tbl (sc_offset (rq_cmd rq)) len POSIX_FADV_NOREUSE rq)
             (\<lambda>(r, rq1). Returns rq1)
      else Returns rq)"

section \<open>The branches of the handler\<close>

text \<open>The label \<open>verify\<close>.\<close>

definition rq_verify :: "malloc \<Rightarrow> bs_io_op \<Rightarrow> request \<Rightarrow> request c_result" where
  "rq_verify malloc tbl rq =
     (let len = sc_out_length (rq_cmd rq) in
      case malloc len of
        None \<Rightarrow> Returns (internal_failure rq)
      | Some tmpbuf \<Rightarrow>
          c_bind (rq_read tbl tmpbuf len (sc_offset (rq_cmd rq)) rq) (\<lambda>(ok, tmpbuf1, rq1).
            let rq2 = (if \<not> ok then set_medium_error rq1
                       else if take (unat len) (sc_out_buffer (rq_cmd rq1))
                               \<noteq> take (unat len) tmpbuf1
                       then fail_with MISCOMPARE ASC_MISCOMPARE_DURING_VERIFY_OPERATION rq1
                       else rq1)
            in advise_noreuse tbl (flag rq2 0x10) len rq2))"

text \<open>The label \<open>write\<close>; a missing mode page leaves the switch at once.\<close>

definition rq_do_write ::
    "malloc \<Rightarrow> bs_io_op \<Rightarrow> bytes \<Rightarrow> u32 \<Rightarrow> bool \<Rightarrow> request \<Rightarrow> request c_result" where
  "rq_do_write malloc tbl write_buf len do_verify rq =
     (let not_6 = (sc_op (rq_cmd rq) \<noteq> WRITE_6);
          rest = (\<lambda>rq. c_bind (advise_noreuse tbl (not_6 \<and> flag rq 0x10) len rq)
                    (\<lambda>rq1. if do_verify then rq_verify malloc tbl rq1 else Returns rq1))
      in c_bind (rq_write tbl write_buf len (sc_offset (rq_cmd rq)) rq) (\<lambda>(ok, rq1).
           if ok then
             (case sc_mode_page_8 (rq_cmd rq1) of
                None \<Rightarrow> Returns (invalid_field rq1)
              | Some mode_data \<Rightarrow>
                  if not_6 \<and> flag rq1 0x8 \<or> mode_data AND 0x04 = 0
                  then c_bind (bs_sync_sync_range tbl rq1) rest
                  else rest rq1)
           else rest (set_medium_error rq1)))"

definition or_bytes :: "bytes \<Rightarrow> bytes \<Rightarrow> nat \<Rightarrow> bytes" where
  "or_bytes ptr tmpbuf n =
     map (\<lambda>(a, b). a OR b) (zip (take n ptr) (take n tmpbuf)) @ drop n ptr"

definition rq_orwrite :: "malloc \<Rightarrow> bs_io_op \<Rightarrow> request \<Rightarrow> request c_result" where
  "rq_orwrite malloc tbl rq =
     (let len = sc_out_length (rq_cmd rq) in
      case malloc len of
        None \<Rightarrow> Returns (internal_failure rq)
      | Some tmpbuf \<Rightarrow>
          c_bind (rq_read tbl tmpbuf len (sc_offset (rq_cmd rq)) rq) (\<lambda>(ok, tmpbuf1, rq1).
            if \<not> ok then Returns (set_medium_error rq1)
            else
              let out = or_bytes (sc_out_buffer (rq_cmd rq1)) tmpbuf1 (unat len)
              in rq_do_write malloc tbl out len False
                   (rq1\<lparr>rq_cmd := (rq_cmd rq1)\<lparr>sc_out_buffer := out\<rparr>\<rparr>)))"

text \<open>The byte by byte search for the first difference among \<open>n\<close> bytes.\<close>

fun miscompare_pos :: "bytes \<Rightarrow> bytes \<Rightarrow> nat \<Rightarrow> nat" where
  "miscompare_pos (s # spos) (d # dpos) (Suc n) =
     (if s = d then Suc (miscompare_pos spos dpos n) else 0)"
| "miscompare_pos spos dpos n = 0"

definition rq_compare_and_write :: "malloc \<Rightarrow> bs_io_op \<Rightarrow> request \<Rightarrow> request c_result" where
  "rq_compare_and_write malloc tbl rq =
     (let len = sc_out_length (rq_cmd rq) div 2;
          out = sc_out_buffer (rq_cmd rq)
      in if len \<noteq> sc_tl (rq_cmd rq) then Returns (invalid_field rq)
         else case malloc len of
           None \<Rightarrow> Returns (internal_failure rq)
         | Some tmpbuf \<Rightarrow>
             c_bind (rq_read tbl tmpbuf len (sc_offset (rq_cmd rq)) rq) (\<lambda>(ok, tmpbuf1, rq1).
               if \<not> ok then Returns (set_medium_error rq1)
               else if take (unat len) out \<noteq> take (unat len) tmpbuf1
               then Returns (fail_with MISCOMPARE ASC_MISCOMPARE_DURING_VERIFY_OPERATION
                      (rq1\<lparr>rq_info := of_nat (miscompare_pos out tmpbuf1 (unat len))\<rparr>))
               else c_bind (advise_noreuse tbl (flag rq1 0x10) len rq1)
                      (rq_do_write malloc tbl (drop (unat len) out) len False)))"

definition rq_synchronize :: "bs_io_op \<Rightarrow> request \<Rightarrow> request c_result" where
  "rq_synchronize tbl rq =
     (if flag rq 0x2 then Returns (invalid_field rq) else bs_sync_sync_range tbl rq)"

definition rq_read_cmd :: "bs_io_op \<Rightarrow> request \<Rightarrow> request c_result" where
  "rq_read_cmd tbl rq =
     (let len = sc_in_length (rq_cmd rq) in
      c_bind (rq_read tbl (sc_in_buffer (rq_cmd rq)) len (sc_offset (rq_cmd rq)) rq)
        (\<lambda>(ok, buf, rq1).
           let rq2 = rq1\<lparr>rq_cmd := (rq_cmd rq1)\<lparr>sc_in_buffer := buf\<rparr>\<rparr>;
               rq3 = (if \<not> ok then set_medium_error rq2 else rq2)
           in advise_noreuse tbl (sc_op (rq_cmd rq) \<noteq> READ_6 \<and> flag rq3 0x10) len rq3))"

definition rq_pre_fetch :: "bs_io_op \<Rightarrow> request \<Rightarrow> request c_result" where
  "rq_pre_fetch tbl rq =
     c_bind (rq_advise tbl (sc_offset (rq_cmd rq)) (sc_tl (rq_cmd rq)) POSIX_FADV_WILLNEED rq)
       (\<lambda>(r, rq1). Returns (if r \<noteq> BS_IO_SUCCESS then set_medium_error rq1 else rq1))"

section \<open>Write same\<close>

definition le_or_be :: "nat \<Rightarrow> u64 \<Rightarrow> bytes" where
  "le_or_be n w = map (\<lambda>k. ucast (drop_bit (8 * (n - 1 - k)) w)) [0..<n]"

text \<open>\<open>put_unaligned_be32(offset,tmpbuf)\<close> keeps the low 32 bits.\<close>

definition put_unaligned_be :: "nat \<Rightarrow> u64 \<Rightarrow> bytes \<Rightarrow> bytes" where
  "put_unaligned_be n w buf = splice_at buf 0 (le_or_be n w)"

definition write_same_data :: "request \<Rightarrow> u64 \<Rightarrow> bytes \<Rightarrow> bytes" where
  "write_same_data rq offset tmpbuf =
     (if sc_flags (rq_cmd rq) AND 0x06 = 0x02 then put_unaligned_be 4 offset tmpbuf
      else if sc_flags (rq_cmd rq) AND 0x06 = 0x04 then put_unaligned_be 8 offset tmpbuf
      else tmpbuf)"

text \<open>
  \<open>1 << blk_shift\<close> is an \<open>int\<close> stored in a \<open>size_t\<close>; the shift is below 31 for every block size
  in use. The comparison \<open>ret != blocksize\<close> is of an \<open>int\<close> with a \<open>size_t\<close>.
\<close>

definition blocksize :: "scsi_cmd \<Rightarrow> u64" where
  "blocksize cmd = push_bit (sc_blk_shift cmd) 1"

definition write_same_step :: "bs_io_op \<Rightarrow> u64 \<Rightarrow> request \<Rightarrow> request c_result" where
  "write_same_step tbl offset rq =
     (let tmpbuf = write_same_data rq offset (sc_out_buffer (rq_cmd rq));
          rq1 = rq\<lparr>rq_cmd := (rq_cmd rq)\<lparr>sc_out_buffer := tmpbuf\<rparr>\<rparr>
      in c_bind (bs_pfn_write64 tbl (sc_fd (rq_cmd rq1)) tmpbuf (blocksize (rq_cmd rq1)) offset
                   (rq_bs rq1) (rq_os rq1))
           (\<lambda>(r, st, os).
              let rq2 = rq1\<lparr>rq_bs := st, rq_os := os\<rparr>
              in Returns (if r \<noteq> BS_IO_SUCCESS then set_medium_error rq2 else rq2)))"

partial_function (option) write_same_loop ::
    "bs_io_op \<Rightarrow> u64 \<Rightarrow> u32 \<Rightarrow> request \<Rightarrow> request c_result option" where
  "write_same_loop tbl offset todo rq =
     (if todo = 0 then Some (Returns rq)
      else case write_same_step tbl offset rq of
        Returns rq1 \<Rightarrow> write_same_loop tbl (offset + blocksize (rq_cmd rq))
                         (todo - ucast (blocksize (rq_cmd rq))) rq1
      | Hangs \<Rightarrow> Some Hangs
      | Undefined \<Rightarrow> Some Undefined)"

definition rq_write_same :: "bs_io_op \<Rightarrow> request \<Rightarrow> request c_result" where
  "rq_write_same tbl rq =
     (if flag rq 0x08 then Returns (internal_failure rq)
      else case write_same_loop tbl (sc_offset (rq_cmd rq)) (sc_tl (rq_cmd rq)) rq of
        None \<Rightarrow> Hangs
      | Some res \<Rightarrow> res)"

section \<open>Unmap\<close>

text \<open>Big endian numbers of the parameter list.\<close>

definition get_unaligned_be :: "bytes \<Rightarrow> nat \<Rightarrow> nat \<Rightarrow> nat" where
  "get_unaligned_be buf off n = foldl (\<lambda>acc b. 256 * acc + unat b) 0 (slice buf off n)"

text \<open>The loop over descriptors of 16 bytes; \<open>len\<close> is the \<open>uint32_t\<close> that counts down.\<close>

function unmap_loop :: "bs_io_op \<Rightarrow> bytes \<Rightarrow> u32 \<Rightarrow> request \<Rightarrow> request c_result" where
  "unmap_loop tbl tmpbuf len rq =
     (if unat len < 16 then Returns rq
      else
        let offset = push_bit (sc_blk_shift (rq_cmd rq)) (of_nat (get_unaligned_be tmpbuf 0 8) :: u64);
            todo = push_bit (sc_blk_shift (rq_cmd rq)) (of_nat (get_unaligned_be tmpbuf 8 4) :: u32)
        in if offset + ucast todo > sc_dev_size (rq_cmd rq)
           then Returns (fail_with ILLEGAL_REQUEST ASC_LBA_OUT_OF_RANGE rq)
           else if todo > 0
           then c_bind (bs_pfn_unmap_file_region tbl (sc_fd (rq_cmd rq)) offset (ucast todo)
                          (rq_bs rq) (rq_os rq))
                  (\<lambda>(r, st, os).
                     let rq1 = rq\<lparr>rq_bs := st, rq_os := os\<rparr>
                     in if r \<noteq> BS_IO_SUCCESS then Returns (internal_failure rq1)
                        else unmap_loop tbl (drop 16 tmpbuf) (len - 16) rq1)
           else unmap_loop tbl (drop 16 tmpbuf) (len - 16) rq)"
  by pat_completeness auto

lemma unmap_length_decreases: "\<not> unat (len :: u32) < 16 \<Longrightarrow> unat (len - 16) < unat len"
  by (subst unat_diff_le) simp_all

termination unmap_loop
  by (relation "measure (\<lambda>(tbl, tmpbuf, len, rq). unat len)")
     (simp_all add: unmap_length_decreases)

definition rq_unmap :: "bs_io_op \<Rightarrow> request \<Rightarrow> request c_result" where
  "rq_unmap tbl rq =
     (if \<not> sc_thinprovisioning (rq_cmd rq) then Returns (invalid_field rq)
      else if sc_out_length (rq_cmd rq) < 8 then Returns rq
      else unmap_loop tbl (drop 8 (sc_out_buffer (rq_cmd rq))) (sc_out_length (rq_cmd rq) - 8) rq)"

section \<open>The handler\<close>

definition bs_simpleOSD_request :: "malloc \<Rightarrow> bs_io_op \<Rightarrow> request \<Rightarrow> request c_result" where
  "bs_simpleOSD_request malloc tbl rq =
     (let cmd = rq_cmd rq in
      case sc_op cmd of
        ORWRITE_16 \<Rightarrow> rq_orwrite malloc tbl rq
      | COMPARE_AND_WRITE \<Rightarrow> rq_compare_and_write malloc tbl rq
      | SYNCHRONIZE_CACHE \<Rightarrow> rq_synchronize tbl rq
      | SYNCHRONIZE_CACHE_16 \<Rightarrow> rq_synchronize tbl rq
      | WRITE_VERIFY \<Rightarrow> rq_do_write malloc tbl (sc_out_buffer cmd) (sc_out_length cmd) True rq
      | WRITE_VERIFY_12 \<Rightarrow> rq_do_write malloc tbl (sc_out_buffer cmd) (sc_out_length cmd) True rq
      | WRITE_VERIFY_16 \<Rightarrow> rq_do_write malloc tbl (sc_out_buffer cmd) (sc_out_length cmd) True rq
      | WRITE_6 \<Rightarrow> rq_do_write malloc tbl (sc_out_buffer cmd) (sc_out_length cmd) False rq
      | WRITE_10 \<Rightarrow> rq_do_write malloc tbl (sc_out_buffer cmd) (sc_out_length cmd) False rq
      | WRITE_12 \<Rightarrow> rq_do_write malloc tbl (sc_out_buffer cmd) (sc_out_length cmd) False rq
      | WRITE_16 \<Rightarrow> rq_do_write malloc tbl (sc_out_buffer cmd) (sc_out_length cmd) False rq
      | WRITE_SAME \<Rightarrow> rq_write_same tbl rq
      | WRITE_SAME_16 \<Rightarrow> rq_write_same tbl rq
      | READ_6 \<Rightarrow> rq_read_cmd tbl rq
      | READ_10 \<Rightarrow> rq_read_cmd tbl rq
      | READ_12 \<Rightarrow> rq_read_cmd tbl rq
      | READ_16 \<Rightarrow> rq_read_cmd tbl rq
      | PRE_FETCH_10 \<Rightarrow> rq_pre_fetch tbl rq
      | PRE_FETCH_16 \<Rightarrow> rq_pre_fetch tbl rq
      | VERIFY_10 \<Rightarrow> rq_verify malloc tbl rq
      | VERIFY_12 \<Rightarrow> rq_verify malloc tbl rq
      | VERIFY_16 \<Rightarrow> rq_verify malloc tbl rq
      | UNMAP \<Rightarrow> rq_unmap tbl rq
      | OTHER_OP \<Rightarrow> Returns rq)"

text \<open>The request at the start: status good, nothing to report.\<close>

definition start_request :: "scsi_cmd \<Rightarrow> bs_state \<Rightarrow> os \<Rightarrow> request" where
  "start_request cmd st os = \<lparr>rq_result = SAM_STAT_GOOD, rq_key = NO_SENSE,
     rq_asc = NO_ADDITIONAL_SENSE, rq_info = 0, rq_cmd = cmd, rq_bs = st, rq_os = os\<rparr>"

text \<open>
  What the initiator gets at the end: \<open>scsi_set_result\<close>, and \<open>sense_data_build\<close> unless the status is
  good. The position of a miscompare, \<open>info\<close>, is not passed to either.
\<close>

definition scsi_answer :: "request \<Rightarrow> sam_stat \<times> (sense_key \<times> sense_asc) option" where
  "scsi_answer rq = (rq_result rq,
     if rq_result rq \<noteq> SAM_STAT_GOOD then Some (rq_key rq, rq_asc rq) else None)"

lemma scsi_answer_info: "scsi_answer (rq\<lparr>rq_info := pos\<rparr>) = scsi_answer rq"
  by (simp add: scsi_answer_def)

section \<open>Opening and closing a logical unit\<close>

record scsi_lu =
  lu_fd :: i32
  lu_bsoflags :: u32
  lu_readonly :: bool
  lu_no_auto_lbppbe :: bool
  lu_lbppbe :: "u32 option"       \<comment> \<open>what \<open>update_lbppbe\<close> was last told\<close>

definition O_LARGEFILE :: u32 where "O_LARGEFILE = 0"   \<comment> \<open>on a 64 bit system\<close>

definition TGTADM_SUCCESS :: int where "TGTADM_SUCCESS = 0"

text \<open>\<open>denied\<close> is \<open>errno == EACCES || errno == EROFS\<close> after the first open.\<close>

definition bs_simpleOSD_open ::
    "bs_io_op \<Rightarrow> bool \<Rightarrow> scsi_lu \<Rightarrow> string \<Rightarrow> i32 \<Rightarrow> u64 \<Rightarrow> bs_state \<Rightarrow> os
       \<Rightarrow> (int \<times> scsi_lu \<times> i32 \<times> u64 \<times> bs_state \<times> os) c_result" where
  "bs_simpleOSD_open tbl denied lu path p_fd p_size st os =
     (let oflag = bs_pfn_open tbl path (O_RDWR OR O_LARGEFILE OR lu_bsoflags lu);
          finish = (\<lambda>lu fd sz blksize st os.
             if sint fd < 0 then Returns (-1, lu, fd, sz, st, os)
             else Returns (TGTADM_SUCCESS,
                    (if lu_no_auto_lbppbe lu then lu else lu\<lparr>lu_lbppbe := Some blksize\<rparr>),
                    fd, sz, st, os))
      in c_bind (oflag (p_size, 0, p_fd) st os) (\<lambda>(ret, (sz, blksize, fd), st1, os1).
           if ret \<noteq> BS_IO_SUCCESS then Returns (-1, lu, fd, sz, st1, os1)
           else if sint fd < 0 \<and> denied then
             c_bind (oflag (sz, blksize, fd) st1 os1) (\<lambda>(ret2, (sz2, blksize2, fd2), st2, os2).
               if ret2 \<noteq> BS_IO_SUCCESS then Returns (-1, lu, fd2, sz2, st2, os2)
               else finish (lu\<lparr>lu_readonly := True\<rparr>) fd2 sz2 blksize2 st2 os2)
           else finish lu fd sz blksize st1 os1))"

definition bs_simpleOSD_close ::
    "bs_io_op \<Rightarrow> scsi_lu \<Rightarrow> bs_state \<Rightarrow> os \<Rightarrow> (bs_state \<times> os) c_result" where
  "bs_simpleOSD_close tbl lu st os =
     c_bind (bs_pfn_close tbl (lu_fd lu) st os) (\<lambda>(ret, st1, os1). Returns (st1, os1))"

end
