(* ===== verification/Lun.thy ===== *)
theory Lun
  imports Bs
begin

text \<open>
  What the backing store interface promises about LUNs: which slot an open takes and what it
  leaves there, the invariant of the table, what a close releases, and requests from the LUN
  index down to the bytes of the volume.
\<close>

section \<open>The geometry an open finds\<close>

text \<open>The LUN after a successful query of the built-in test data.\<close>

definition test_lun :: "u64 \<Rightarrow> osd_lun \<Rightarrow> osd_lun" where
  "test_lun now lun = lun\<lparr>ol_lun_capacity := 104857600, ol_block_size := 4096,
     ol_is_fs_done := FALSE, ol_collection := (ol_collection lun)
       \<lparr>oc_dp_data := test_map (oc_dp_data (ol_collection lun)), oc_nb_objects := 100,
        oc_object_size := 1048576, oc_start_object := 0 # le_bytes64 now @ [0, 0, 0],
        oc_name := snprintf MAXNAMESIZE (ol_lun_vol lun), oc_io_flag := ol_io_flag lun\<rparr>\<rparr>"

lemma get_lun_info_test:
  "simpleOSD_get_lun_info True False g lun os = Some (BS_IO_SUCCESS, test_lun (os_time os) lun, os)"
  by (simp add: simpleOSD_get_lun_info_def mds_get_blk_device_info_def Let_def
      mds_generate_test_data_lun_query [unfolded lun_query_def] osd_init_collection_def
      test_lun_def zero_mds_args_def MAXOIDLEN_def FALSE_def)

text \<open>The stub leaves the query's answer zero, and an object size of 0 fails the open.\<close>

lemma get_lun_info_stub:
  "\<exists>lun'. simpleOSD_get_lun_info False ic g lun os = Some (BS_IO_ERROR, lun', os)"
  by (simp add: simpleOSD_get_lun_info_def mds_get_blk_device_info_def Let_def
      mds_get_blk_device_data_def osd_init_collection_def zero_mds_args_def)

section \<open>Opening\<close>

text \<open>The slot an open looks at, and the conditions under which it can run at all.\<close>

abbreviation open_slot :: "bs_state \<Rightarrow> nat" where
  "open_slot st \<equiv> next_free_lun (bs_lun_list st)"

definition open_ready :: "bs_state \<Rightarrow> string \<Rightarrow> bool" where
  "open_ready st path \<longleftrightarrow> bs_ok st \<and> open_slot st < NB_MAX_LUN \<and> length path < MAXNAMESIZE
     \<and> (bs_lun_list st ! open_slot st = 0 \<longrightarrow> bs_malloc st \<noteq> [])"

text \<open>The table once the slot is taken, the address of its LUN and the LUN as found there.\<close>

definition taken :: "bs_state \<Rightarrow> bs_state \<times> u64 \<times> osd_lun" where
  "taken st = (let n = open_slot st;
       (p, st1) = (if bs_lun_list st ! n = 0 then GET_MEMORY st else (bs_lun_list st ! n, st));
       st2 = set_slot st1 n (USE_LUN p)
     in (st2, VAL_POINTER (USE_LUN p), the (bs_heap st2 (VAL_POINTER (USE_LUN p)))))"

lemma taken_eq:
  assumes "taken st = (st2, a, lun0)"
  obtains p st1 where
    "(if bs_lun_list st ! open_slot st = 0 then GET_MEMORY st
      else (bs_lun_list st ! open_slot st, st)) = (p, st1)"
    "st2 = set_slot st1 (open_slot st) (USE_LUN p)" "a = VAL_POINTER p"
    "lun0 = the (bs_heap st2 a)"
    "bs_lun_list st2 = (bs_lun_list st)[open_slot st := USE_LUN p]"
proof -
  obtain p st1 where eq: "(if bs_lun_list st ! open_slot st = 0 then GET_MEMORY st
      else (bs_lun_list st ! open_slot st, st)) = (p, st1)" by (meson surj_pair)
  then have "bs_lun_list st1 = bs_lun_list st"
    by (auto simp: GET_MEMORY_def split: if_splits list.splits prod.splits)
  with eq assms show ?thesis
    by (intro that [of p st1]) (auto simp: taken_def Let_def set_slot_def)
qed

lemma taken_ok:
  assumes ready: "open_ready st path" and t: "taken st = (st2, a, lun0)"
  shows "bs_ok st2 \<and> a \<noteq> 0 \<and> bs_heap st2 a = Some lun0"
proof -
  define n where "n = open_slot st"
  from ready have ok: "bs_ok st" and n: "n < NB_MAX_LUN"
    and mem: "bs_lun_list st ! n = 0 \<longrightarrow> bs_malloc st \<noteq> []"
    by (simp_all add: open_ready_def n_def)
  have len: "length (bs_lun_list st) = NB_MAX_LUN" using ok by (simp add: bs_ok_def)
  obtain p st1 where
    eq: "(if bs_lun_list st ! n = 0 then GET_MEMORY st else (bs_lun_list st ! n, st)) = (p, st1)"
    and st2: "st2 = set_slot st1 n (USE_LUN p)" and a: "a = VAL_POINTER p"
    and l0: "lun0 = the (bs_heap st2 a)"
    by (rule taken_eq [OF t, folded n_def])
  have "bs_ok st2 \<and> a \<noteq> 0 \<and> bs_heap st2 a \<noteq> None"
  proof (cases "bs_lun_list st ! n = 0")
    case True
    then obtain b l ms where m: "bs_malloc st = (b, l) # ms" using mem by (cases "bs_malloc st") auto
    then have b: "VAL_POINTER b = b" "b \<noteq> 0" using ok by (simp_all add: bs_ok_def malloc_ok_def)
    then have "bs_ok (set_slot (snd (GET_MEMORY st)) n (USE_LUN b))"
      by (intro bs_ok_alloc [OF ok n True m]) simp_all
    with True m b eq show ?thesis
      by (auto simp: st2 a GET_MEMORY_def set_slot_def)
  next
    case False
    have "slot_ok (bs_heap st) (bs_lun_list st ! n)" using ok n len by (simp add: bs_ok_def)
    with False eq show ?thesis
      using bs_ok_retag [OF ok n False, of "USE_LUN (bs_lun_list st ! n)"]
      by (auto simp: st2 a slot_ok_def set_slot_def)
  qed
  then show ?thesis by (auto simp: l0)
qed

text \<open>Where the open slot leads afterwards.\<close>

lemma taken_slots:
  assumes "open_ready st path" and "taken st = (st2, a, lun0)"
  shows "slots st2 = (slots st)[open_slot st := In_Use]"
    "open_slot st < length (bs_lun_list st2)" "VAL_POINTER (bs_lun_list st2 ! open_slot st) = a"
  using assms
  by (auto elim!: taken_eq simp: slots_def map_update open_ready_def bs_ok_def)

definition lun_opening ::
    "blk_frontend_parameters \<Rightarrow> string \<Rightarrow> u32 \<Rightarrow> nat \<Rightarrow> osd_lun \<Rightarrow> osd_lun" where
  "lun_opening g path fl n lun0 = lun0\<lparr>ol_lun_vol := path, ol_lun_index := of_nat n,
     ol_io_flag := fl, ol_lun_dc_path := snprintf MAXPATHSIZE
       (''/'' @ bp_dc_path g @ ''/'' @ path @ ''/'')\<rparr>"

lemma lun_open_taken:
  assumes "open_ready st path" and "taken st = (st2, a, lun0)" and n: "open_slot st = n"
  shows "simpleOSD_lun_open mds ic g path fl outs st os =
     c_bind (of_run (simpleOSD_get_lun_info mds ic g (lun_opening g path fl n lun0) os))
       (\<lambda>(r, lun2, os1).
          if r \<noteq> BS_IO_SUCCESS then Returns (BS_IO_ERROR, outs, store_lun st2 a lun2, os1)
          else Returns (BS_IO_SUCCESS,
             (ol_lun_capacity lun2, ucast (ol_block_size lun2), of_nat n),
             store_lun st2 a lun2, os1))"
proof -
  obtain p st1 where
    eq: "(if bs_lun_list st ! n = 0 then GET_MEMORY st else (bs_lun_list st ! n, st)) = (p, st1)"
    and st2: "st2 = set_slot st1 n (USE_LUN p)" and a: "a = VAL_POINTER p"
    using taken_eq [OF assms(2)] n by metis
  have "deref_lun (set_slot st1 n (USE_LUN p)) (VAL_POINTER p) = Returns lun0"
    using taken_ok [OF assms(1,2)] by (simp add: deref_lun_def st2 a)
  then show ?thesis
    using assms(1) n
    by (simp add: simpleOSD_lun_open_def eq a st2 Let_def open_ready_def lun_opening_def
        cong: if_cong)
qed

lemma slots_store [simp]: "slots (store_lun st a l) = slots st"
  by (simp add: slots_def store_lun_def)

lemma sint_slot_index:
  "n < NB_MAX_LUN \<Longrightarrow> sint (of_nat n :: i32) = int n"
  by (rule sint_of_nat_small) (simp add: NB_MAX_LUN_def)

lemma lun_at_opened:
  assumes "open_ready st path" and "taken st = (st2, a, lun0)"
  shows "lun_at (store_lun st2 a l) (of_nat (open_slot st)) = Some l"
proof -
  have "open_slot st < NB_MAX_LUN" using assms(1) by (simp add: open_ready_def)
  then show ?thesis
    using taken_slots [OF assms] taken_ok [OF assms]
    by (simp add: lun_at_def lun_slot_def sint_slot_index store_lun_def)
qed

text \<open>Whatever the metadata source, an open without the initial cache runs to its end.\<close>

lemma lun_open_effect:
  assumes ready: "open_ready st path"
  shows "\<exists>r outs' st' lun. simpleOSD_lun_open mds False g path fl outs st os
        = Returns (r, outs', st', os)
      \<and> bs_ok st' \<and> slots st' = (slots st)[open_slot st := In_Use]
      \<and> (r = BS_IO_ERROR \<longrightarrow> outs' = outs) \<and> r = (if mds then BS_IO_SUCCESS else BS_IO_ERROR)
      \<and> lun_at st' (of_nat (open_slot st)) = Some lun
      \<and> (mds \<longrightarrow> outs' = (104857600, 4096, of_nat (open_slot st))
           \<and> (\<exists>lun0. lun = test_lun (os_time os) (lun_opening g path fl (open_slot st) lun0)
                \<and> (bs_lun_list st ! open_slot st = 0 \<longrightarrow> lun0 = snd (hd (bs_malloc st)))))"
proof -
  obtain st2 a lun0 where t: "taken st = (st2, a, lun0)" by (cases "taken st") auto
  note ok = taken_ok [OF ready t] and sl = taken_slots [OF ready t]
  have fin: "bs_ok (store_lun st2 a l)" "slots (store_lun st2 a l) = (slots st)[open_slot st := In_Use]"
    "lun_at (store_lun st2 a l) (of_nat (open_slot st)) = Some l" for l
    using ok sl lun_at_opened [OF ready t] by (simp_all add: bs_ok_store)
  have l0: "bs_lun_list st ! open_slot st = 0 \<Longrightarrow> lun0 = snd (hd (bs_malloc st))"
    using t ready
    by (auto simp: taken_def Let_def GET_MEMORY_def open_ready_def set_slot_def bs_ok_def
        malloc_ok_def split: list.splits prod.splits)
  note run = lun_open_taken [OF ready t refl]
  show ?thesis
  proof (cases mds)
    case True
    then show ?thesis
      by (intro exI [of _ BS_IO_SUCCESS] exI [of _ "(104857600, 4096, of_nat (open_slot st))"] exI)
         (simp add: run get_lun_info_test fin sl(1), auto simp: test_lun_def fin l0 sl(1))
  next
    case False
    obtain lun' where "simpleOSD_get_lun_info False False g
        (lun_opening g path fl (open_slot st) lun0) os = Some (BS_IO_ERROR, lun', os)"
      using get_lun_info_stub by blast
    with False show ?thesis
      by (intro exI [of _ BS_IO_ERROR] exI [of _ outs]
          exI [of _ "store_lun st2 a lun'"] exI [of _ lun']) (simp add: run fin sl(1))
  qed
qed

section \<open>Closing\<close>

text \<open>What closing descriptors can change.\<close>

definition only_closes :: "os \<Rightarrow> os \<Rightarrow> bool" where
  "only_closes os os' \<longleftrightarrow> os_files os' = os_files os \<and> os_frame os os'
     \<and> os_mutex os' = os_mutex os \<and> os_fds os' \<subseteq>\<^sub>m os_fds os"

lemma only_closes_refl [simp]: "only_closes os os"
  by (simp add: only_closes_def)

lemma only_closes_trans: "only_closes a b \<Longrightarrow> only_closes b c \<Longrightarrow> only_closes a c"
  by (auto simp: only_closes_def intro: os_frame_trans map_le_trans)

definition reset_entry :: "object_attr \<Rightarrow> object_attr" where
  "reset_entry obj = (if oa_file_fd obj > RESERVED_FDS then obj\<lparr>oa_file_fd := 0\<rparr> else obj)"

lemma free_collection_step:
  assumes "free_collection_loop l (Suc n) col os = (r, col', os')"
  obtains (stopped) "r = OSD_ERROR" "col' = col" "only_closes os os'"
  | (closed) os1 where "only_closes os os1"
      "os_fds os1 = closed_fds (oa_file_fd (oc_object_attr_cache col l)) (os_fds os)"
      "free_collection_loop (Suc l) n (cache_entry col l (reset_entry (oc_object_attr_cache col l)))
         os1 = (r, col', os')"
proof -
  define fd where "fd = oa_file_fd (oc_object_attr_cache col l)"
  define os1 where "os1 = (if fd > RESERVED_FDS then snd (sys_close fd os) else os)"
  have oc: "only_closes os (snd (sys_close fd os))"
    by (simp add: sys_close_eq only_closes_def map_le_def)
  show thesis
  proof (cases "fd > RESERVED_FDS \<and> fst (sys_close fd os) \<noteq> 0")
    case True
    then show thesis using assms oc
      by (intro stopped) (auto simp: Let_def split: prod.splits simp flip: fd_def)
  next
    case False
    have "os_fds os1 = closed_fds fd (os_fds os)"
      using False by (auto simp: os1_def sys_close_eq closed_fds_def split: if_splits)
    moreover have "free_collection_loop (Suc l) n
        (cache_entry col l (reset_entry (oc_object_attr_cache col l))) os1 = (r, col', os')"
      using False assms
      by (auto simp: Let_def os1_def cache_entry_def reset_entry_def split: prod.splits if_splits
          simp flip: fd_def)
    ultimately show thesis using oc by (intro closed [of os1]) (simp_all add: os1_def fd_def)
  qed
qed

lemma free_collection_only_closes:
  "free_collection_loop l n col os = (r, col', os') \<Longrightarrow>
     only_closes os os' \<and> col' = col\<lparr>oc_object_attr_cache := oc_object_attr_cache col'\<rparr>"
proof (induction n arbitrary: l col os)
  case (Suc n)
  from Suc.prems show ?case
  proof (cases rule: free_collection_step)
    case (closed os1)
    with Suc.IH [OF closed(3)] show ?thesis
      by (auto simp: cache_entry_def intro: only_closes_trans)
  qed simp
qed simp

text \<open>On success every cached descriptor above \<open>RESERVED_FDS\<close> is closed and its entry reset.\<close>

lemma free_collection_success:
  assumes "free_collection_loop l n col os = (OSD_SUCCESS, col', os')"
  shows "oc_object_attr_cache col' k = (if l \<le> k \<and> k < l + n
           then reset_entry (oc_object_attr_cache col k) else oc_object_attr_cache col k)
       \<and> os_fds os' f = (if \<exists>k. l \<le> k \<and> k < l + n
             \<and> oa_file_fd (oc_object_attr_cache col k) = int f \<and> RESERVED_FDS < int f
           then None else os_fds os f)"
  using assms
proof (induction n arbitrary: l col os)
  case (Suc n)
  from Suc.prems show ?case
  proof (cases rule: free_collection_step)
    case (closed os1)
    have sp: "l \<le> k \<and> k < l + Suc n \<longleftrightarrow> k = l \<or> Suc l \<le> k \<and> k < Suc l + n" for k
      by auto
    have ex: "(\<exists>k. l \<le> k \<and> k < l + Suc n \<and> P k) \<longleftrightarrow>
        P l \<or> (\<exists>k. Suc l \<le> k \<and> k < Suc l + n \<and> P k)" for P
      unfolding conj_assoc [symmetric] sp by blast
    have other: "Suc l \<le> k \<and> k < Suc l + n \<and> oa_file_fd (oc_object_attr_cache
          (cache_entry col l (reset_entry (oc_object_attr_cache col l))) k) = int f
        \<and> RESERVED_FDS < int f \<longleftrightarrow> Suc l \<le> k \<and> k < Suc l + n
        \<and> oa_file_fd (oc_object_attr_cache col k) = int f \<and> RESERVED_FDS < int f" for k
      by (auto simp: cache_entry_def)
    have fd1: "os_fds os1 f = (if oa_file_fd (oc_object_attr_cache col l) = int f
        \<and> RESERVED_FDS < int f then None else os_fds os f)"
      using closed(2) by (auto simp: closed_fds_def RESERVED_FDS_def)
    note ih = Suc.IH [OF closed(3), unfolded other]
    have "oc_object_attr_cache col' k = (if l \<le> k \<and> k < l + Suc n
        then reset_entry (oc_object_attr_cache col k) else oc_object_attr_cache col k)"
      using ih by (cases "k = l") (auto simp: cache_entry_def)
    moreover have "os_fds os' f = (if \<exists>k. l \<le> k \<and> k < l + Suc n
        \<and> oa_file_fd (oc_object_attr_cache col k) = int f \<and> RESERVED_FDS < int f
        then None else os_fds os f)"
      unfolding ex conjunct2 [OF ih] fd1 by (simp only: split: if_split) blast
    ultimately show ?thesis by blast
  qed simp
qed auto

text \<open>A close of a slot that holds a LUN: it always returns.\<close>

lemma lun_close_effect:
  assumes ok: "bs_ok st" and at: "lun_at st i = Some lun"
  shows "\<exists>r st' os' lun'. simpleOSD_lun_close i st os = Returns (r, st', os')
      \<and> osd_free_collection lun os = (if r = BS_IO_SUCCESS then OSD_SUCCESS else OSD_ERROR, lun', os')
      \<and> bs_ok st' \<and> lun_at st' i = Some lun' \<and> only_closes os os'
      \<and> slots st' = (if r = BS_IO_SUCCESS then (slots st)[nat (sint i) := Closed] else slots st)"
proof -
  obtain p where p: "lun_slot st i = Returns p" "VAL_POINTER p \<noteq> 0"
    "deref_lun st (VAL_POINTER p) = Returns lun" "bs_heap st (VAL_POINTER p) = Some lun"
    by (rule lun_at_SomeE [OF at])
  have i: "0 \<le> sint i" "nat (sint i) < length (bs_lun_list st)"
    "bs_lun_list st ! nat (sint i) = p" "length (bs_lun_list st) = NB_MAX_LUN"
    using p(1) ok by (auto simp: lun_slot_def bs_ok_def split: if_splits)
  obtain r lun' os' where fr: "osd_free_collection lun os = (r, lun', os')"
    by (cases "osd_free_collection lun os") auto
  then have oc: "only_closes os os'"
    by (auto simp: osd_free_collection_def split: prod.splits dest!: free_collection_only_closes)
  define st1 where "st1 = store_lun st (VAL_POINTER p) lun'"
  have st1: "bs_ok st1" "bs_lun_list st1 = bs_lun_list st" "bs_heap st1 (VAL_POINTER p) = Some lun'"
    using bs_ok_store [OF ok] p(4) by (simp_all add: st1_def) (simp_all add: store_lun_def)
  show ?thesis
  proof (cases r)
    case OSD_ERROR
    with st1 p i fr oc show ?thesis
      by (intro exI [of _ BS_IO_ERROR] exI [of _ st1] exI [of _ os'] exI [of _ lun'])
         (simp add: simpleOSD_lun_close_def lun_at_def lun_slot_def slots_def flip: st1_def)
  next
    case OSD_SUCCESS
    have p0: "p \<noteq> 0" and f0: "FREE_LUN p \<noteq> 0"
      using p(2) tag_simps(1) [of p] by (auto simp: VAL_POINTER_def)
    have "bs_ok (set_slot st1 (nat (sint i)) (FREE_LUN p))"
      using bs_ok_retag [OF st1(1), of "nat (sint i)" "FREE_LUN p"] i st1(2) p0 f0 by simp
    with st1 p i fr oc OSD_SUCCESS show ?thesis
      by (intro exI [of _ BS_IO_SUCCESS] exI [of _ "set_slot st1 (nat (sint i)) (FREE_LUN p)"]
          exI [of _ os'] exI [of _ lun'])
         (simp add: simpleOSD_lun_close_def lun_at_def lun_slot_def slots_def set_slot_def
           map_update flip: st1_def)
  qed
qed

end
