(* ===== verification/Lun_Props.thy ===== *)
theory Lun_Props
  imports Lun
begin

text \<open>
  The properties of the LUN layer, from the table of slots to the bytes a read returns, with their
  examples. Lemmas about requests are proved in the locale \<open>volume_io\<close> and used through its
  interpretation on \<open>osd_op_func\<close>.
\<close>

section \<open>Requests through the backing store table\<close>

context volume_io
begin

abbreviation "blk g \<equiv> simpleOSD_blk_op tbl g"

lemma bs_read_unformatted:
  assumes "lun_at st i = Some lun" and "ol_is_fs_done lun = FALSE"
  shows "simpleOSD_read (blk g) i buf len off st os = Returns (BS_IO_SUCCESS, buf, st, os)"
  using assms
  by (simp add: simpleOSD_read_def simpleOSD_blk_op_def blk_read_unformatted)

lemma bs_read_effect:
  assumes "lun_at st i = Some lun" and "ol_is_fs_done lun \<noteq> FALSE"
    and "volume_ready g (ol_collection lun) os" and "request_ok buf len off"
  defines "col \<equiv> ol_collection lun"
  shows "\<exists>r k os'. simpleOSD_read (blk g) i buf len off st os
      = Returns (r, splice_at buf 0 (flat_read (flat g col os) (unat off) k), st, os')
    \<and> k \<le> unat len \<and> (r = BS_IO_SUCCESS \<longrightarrow> k = unat len \<and> volume_ready g col os')
    \<and> volume_step g col os os' \<and> flat g col os' = flat g col os
    \<and> (vol_live g col os \<and> range_ok col (unat off) (unat len) \<longrightarrow>
         r = BS_IO_SUCCESS \<and> vol_live g col os' \<and> os_fds os' = os_fds os)"
proof -
  obtain r k os' where
    "simpleOSD_blk_read tbl g \<lparr>ba_lun_index = i, ba_buf = [], ba_buf_len = len, ba_offset = off\<rparr>
        \<lparr>ba_lun_index = 0, ba_buf = buf, ba_buf_len = 0, ba_offset = 0\<rparr> st os
      = Returns (r, \<lparr>ba_lun_index = 0, ba_buf = splice_at buf 0 (flat_read (flat g col os) (unat off) k),
           ba_buf_len = 0, ba_offset = 0\<rparr>, st, os')"
    and rest: "k \<le> unat len" "r = BLK_IO_SUCCESS \<longrightarrow> k = unat len \<and> volume_ready g col os'"
      "volume_step g col os os'" "flat g col os' = flat g col os"
      "vol_live g col os \<and> range_ok col (unat off) (unat len) \<longrightarrow>
         r = BLK_IO_SUCCESS \<and> vol_live g col os' \<and> os_fds os' = os_fds os"
    using blk_read_effect
        [of st "\<lparr>ba_lun_index = i, ba_buf = [], ba_buf_len = len, ba_offset = off\<rparr>" lun g os
          "\<lparr>ba_lun_index = 0, ba_buf = buf, ba_buf_len = 0, ba_offset = 0\<rparr>"] assms
    by auto
  then show ?thesis
    by (intro exI [of _ "if r \<noteq> BLK_IO_SUCCESS then BS_IO_ERROR else BS_IO_SUCCESS"]
        exI [of _ k] exI [of _ os']) (auto simp: simpleOSD_read_def simpleOSD_blk_op_def)
qed

lemma bs_write_effect:
  assumes "lun_at st i = Some lun"
    and "volume_ready g (ol_collection lun) os" and "request_ok buf len off"
  defines "col \<equiv> ol_collection lun"
  shows "\<exists>r k os'. simpleOSD_write (blk g) junk i buf len off st os
      = Returns (r, mark_lun st i, os')
    \<and> k \<le> unat len \<and> (r = BS_IO_SUCCESS \<longrightarrow> k = unat len \<and> volume_ready g col os')
    \<and> volume_step g col os os'
    \<and> flat g col os' = flat_write (flat g col os) (unat off) (take k buf)
    \<and> (vol_live g col os \<and> range_ok col (unat off) (unat len) \<longrightarrow>
         r = BS_IO_SUCCESS \<and> vol_live g col os' \<and> os_fds os' = os_fds os)"
proof -
  define p where "p = junk\<lparr>ba_lun_index := i, ba_buf_len := len, ba_offset := off, ba_buf := buf\<rparr>"
  have p: "ba_lun_index p = i" "ba_buf p = buf" "ba_buf_len p = len" "ba_offset p = off"
    by (simp_all add: p_def)
  obtain r k os' where
    "simpleOSD_blk_write tbl g p junk st os = Returns (r, junk, mark_lun st i, os')"
    and rest: "k \<le> unat len" "r = BLK_IO_SUCCESS \<longrightarrow> k = unat len \<and> volume_ready g col os'"
      "volume_step g col os os'"
      "flat g col os' = flat_write (flat g col os) (unat off) (take k buf)"
      "vol_live g col os \<and> range_ok col (unat off) (unat len) \<longrightarrow>
         r = BLK_IO_SUCCESS \<and> vol_live g col os' \<and> os_fds os' = os_fds os"
    using blk_write_effect [of st p lun g os junk] assms by (auto simp: p)
  then show ?thesis
    by (intro exI [of _ "if r \<noteq> BLK_IO_SUCCESS then BS_IO_ERROR else BS_IO_SUCCESS"]
        exI [of _ k] exI [of _ os'])
       (auto simp: simpleOSD_write_def simpleOSD_blk_op_def simp flip: p_def)
qed

end

section \<open>Examples\<close>

definition ex_lun :: osd_lun where
  "ex_lun = \<lparr>ol_lun_index = 0, ol_io_flag = O_RDWR, ol_block_size = 4096, ol_lun_vol = ''vol'',
     ol_lun_capacity = 12, ol_is_fs_done = TRUE, ol_lun_dc_path = ''/d/vol/'',
     ol_collection = ex_collection\<rparr>"

text \<open>A table with the LUN \<open>l\<close> open in slot 0.\<close>

definition ex_open_table :: "osd_lun \<Rightarrow> bs_state" where
  "ex_open_table l = \<lparr>bs_lun_list = 0x1001 # replicate 19 0, bs_heap = [0x1000 \<mapsto> l],
     bs_malloc = []\<rparr>"

text \<open>An empty table and one block of memory with the contents \<open>l\<close>.\<close>

definition ex_empty_table :: "osd_lun \<Rightarrow> bs_state" where
  "ex_empty_table l = \<lparr>bs_lun_list = replicate 20 0, bs_heap = Map.empty,
     bs_malloc = [(0x1000, l)]\<rparr>"

lemma ex_pointers [simp]:
  "VAL_POINTER 0x1001 = 0x1000" "VAL_POINTER 0x1000 = 0x1000" "\<not> IS_FREE 0x1001"
  by (simp_all add: VAL_POINTER_def PTR_MASK_def IS_FREE_def)

lemma ex_open_table_at: "lun_at (ex_open_table l) 0 = Some l"
  by (simp add: lun_at_def lun_slot_def ex_open_table_def)

lemma ex_open_table_ok: "bs_ok (ex_open_table l)"
  by (auto simp: bs_ok_def ex_open_table_def slot_ok_def ptrs_distinct_def malloc_ok_def
      NB_MAX_LUN_def nth_Cons' split: if_splits)

lemma ex_empty_table_ready:
  "length path < MAXNAMESIZE \<Longrightarrow> open_ready (ex_empty_table l) path"
proof -
  have "open_slot (ex_empty_table l) = 0" by (simp add: ex_empty_table_def numeral_eq_Suc)
  then show "length path < MAXNAMESIZE \<Longrightarrow> open_ready (ex_empty_table l) path"
    by (auto simp: open_ready_def bs_ok_def ex_empty_table_def slot_ok_def ptrs_distinct_def
        malloc_ok_def NB_MAX_LUN_def)
qed

section \<open>Slots\<close>

text \<open>
  C17: Opening takes the first slot that is not in use and marks it, whatever comes of the open:
  the call returns, the table keeps its invariant, no other slot changes, and the outputs are
  written exactly on success. Success depends on the metadata source alone.
\<close>

theorem lun_open_takes_first_free_slot:
  assumes "open_ready st path"
  shows "\<exists>r outs' st'. simpleOSD_lun_open mds False g path fl outs st os = Returns (r, outs', st', os)
      \<and> bs_ok st' \<and> slots st' = (slots st)[open_slot st := In_Use]
      \<and> slots st ! open_slot st \<noteq> In_Use
      \<and> (\<forall>j. j < open_slot st \<longrightarrow> slots st ! j = In_Use)
      \<and> r = (if mds then BS_IO_SUCCESS else BS_IO_ERROR)
      \<and> outs' = (if mds then (104857600, 4096, of_nat (open_slot st)) else outs)"
proof -
  have len: "open_slot st < length (bs_lun_list st)"
    using assms by (simp add: open_ready_def bs_ok_def)
  have "slots st ! open_slot st \<noteq> In_Use" "\<forall>j. j < open_slot st \<longrightarrow> slots st ! j = In_Use"
    using next_free_lun_free [OF len] next_free_lun_less len by (simp_all add: slots_def)
  then show ?thesis using lun_open_effect [OF assms, of mds g fl outs os] by (cases mds) auto
qed

theorem lun_open_takes_first_free_slot_witness:
  "\<exists>st'. simpleOSD_lun_open True False ex_params ''vol'' O_RDWR (0, 0, 0)
        (ex_empty_table ex_lun) ex_os
      = Returns (BS_IO_SUCCESS, (104857600, 4096, 0), st', ex_os) \<and> slots st' ! 0 = In_Use"
proof -
  have "open_ready (ex_empty_table ex_lun) ''vol''"
    by (rule ex_empty_table_ready) (simp add: MAXNAMESIZE_def)
  moreover have "open_slot (ex_empty_table ex_lun) = 0"
    by (simp add: ex_empty_table_def numeral_eq_Suc)
  ultimately show ?thesis
    using lun_open_takes_first_free_slot [of "ex_empty_table ex_lun" "''vol''" True ex_params
        O_RDWR "(0, 0, 0)" ex_os]
    by (auto simp: slots_def ex_empty_table_def)
qed

text \<open>
  With all twenty slots in use an open fails and changes nothing, whatever the path and flags.
\<close>

theorem lun_open_table_full:
  assumes "bs_ok st" and "set (slots st) = {In_Use}"
  shows "simpleOSD_lun_open mds ic g path fl outs st os = Returns (BS_IO_ERROR, outs, st, os)"
proof -
  have "\<forall>p \<in> set (bs_lun_list st). slot_of p = In_Use"
    using assms(2) by (auto simp: slots_def)
  then have "open_slot st = NB_MAX_LUN"
    using assms(1) next_free_lun_full [of "bs_lun_list st"] by (simp add: bs_ok_def)
  then show ?thesis by (simp add: simpleOSD_lun_open_def)
qed

definition ex_full_table :: bs_state where
  "ex_full_table = \<lparr>bs_lun_list = map (\<lambda>k. of_nat k * 8 + 1) [1..<21], bs_heap = (\<lambda>_. Some ex_lun),
     bs_malloc = []\<rparr>"

lemma ex_full_table_ok: "bs_ok ex_full_table" "set (slots ex_full_table) = {In_Use}"
proof -
  have l: "map (\<lambda>k. of_nat k * 8 + 1 :: u64) [1..<21] = [9, 17, 25, 33, 41, 49, 57, 65, 73, 81, 89,
      97, 105, 113, 121, 129, 137, 145, 153, 161]"
    by (simp add: upt_rec)
  show "set (slots ex_full_table) = {In_Use}"
    unfolding slots_def ex_full_table_def bs_state.simps l by (simp add: slot_of_def IS_FREE_def)
  have v: "VAL_POINTER (of_nat k * 8 + 1) = of_nat k * 8" if "k \<in> {1..<21}" for k
  proof -
    have "\<forall>k \<in> set [1..<21]. VAL_POINTER (of_nat k * 8 + 1) = of_nat k * 8"
      by (simp add: upt_rec VAL_POINTER_def PTR_MASK_def)
    with that show ?thesis by simp
  qed
  have inj: "(of_nat j * 8 :: u64) = of_nat k * 8 \<longleftrightarrow> j = k" if "j < 21" "k < 21" for j k
  proof -
    have "unat (of_nat j * 8 :: u64) = j * 8" "unat (of_nat k * 8 :: u64) = k * 8"
      using that by (simp_all add: unat_word_ariths unat_of_nat)
    then show ?thesis by (metis mult_cancel2 zero_neq_numeral)
  qed
  have v': "VAL_POINTER (9 + of_nat k * 8) = 8 + of_nat k * 8" if "k < 20" for k
    using v [of "Suc k"] that by (simp add: algebra_simps)
  have "ptrs_distinct (bs_lun_list ex_full_table)"
    by (auto simp: ptrs_distinct_def ex_full_table_def v' inj simp del: upt_Suc)
  moreover have "slot_ok (\<lambda>_. Some ex_lun) (of_nat k * 8 + 1)" if "k \<in> {1..<21}" for k
    using that inj [of k 0] by (simp add: slot_ok_def v)
  ultimately show "bs_ok ex_full_table"
    by (auto simp: bs_ok_def ex_full_table_def NB_MAX_LUN_def malloc_ok_def)
qed

theorem lun_open_table_full_witness:
  "simpleOSD_lun_open True False ex_params ''vol'' O_RDWR (0, 0, 0) ex_full_table ex_os
     = Returns (BS_IO_ERROR, (0, 0, 0), ex_full_table, ex_os)"
  by (rule lun_open_table_full [OF ex_full_table_ok])

section \<open>The volume behind a LUN\<close>

lemma test_lun_geometry:
  assumes "length path < MAXNAMESIZE" and "path_fits g path" and "plain_flags fl"
    and lun: "lun = test_lun now (lun_opening g path fl n lun0)"
  shows "geometry_ok g (ol_collection lun)" "capacity (ol_collection lun) = unat (ol_lun_capacity lun)"
    "oc_name (ol_collection lun) = path" "ol_is_fs_done lun = FALSE"
    "oc_object_attr_cache (ol_collection lun) = oc_object_attr_cache (ol_collection lun0)"
    "cached_entries (ol_collection lun) = 100"
  using assms(1-3)
  by (simp_all add: lun test_lun_def lun_opening_def geometry_ok_def capacity_def
      snprintf_id MAXOIDLEN_def cached_entries_def NBMAXOBJECTS_def)

text \<open>
  With the built-in metadata a successful open hands out a usable volume: its geometry meets
  the conditions of the object layer, its capacity is the size reported to the caller, its name
  is the path, and it counts as unformatted.
\<close>

theorem lun_open_volume:
  assumes "open_ready st path" and "path_fits g path" and "plain_flags fl"
  shows "\<exists>size bs st' lun. simpleOSD_lun_open True False g path fl outs st os
        = Returns (BS_IO_SUCCESS, (size, bs, of_nat (open_slot st)), st', os)
      \<and> lun_at st' (of_nat (open_slot st)) = Some lun \<and> geometry_ok g (ol_collection lun)
      \<and> capacity (ol_collection lun) = unat size \<and> unat size = 104857600
      \<and> oc_name (ol_collection lun) = path \<and> ol_is_fs_done lun = FALSE"
proof -
  have path: "length path < MAXNAMESIZE" using assms(1) by (simp add: open_ready_def)
  obtain st' lun0 where run: "simpleOSD_lun_open True False g path fl outs st os
        = Returns (BS_IO_SUCCESS, (104857600, 4096, of_nat (open_slot st)), st', os)"
    and at: "lun_at st' (of_nat (open_slot st))
        = Some (test_lun (os_time os) (lun_opening g path fl (open_slot st) lun0))"
    using lun_open_effect [OF assms(1), of True g fl outs os] by auto
  note geo = test_lun_geometry [OF path assms(2,3) refl, of "os_time os" "open_slot st" lun0]
  have "ol_lun_capacity (test_lun (os_time os) (lun_opening g path fl (open_slot st) lun0)) = 104857600"
    by (simp add: test_lun_def)
  with run at geo show ?thesis by (intro exI conjI) auto
qed

lemma ex_path: "length ''vol'' < MAXNAMESIZE" "path_fits ex_params ''vol''"
  by (simp_all add: MAXNAMESIZE_def path_fits_def ex_params_def MAXPATHLEN_def)

theorem lun_open_volume_witness:
  "\<exists>bs st' lun. simpleOSD_lun_open True False ex_params ''vol'' O_RDWR (0, 0, 0)
        (ex_empty_table ex_lun) ex_os
      = Returns (BS_IO_SUCCESS, (104857600, bs, 0), st', ex_os)
      \<and> lun_at st' 0 = Some lun \<and> capacity (ol_collection lun) = 104857600"
proof -
  have "open_slot (ex_empty_table ex_lun) = 0"
    by (simp add: ex_empty_table_def numeral_eq_Suc)
  then show ?thesis
    using lun_open_volume [OF ex_empty_table_ready [OF ex_path(1), of ex_lun] ex_path(2)
        plain_flags_rdwr, of "(0, 0, 0)" ex_os]
    by (auto simp: word_unat_eq_iff)
qed

text \<open>
  In the build the Makefile makes, where the metadata query is a stub, no open ever succeeds,
  and each failed open keeps the slot it took: it is marked in use and no call frees it.
\<close>

theorem lun_open_as_built_fails:
  assumes "open_ready st path"
  shows "\<exists>st'. simpleOSD_lun_open False False g path fl outs st os = Returns (BS_IO_ERROR, outs, st', os)
      \<and> slots st' = (slots st)[open_slot st := In_Use] \<and> bs_ok st'"
  using lun_open_effect [OF assms, of False g fl outs os] by auto

theorem lun_open_as_built_fails_witness:
  "\<exists>st'. simpleOSD_lun_open False False ex_params ''vol'' O_RDWR (0, 0, 0)
        (ex_empty_table ex_lun) ex_os = Returns (BS_IO_ERROR, (0, 0, 0), st', ex_os)
      \<and> slots st' ! 0 = In_Use"
proof -
  have "open_slot (ex_empty_table ex_lun) = 0"
    by (simp add: ex_empty_table_def numeral_eq_Suc)
  then show ?thesis
    using lun_open_as_built_fails [OF ex_empty_table_ready [OF ex_path(1), of ex_lun],
        of ex_params O_RDWR "(0, 0, 0)" ex_os]
    by (auto simp: slots_def ex_empty_table_def)
qed

section \<open>Reading what was written\<close>

text \<open>
  C8: From the LUN index down to the files: after a successful write on an open LUN, a read of
  the same range on the same LUN returns, whatever the environment does, and if it succeeds the
  buffer holds what was written.
\<close>

theorem bs_read_after_write:
  assumes "lun_at st i = Some lun" and "volume_ready g (ol_collection lun) os"
    and "request_ok buf len off" and "request_ok buf2 len off"
    and "simpleOSD_write (simpleOSD_blk_op osd_op_func g) junk i buf len off st os
      = Returns (BS_IO_SUCCESS, st1, os1)"
  shows "\<exists>r out os2. simpleOSD_read (simpleOSD_blk_op osd_op_func g) i buf2 len off st1 os1
        = Returns (r, out, st1, os2)
      \<and> (r = BS_IO_SUCCESS \<longrightarrow> take (unat len) out = take (unat len) buf)"
proof -
  define col where "col = ol_collection lun"
  have w: "st1 = mark_lun st i" "volume_ready g col os1"
    "flat g col os1 = flat_write (flat g col os) (unat off) (take (unat len) buf)"
    using osd_table.bs_write_effect [OF assms(1-3), of junk] assms(5) by (auto simp: col_def)
  have at: "lun_at st1 i = Some (mark_fs lun)" using lun_at_mark_lun [OF assms(1)] w(1) by simp
  have len: "unat len \<le> length buf" "unat len \<le> length buf2"
    using assms(3,4) by (simp_all add: request_ok_def)
  have readback: "flat_read (flat g col os1) (unat off) (unat len) = take (unat len) buf"
    using flat_read_write [of "flat g col os" "unat off" "take (unat len) buf"] len(1)
    by (simp add: w(3))
  obtain r k os2 where
    "simpleOSD_read (simpleOSD_blk_op osd_op_func g) i buf2 len off st1 os1
       = Returns (r, splice_at buf2 0 (flat_read (flat g col os1) (unat off) k), st1, os2)"
    "r = BS_IO_SUCCESS \<longrightarrow> k = unat len"
    using osd_table.bs_read_effect [OF at _ _ assms(4), of g os1] w(2) by (auto simp: col_def)
  with readback show ?thesis by (auto simp: splice_at_def)
qed

lemma ex_lun_collection [simp]: "ol_collection ex_lun = ex_collection" "ol_is_fs_done ex_lun = TRUE"
  by (simp_all add: ex_lun_def)

lemma ex_lun_write:
  "\<exists>st1 os1. simpleOSD_write (simpleOSD_blk_op osd_op_func ex_params) junk 0 [1, 2, 3, 4, 5] 5 2
     (ex_open_table ex_lun) ex_live_os = Returns (BS_IO_SUCCESS, st1, os1)"
  using osd_table.bs_write_effect [OF ex_open_table_at, of ex_params ex_lun ex_live_os
      "[1, 2, 3, 4, 5]" 5 2 junk] ex_live ex_range
  by (auto simp: request_ok_def)

theorem bs_read_after_write_witness:
  "\<exists>st1 os1 r out os2. simpleOSD_write (simpleOSD_blk_op osd_op_func ex_params)
        \<lparr>ba_lun_index = 0, ba_buf = [], ba_buf_len = 0, ba_offset = 0\<rparr> 0 [1, 2, 3, 4, 5] 5 2
        (ex_open_table ex_lun) ex_live_os = Returns (BS_IO_SUCCESS, st1, os1)
      \<and> simpleOSD_read (simpleOSD_blk_op osd_op_func ex_params) 0 [9, 9, 9, 9, 9] 5 2 st1 os1
        = Returns (r, out, st1, os2)
      \<and> (r \<noteq> BS_IO_SUCCESS \<or> take 5 out = [1, 2, 3, 4, 5])"
proof -
  define junk :: blk_io_args where "junk = \<lparr>ba_lun_index = 0, ba_buf = [], ba_buf_len = 0, ba_offset = 0\<rparr>"
  obtain st1 os1 where w: "simpleOSD_write (simpleOSD_blk_op osd_op_func ex_params) junk 0
      [1, 2, 3, 4, 5] 5 2 (ex_open_table ex_lun) ex_live_os = Returns (BS_IO_SUCCESS, st1, os1)"
    using ex_lun_write by blast
  show ?thesis
    using bs_read_after_write [OF ex_open_table_at _ _ _ w, of "[9, 9, 9, 9, 9]"] w ex_live(1)
    unfolding junk_def by (auto simp: request_ok_def)
qed

text \<open>
  Until something has been written on a LUN since it was opened, every read of it succeeds and
  leaves the buffer as it was, whatever the range, even outside the volume, and whatever the
  volume's files hold: data written before the last open is not read back.
\<close>

theorem unformatted_lun_reads_nothing:
  assumes "open_ready st path"
    and "simpleOSD_lun_open mds False g path fl outs st os
      = Returns (BS_IO_SUCCESS, (sz, bs, i), st', os)"
  shows "simpleOSD_read (simpleOSD_blk_op osd_op_func g2) i buf len off st' os2
      = Returns (BS_IO_SUCCESS, buf, st', os2)"
proof -
  obtain lun where "mds" "i = of_nat (open_slot st)" "lun_at st' (of_nat (open_slot st)) = Some lun"
    "ol_is_fs_done lun = FALSE"
    using lun_open_effect [OF assms(1), of mds g fl outs os] assms(2)
    by (auto simp: test_lun_def split: if_splits)
  then show ?thesis by (simp add: osd_table.bs_read_unformatted)
qed

theorem unformatted_lun_reads_nothing_witness:
  "\<exists>st'. simpleOSD_lun_open True False ex_params ''vol'' O_RDWR (0, 0, 0)
        (ex_empty_table ex_lun) ex_live_os
      = Returns (BS_IO_SUCCESS, (104857600, 4096, 0), st', ex_live_os)
    \<and> simpleOSD_read (simpleOSD_blk_op osd_op_func ex_params) 0 [9, 9] 2 500000000 st' ex_live_os
      = Returns (BS_IO_SUCCESS, [9, 9], st', ex_live_os)"
proof -
  have "open_slot (ex_empty_table ex_lun) = 0"
    by (simp add: ex_empty_table_def numeral_eq_Suc)
  then obtain st' where st': "simpleOSD_lun_open True False ex_params ''vol'' O_RDWR (0, 0, 0)
      (ex_empty_table ex_lun) ex_live_os = Returns (BS_IO_SUCCESS, (104857600, 4096, 0), st', ex_live_os)"
    using lun_open_effect [OF ex_empty_table_ready [OF ex_path(1), of ex_lun], of True ex_params
        O_RDWR "(0, 0, 0)" ex_live_os] by auto
  with unformatted_lun_reads_nothing [OF ex_empty_table_ready [OF ex_path(1)] st']
  show ?thesis by blast
qed

section \<open>Closing\<close>


text \<open>A LUN with one cached descriptor, 5, and a process that has 5 open.\<close>

definition ex_cached_lun :: osd_lun where
  "ex_cached_lun = ex_lun\<lparr>ol_collection := ex_collection\<lparr>oc_object_attr_cache :=
     (\<lambda>_. zero_object_attr)(0 := zero_object_attr\<lparr>oa_file_fd := 5\<rparr>)\<rparr>\<rparr>"

definition ex_fd5_os :: os where
  "ex_fd5_os = ex_os\<lparr>os_fds := (os_fds ex_os)(5 \<mapsto> \<lparr>of_path = ''/f'', of_flags = O_RDWR\<rparr>)\<rparr>"

lemma ex_cached_entries: "cached_entries (ol_collection ex_cached_lun) = 3"
  by (simp add: cached_entries_def ex_cached_lun_def ex_collection_def NBMAXOBJECTS_def)

lemma ex_cached_entry: "oa_file_fd (oc_object_attr_cache (ol_collection ex_cached_lun) 0) = 5"
  by (simp add: ex_cached_lun_def)


lemma cache_update_simps [simp]:
  "geometry_ok g (col\<lparr>oc_object_attr_cache := c\<rparr>) = geometry_ok g col"
  "obj_file g (col\<lparr>oc_object_attr_cache := c\<rparr>) = obj_file g col"
  "objects_ok g (col\<lparr>oc_object_attr_cache := c\<rparr>) = objects_ok g col"
  "flat g (col\<lparr>oc_object_attr_cache := c\<rparr>) = flat g col"
  by (simp_all add: geometry_ok_def capacity_def obj_file_def fun_eq_iff objects_ok_def flat_def)

lemma osd_free_collection_keeps:
  assumes "osd_free_collection lun os = (r, lun', os')"
  shows "\<exists>c. lun' = lun\<lparr>ol_collection := (ol_collection lun)\<lparr>oc_object_attr_cache := c\<rparr>\<rparr>"
proof -
  obtain col where "free_collection_loop 0 (cached_entries (ol_collection lun)) (ol_collection lun) os
      = (r, col, os')" and lun': "lun' = lun\<lparr>ol_collection := col\<rparr>"
    using assms by (auto simp: osd_free_collection_def split: prod.splits)
  then show ?thesis using free_collection_only_closes unfolding lun' by metis
qed

lemma volume_ready_closed:
  assumes "volume_ready g col os" and "only_closes os os'"
  shows "volume_ready g (col\<lparr>oc_object_attr_cache := c\<rparr>) os'"
    "flat g (col\<lparr>oc_object_attr_cache := c\<rparr>) os' = flat g col os"
proof -
  have same: "os_files os' = os_files os" using assms(2) by (simp add: only_closes_def)
  show "flat g (col\<lparr>oc_object_attr_cache := c\<rparr>) os' = flat g col os"
    by (simp add: flat_cong [OF same])
  show "volume_ready g (col\<lparr>oc_object_attr_cache := c\<rparr>) os'"
    using assms by (simp add: volume_ready_def only_closes_def objects_ok_def locks_free_def)
qed


lemma ex_lun_close:
  "\<exists>st'. simpleOSD_lun_close 0 (ex_open_table ex_lun) ex_live_os = Returns (BS_IO_SUCCESS, st', ex_live_os)"
proof -
  have three: "(3 :: nat) = Suc (Suc (Suc 0))" by simp
  have "cached_entries ex_collection = 3"
    by (simp add: cached_entries_def ex_collection_def NBMAXOBJECTS_def)
  then have "osd_free_collection ex_lun ex_live_os = (OSD_SUCCESS, ex_lun, ex_live_os)"
    by (simp add: osd_free_collection_def) (simp add: three ex_collection_def zero_object_attr_def
        RESERVED_FDS_def ex_lun_def)
  then show ?thesis
    by (simp add: simpleOSD_lun_close_def lun_slot_def deref_lun_def ex_open_table_def)
qed


text \<open>
  The memory of a new LUN is not cleared, and \<open>simpleOSD_lun_open\<close> leaves its cache as found.
  A successful close then closes every descriptor above 3 that the indeterminate contents happen
  to name among the first hundred entries, whatever the process uses it for.
\<close>

theorem close_after_open_closes_foreign_descriptor:
  assumes "open_ready st path" and "path_fits g path" and "plain_flags fl"
    and "bs_lun_list st ! open_slot st = 0" and "bs_malloc st = (a, junk) # ms"
    and "k < 100" and "oa_file_fd (oc_object_attr_cache (ol_collection junk) k) = int f" and "3 < f"
    and "simpleOSD_lun_open True False g path fl outs st os = Returns (BS_IO_SUCCESS, outs', st', os)"
    and "simpleOSD_lun_close (of_nat (open_slot st)) st' os = Returns (BS_IO_SUCCESS, st2, os2)"
  shows "os_fds os2 f = None"
proof -
  have path: "length path < MAXNAMESIZE" using assms(1) by (simp add: open_ready_def)
  define lun where "lun = test_lun (os_time os) (lun_opening g path fl (open_slot st) junk)"
  have ok: "bs_ok st'" and at: "lun_at st' (of_nat (open_slot st)) = Some lun"
    using lun_open_effect [OF assms(1), of True g fl outs os] assms(4,5,9) by (auto simp: lun_def)
  note geo = test_lun_geometry [OF path assms(2,3) lun_def]
  obtain lun' where "osd_free_collection lun os = (OSD_SUCCESS, lun', os2)"
    using lun_close_effect [OF ok at, of os] assms(10) by auto
  then have "free_collection_loop 0 100 (ol_collection lun) os = (OSD_SUCCESS, ol_collection lun', os2)"
    using geo(6) by (auto simp: osd_free_collection_def split: prod.splits)
  from free_collection_success [OF this, of k f] show ?thesis
    using assms(6-8) geo(5) by (auto simp: RESERVED_FDS_def split: if_splits)
qed

lemma free_collection_idle:
  "(\<And>k. l \<le> k \<Longrightarrow> oa_file_fd (oc_object_attr_cache col k) \<le> RESERVED_FDS) \<Longrightarrow>
   free_collection_loop l n col os = (OSD_SUCCESS, col, os)"
  by (induction n arbitrary: l) (auto simp: not_less [symmetric] Let_def)

lemma ex_close_hundred:
  assumes "oc_object_attr_cache col = oc_object_attr_cache (ol_collection ex_cached_lun)"
  shows "\<exists>col' os'. free_collection_loop 0 100 col ex_fd5_os = (OSD_SUCCESS, col', os')"
proof -
  have n: "(100 :: nat) = Suc 99" by simp
  have fds: "oa_file_fd (oc_object_attr_cache col k) = (if k = 0 then 5 else 0)" for k
    using assms by (simp add: ex_cached_lun_def zero_object_attr_def)
  have "fd_file ex_fd5_os 5 \<noteq> None" "choice ex_fd5_os = Full"
    by (simp_all add: fd_file_def ex_fd5_os_def ex_os_simps)
  then show ?thesis
    unfolding n free_collection_loop.simps(2)
    by (simp add: fds sys_close_eq RESERVED_FDS_def Let_def)
       (subst free_collection_idle, simp_all add: fds RESERVED_FDS_def)
qed

theorem close_after_open_closes_foreign_descriptor_witness:
  "\<exists>st' st2 os2. simpleOSD_lun_open True False ex_params ''vol'' O_RDWR (0, 0, 0)
        (ex_empty_table ex_cached_lun) ex_fd5_os
        = Returns (BS_IO_SUCCESS, (104857600, 4096, 0), st', ex_fd5_os)
      \<and> simpleOSD_lun_close 0 st' ex_fd5_os = Returns (BS_IO_SUCCESS, st2, os2)
      \<and> os_fds ex_fd5_os 5 \<noteq> None \<and> os_fds os2 5 = None"
proof -
  have slot: "open_slot (ex_empty_table ex_cached_lun) = 0"
    by (simp add: ex_empty_table_def numeral_eq_Suc)
  have ready: "open_ready (ex_empty_table ex_cached_lun) ''vol''"
    by (rule ex_empty_table_ready [OF ex_path(1)])
  define lun where "lun = test_lun (os_time ex_fd5_os)
      (lun_opening ex_params ''vol'' O_RDWR 0 ex_cached_lun)"
  obtain st' where st': "simpleOSD_lun_open True False ex_params ''vol'' O_RDWR (0, 0, 0)
      (ex_empty_table ex_cached_lun) ex_fd5_os
      = Returns (BS_IO_SUCCESS, (104857600, 4096, 0), st', ex_fd5_os)"
    and ok: "bs_ok st'" and at: "lun_at st' 0 = Some lun"
    using lun_open_effect [OF ready, of True ex_params O_RDWR "(0, 0, 0)" ex_fd5_os]
    unfolding slot lun_def by (auto simp: ex_empty_table_def)
  note geo = test_lun_geometry [OF ex_path plain_flags_rdwr lun_def]
  obtain col' os2 where "free_collection_loop 0 100 (ol_collection lun) ex_fd5_os
      = (OSD_SUCCESS, col', os2)"
    using ex_close_hundred [OF geo(5)] by blast
  then have "osd_free_collection lun ex_fd5_os = (OSD_SUCCESS, lun\<lparr>ol_collection := col'\<rparr>, os2)"
    by (simp add: osd_free_collection_def geo(6))
  then obtain st2 where st2: "simpleOSD_lun_close 0 st' ex_fd5_os = Returns (BS_IO_SUCCESS, st2, os2)"
    using lun_close_effect [OF ok at, of ex_fd5_os] by (auto split: if_splits)
  have "os_fds os2 5 = None"
    by (rule close_after_open_closes_foreign_descriptor [OF ready ex_path(2) plain_flags_rdwr,
          where k = 0 and junk = ex_cached_lun])
       (use st' st2 slot ex_cached_entry in \<open>simp_all add: ex_empty_table_def\<close>)
  with st' st2 show ?thesis by (simp add: ex_fd5_os_def)
qed

end
