(* ===== verification/Tgt_Props.thy ===== *)
theory Tgt_Props
  imports Tgt Lun_Props
begin

text \<open>
  What the SCSI handler does to a logical unit, proved for every backing store that keeps the
  contract \<open>backing_store\<close> and applied to the store of this library through the interpretation
  \<open>simple_bs\<close>.
\<close>

section \<open>The contract of a backing store\<close>

text \<open>\<open>content\<close> is the flat array of the unit's bytes; \<open>ready\<close> the states it may be used in.\<close>

locale backing_store =
  fixes tbl :: bs_io_op and fd :: i32
    and ready :: "bs_state \<Rightarrow> os \<Rightarrow> bool" and content :: "os \<Rightarrow> nat \<Rightarrow> u8"
  assumes store_read:
    "ready st os \<Longrightarrow> request_ok buf len off \<Longrightarrow>
     \<exists>r k st' os'. bs_pfn_read64 tbl fd buf len off st os
         = Returns (r, splice_at buf 0 (flat_read (content os) (unat off) k), st', os')
       \<and> k \<le> unat len \<and> (r = BS_IO_SUCCESS \<longrightarrow> k = unat len \<and> ready st' os')
       \<and> content os' = content os"
  and store_write:
    "ready st os \<Longrightarrow> request_ok buf len off \<Longrightarrow>
     \<exists>r k st' os'. bs_pfn_write64 tbl fd buf len off st os = Returns (r, st', os')
       \<and> k \<le> unat len \<and> (r = BS_IO_SUCCESS \<longrightarrow> k = unat len \<and> ready st' os')
       \<and> content os' = flat_write (content os) (unat off) (take k buf)"
  and store_sync: "bs_pfn_data_sync tbl fd st os = Returns (BS_IO_SUCCESS, st, os)"
  and store_advise: "bs_pfn_posix_advise tbl fd off len advice st os = Returns (BS_IO_SUCCESS, st, os)"
  and store_unmap: "bs_pfn_unmap_file_region tbl fd off len st os = Returns (BS_IO_SUCCESS, st, os)"

text \<open>An open, formatted LUN on the volume \<open>col\<close>.\<close>

definition lun_ready :: "blk_frontend_parameters \<Rightarrow> i32 \<Rightarrow> osd_collection \<Rightarrow> bs_state \<Rightarrow> os \<Rightarrow> bool"
  where
  "lun_ready g i col st os \<longleftrightarrow> (\<exists>lun. lun_at st i = Some lun \<and> ol_is_fs_done lun \<noteq> FALSE
     \<and> ol_collection lun = col \<and> volume_ready g col os)"

interpretation simple_bs: backing_store "simpleOSD_bs_op mds ic g junk" i "lun_ready g i col"
    "flat g col" for mds ic g junk i col
proof
  fix st os buf and len off :: u64
  assume "lun_ready g i col st os" and rq: "request_ok buf len off"
  then obtain lun where at: "lun_at st i = Some lun" and fmt: "ol_is_fs_done lun \<noteq> FALSE"
    and col: "ol_collection lun = col" and vr: "volume_ready g (ol_collection lun) os"
    by (auto simp: lun_ready_def)
  show "\<exists>r k st' os'. bs_pfn_read64 (simpleOSD_bs_op mds ic g junk) i buf len off st os
         = Returns (r, splice_at buf 0 (flat_read (flat g col os) (unat off) k), st', os')
       \<and> k \<le> unat len \<and> (r = BS_IO_SUCCESS \<longrightarrow> k = unat len \<and> lun_ready g i col st' os')
       \<and> flat g col os' = flat g col os"
    using osd_table.bs_read_effect [OF at fmt vr rq] at fmt
    by (fastforce simp: simpleOSD_bs_op_def Let_def lun_ready_def col)
  have "lun_at (mark_lun st i) i = Some lun"
    using lun_at_mark_lun [OF at] fmt by (simp add: mark_fs_def)
  then show "\<exists>r k st' os'. bs_pfn_write64 (simpleOSD_bs_op mds ic g junk) i buf len off st os
         = Returns (r, st', os')
       \<and> k \<le> unat len \<and> (r = BS_IO_SUCCESS \<longrightarrow> k = unat len \<and> lun_ready g i col st' os')
       \<and> flat g col os' = flat_write (flat g col os) (unat off) (take k buf)"
    using osd_table.bs_write_effect [OF at vr rq, of junk] fmt
    by (fastforce simp: simpleOSD_bs_op_def Let_def lun_ready_def col)
qed (simp_all add: simpleOSD_bs_op_def Let_def simpleOSD_datasync_def simpleOSD_blk_op_def
    simpleOSD_blk_datasync_def simpleOSD_posix_advise_def simpleOSD_unmap_file_region_def)

section \<open>The handler's steps on a store that keeps the contract\<close>

lemma ret_is_length_iff: "len \<noteq> -1 \<Longrightarrow> ret_is_length r len \<longleftrightarrow> r = BS_IO_SUCCESS"
  by (auto simp: ret_is_length_def)

lemma unat_ucast_32_64 [simp]: "unat (ucast (len :: u32) :: u64) = unat len"
  by (simp add: unsigned_ucast_eq take_bit_nat_eq_self_iff less_trans [OF unsigned_less])

text \<open>The request with only the state of store and system replaced.\<close>

abbreviation with_state :: "request \<Rightarrow> bs_state \<Rightarrow> os \<Rightarrow> request" where
  "with_state rq st os \<equiv> rq\<lparr>rq_bs := st, rq_os := os\<rparr>"

context backing_store
begin

text \<open>The request runs on this unit, in a state the store is ready in.\<close>

definition on_unit :: "request \<Rightarrow> bool" where
  "on_unit rq \<longleftrightarrow> sc_fd (rq_cmd rq) = fd \<and> ready (rq_bs rq) (rq_os rq)"

lemma rq_read_effect:
  assumes "on_unit rq" and "request_ok buf (ucast len) off" and "len \<noteq> -1"
  shows "\<exists>ok k st' os'. rq_read tbl buf len off rq
       = Returns (ok, splice_at buf 0 (flat_read (content (rq_os rq)) (unat off) k),
                  with_state rq st' os')
     \<and> k \<le> unat len \<and> (ok \<longrightarrow> k = unat len \<and> ready st' os') \<and> content os' = content (rq_os rq)"
proof -
  obtain r k st' os' where
    "bs_pfn_read64 tbl fd buf (ucast len) off (rq_bs rq) (rq_os rq)
       = Returns (r, splice_at buf 0 (flat_read (content (rq_os rq)) (unat off) k), st', os')"
    "k \<le> unat len" "r = BS_IO_SUCCESS \<longrightarrow> k = unat len \<and> ready st' os'"
    "content os' = content (rq_os rq)"
    using store_read [of "rq_bs rq" "rq_os rq" buf "ucast len" off] assms(1,2)
    by (auto simp: on_unit_def)
  with assms show ?thesis
    by (intro exI [of _ "r = BS_IO_SUCCESS"] exI [of _ k] exI [of _ st'] exI [of _ os'])
       (auto simp: rq_read_def on_unit_def ret_is_length_iff)
qed

lemma rq_write_effect:
  assumes "on_unit rq" and "request_ok buf (ucast len) off" and "len \<noteq> -1"
  shows "\<exists>ok k st' os'. rq_write tbl buf len off rq = Returns (ok, with_state rq st' os')
     \<and> k \<le> unat len \<and> (ok \<longrightarrow> k = unat len \<and> ready st' os')
     \<and> content os' = flat_write (content (rq_os rq)) (unat off) (take k buf)"
proof -
  obtain r k st' os' where
    "bs_pfn_write64 tbl fd buf (ucast len) off (rq_bs rq) (rq_os rq) = Returns (r, st', os')"
    "k \<le> unat len" "r = BS_IO_SUCCESS \<longrightarrow> k = unat len \<and> ready st' os'"
    "content os' = flat_write (content (rq_os rq)) (unat off) (take k buf)"
    using store_write [of "rq_bs rq" "rq_os rq" buf "ucast len" off] assms(1,2)
    by (auto simp: on_unit_def)
  with assms show ?thesis
    by (intro exI [of _ "r = BS_IO_SUCCESS"] exI [of _ k] exI [of _ st'] exI [of _ os'])
       (auto simp: rq_write_def on_unit_def ret_is_length_iff)
qed

lemma advise_noreuse_eq: "sc_fd (rq_cmd rq) = fd \<Longrightarrow> advise_noreuse tbl w len rq = Returns rq"
  by (simp add: advise_noreuse_def rq_advise_def store_advise)

lemma sync_eq: "sc_fd (rq_cmd rq) = fd \<Longrightarrow> bs_sync_sync_range tbl rq = Returns rq"
  by (simp add: bs_sync_sync_range_def store_sync)

text \<open>The label \<open>write\<close> without verification.\<close>

lemma rq_do_write_effect:
  assumes unit: "on_unit rq" and fit: "request_ok buf (ucast len) (sc_offset (rq_cmd rq))"
    and len: "len \<noteq> -1" and good: "rq_result rq = SAM_STAT_GOOD"
  shows "\<exists>rq' k. rq_do_write malloc tbl buf len False rq = Returns rq'
     \<and> rq_cmd rq' = rq_cmd rq \<and> k \<le> unat len
     \<and> content (rq_os rq') = flat_write (content (rq_os rq)) (unat (sc_offset (rq_cmd rq))) (take k buf)
     \<and> (rq_result rq' = SAM_STAT_GOOD \<longrightarrow> k = unat len \<and> on_unit rq')
     \<and> (rq_result rq' \<noteq> SAM_STAT_GOOD \<longrightarrow>
          rq_key rq' = (if sc_mode_page_8 (rq_cmd rq) = None \<and> k = unat len
                          \<and> rq_asc rq' = ASC_INVALID_FIELD_IN_CDB
                        then ILLEGAL_REQUEST else MEDIUM_ERROR))"
proof -
  obtain ok k st' os' where
    w: "rq_write tbl buf len (sc_offset (rq_cmd rq)) rq = Returns (ok, with_state rq st' os')"
    and k: "k \<le> unat len" "ok \<longrightarrow> k = unat len \<and> ready st' os'"
    and c: "content os' = flat_write (content (rq_os rq)) (unat (sc_offset (rq_cmd rq))) (take k buf)"
    using rq_write_effect [OF unit fit len] by blast
  have fd: "sc_fd (rq_cmd rq) = fd" using unit by (simp add: on_unit_def)
  define rq' where "rq' = (if \<not> ok then set_medium_error (with_state rq st' os')
      else if sc_mode_page_8 (rq_cmd rq) = None then invalid_field (with_state rq st' os')
      else with_state rq st' os')"
  have "rq_do_write malloc tbl buf len False rq = Returns rq'"
    using w fd
    by (auto simp: rq_do_write_def rq'_def Let_def advise_noreuse_eq sync_eq set_medium_error_def
        fail_with_def split: option.splits)
  then show ?thesis
    using k c good fd
    by (intro exI [of _ rq'] exI [of _ k])
       (auto simp: rq'_def on_unit_def set_medium_error_def invalid_field_def fail_with_def)
qed

text \<open>The read commands.\<close>

lemma rq_read_cmd_effect:
  assumes unit: "on_unit rq" and len: "sc_in_length (rq_cmd rq) \<noteq> -1"
    and fit: "request_ok (sc_in_buffer (rq_cmd rq)) (ucast (sc_in_length (rq_cmd rq)))
      (sc_offset (rq_cmd rq))"
    and good: "rq_result rq = SAM_STAT_GOOD"
  defines "n \<equiv> unat (sc_in_length (rq_cmd rq))" and "off \<equiv> unat (sc_offset (rq_cmd rq))"
  shows "\<exists>rq'. rq_read_cmd tbl rq = Returns rq' \<and> content (rq_os rq') = content (rq_os rq)
     \<and> (rq_result rq' = SAM_STAT_GOOD \<longrightarrow>
          take n (sc_in_buffer (rq_cmd rq')) = flat_read (content (rq_os rq)) off n)
     \<and> (rq_result rq' \<noteq> SAM_STAT_GOOD \<longrightarrow> rq_key rq' = MEDIUM_ERROR \<and> rq_asc rq' = ASC_READ_ERROR)"
proof -
  have fd: "sc_fd (rq_cmd rq) = fd" using unit by (simp add: on_unit_def)
  define buf where "buf = sc_in_buffer (rq_cmd rq)"
  obtain ok k st' os' where
    r: "rq_read tbl buf (sc_in_length (rq_cmd rq)) (sc_offset (rq_cmd rq)) rq
       = Returns (ok, splice_at buf 0 (flat_read (content (rq_os rq)) off k), with_state rq st' os')"
    and k: "k \<le> n" "ok \<longrightarrow> k = n" "content os' = content (rq_os rq)"
    using rq_read_effect [OF unit fit len] unfolding n_def off_def buf_def by blast
  define rq1 where "rq1 = (with_state rq st' os')\<lparr>rq_cmd := (rq_cmd rq)
      \<lparr>sc_in_buffer := splice_at buf 0 (flat_read (content (rq_os rq)) off k)\<rparr>\<rparr>"
  have "rq_read_cmd tbl rq = Returns (if ok then rq1 else set_medium_error rq1)"
    using r fd
    by (simp add: rq_read_cmd_def advise_noreuse_eq rq1_def set_medium_error_def fail_with_def
        flip: buf_def)
  moreover have "take n (splice_at buf 0 (flat_read (content (rq_os rq)) off n))
      = flat_read (content (rq_os rq)) off n" by (simp add: splice_at_def)
  ultimately show ?thesis
    using k good
    by (intro exI [of _ "if ok then rq1 else set_medium_error rq1"])
       (simp add: rq1_def set_medium_error_def fail_with_def)
qed

text \<open>\<open>COMPARE_AND_WRITE\<close> of \<open>n\<close> bytes.\<close>

lemma rq_compare_and_write_effect:
  assumes unit: "on_unit rq" and good: "rq_result rq = SAM_STAT_GOOD"
    and len: "sc_out_length (rq_cmd rq) div 2 = sc_tl (rq_cmd rq)" "sc_tl (rq_cmd rq) \<noteq> -1"
    and mem: "malloc (sc_tl (rq_cmd rq)) = Some tmp"
    and fit: "request_ok tmp (ucast (sc_tl (rq_cmd rq))) (sc_offset (rq_cmd rq))"
      "2 * unat (sc_tl (rq_cmd rq)) \<le> length (sc_out_buffer (rq_cmd rq))"
  defines "n \<equiv> unat (sc_tl (rq_cmd rq))" and "off \<equiv> unat (sc_offset (rq_cmd rq))"
    and "out \<equiv> sc_out_buffer (rq_cmd rq)" and "old \<equiv> content (rq_os rq)"
  shows "\<exists>rq'. rq_compare_and_write malloc tbl rq = Returns rq'
     \<and> (rq_result rq' = SAM_STAT_GOOD \<longrightarrow> take n out = flat_read old off n
          \<and> content (rq_os rq') = flat_write old off (take n (drop n out)))
     \<and> (take n out \<noteq> flat_read old off n \<longrightarrow> content (rq_os rq') = old
          \<and> rq_result rq' = SAM_STAT_CHECK_CONDITION \<and> rq_key rq' \<in> {MISCOMPARE, MEDIUM_ERROR})"
proof -
  define tl' where "tl' = sc_tl (rq_cmd rq)"
  have fd: "sc_fd (rq_cmd rq) = fd" using unit by (simp add: on_unit_def)
  obtain ok k st' os' where
    r: "rq_read tbl tmp tl' (sc_offset (rq_cmd rq)) rq
       = Returns (ok, splice_at tmp 0 (flat_read old off k), with_state rq st' os')"
    and k: "k \<le> n" "ok \<longrightarrow> k = n \<and> ready st' os'" "content os' = old"
    using rq_read_effect [OF unit fit(1) len(2)] unfolding n_def off_def old_def tl'_def by blast
  define rq1 where "rq1 = with_state rq st' os'"
  have rd: "take n (splice_at tmp 0 (flat_read old off n)) = flat_read old off n"
    by (simp add: splice_at_def)
  consider (failed) "\<not> ok" | (differs) ok "take n out \<noteq> flat_read old off n"
    | (equal) ok "take n out = flat_read old off n" by blast
  then show ?thesis
  proof cases
    case failed
    with r len mem k(3) show ?thesis
      by (intro exI [of _ "set_medium_error rq1"])
         (simp add: rq_compare_and_write_def rq1_def set_medium_error_def fail_with_def
           flip: tl'_def)
  next
    case differs
    with k(2) r have r': "rq_read tbl tmp tl' (sc_offset (rq_cmd rq)) rq
        = Returns (True, splice_at tmp 0 (flat_read old off n), rq1)" by (simp add: rq1_def)
    show ?thesis
      using r' differs rd len mem k(3)
      by (intro exI [of _ "fail_with MISCOMPARE ASC_MISCOMPARE_DURING_VERIFY_OPERATION
            (rq1\<lparr>rq_info := of_nat (miscompare_pos out (splice_at tmp 0 (flat_read old off n)) n)\<rparr>)"])
         (simp add: rq_compare_and_write_def Let_def fail_with_def rq1_def out_def n_def
           flip: tl'_def)
  next
    case equal
    with k(2) r have r': "rq_read tbl tmp tl' (sc_offset (rq_cmd rq)) rq
        = Returns (True, splice_at tmp 0 (flat_read old off n), rq1)" by (simp add: rq1_def)
    have unit1: "on_unit rq1" using fd k(2) equal(1) by (simp add: on_unit_def rq1_def)
    have fit1: "request_ok (drop n out) (ucast tl') (sc_offset (rq_cmd rq1))"
      using fit by (simp add: request_ok_def rq1_def n_def out_def tl'_def)
    have good1: "rq_result rq1 = SAM_STAT_GOOD" using good by (simp add: rq1_def)
    obtain rq' k' where w: "rq_do_write malloc tbl (drop n out) tl' False rq1 = Returns rq'"
      and c: "content (rq_os rq') = flat_write (content (rq_os rq1)) (unat (sc_offset (rq_cmd rq1)))
          (take k' (drop n out))"
      and g: "rq_result rq' = SAM_STAT_GOOD \<longrightarrow> k' = unat tl'"
      using rq_do_write_effect [OF unit1 fit1 _ good1, of malloc] len(2) unfolding tl'_def by blast
    have "rq_compare_and_write malloc tbl rq = Returns rq'"
      using r' equal rd len mem w fd
      by (simp add: rq_compare_and_write_def Let_def out_def n_def advise_noreuse_eq rq1_def
          flip: tl'_def)
    with equal c g k(3) show ?thesis
      by (intro exI [of _ rq']) (simp add: rq1_def n_def off_def tl'_def)
  qed
qed

end

section \<open>Properties of the handler\<close>

lemma on_unit_start:
  "backing_store.on_unit i (lun_ready g i col) (start_request cmd st os) \<longleftrightarrow> sc_fd cmd = i \<and> lun_ready g i col st os"
  by (simp add: simple_bs.on_unit_def start_request_def)

lemma start_request_simps [simp]:
  "rq_cmd (start_request cmd st os) = cmd" "rq_result (start_request cmd st os) = SAM_STAT_GOOD"
  "rq_os (start_request cmd st os) = os" "rq_bs (start_request cmd st os) = st"
  by (simp_all add: start_request_def)

definition ex_cmd :: "scsi_op \<Rightarrow> bytes \<Rightarrow> u32 \<Rightarrow> scsi_cmd" where
  "ex_cmd op out transfer = \<lparr>sc_op = op, sc_flags = 0, sc_fd = 0, sc_offset = 2, sc_tl = transfer,
     sc_out_length = of_nat (length out), sc_out_buffer = out, sc_in_length = transfer,
     sc_in_buffer = [9, 9], sc_blk_shift = 0, sc_dev_size = 12, sc_thinprovisioning = True,
     sc_mode_page_8 = Some 4\<rparr>"

lemma ex_lun_ready: "lun_ready ex_params 0 ex_collection (ex_open_table ex_lun) ex_live_os"
  using ex_live(1) ex_open_table_at [of ex_lun]
  by (auto simp: lun_ready_def FALSE_def TRUE_def)

text \<open>
  C32: A SCSI read of a ready logical unit returns in every environment and never changes a byte of
  the volume. Status good means that the data buffer holds exactly the bytes of the range; any
  other outcome is reported as a medium error.
\<close>

theorem scsi_read_delivers_range:
  assumes "sc_op cmd = READ_6 \<or> sc_op cmd = READ_10 \<or> sc_op cmd = READ_12 \<or> sc_op cmd = READ_16"
    and "lun_ready g (sc_fd cmd) col st os" and "sc_in_length cmd \<noteq> -1"
    and "request_ok (sc_in_buffer cmd) (ucast (sc_in_length cmd)) (sc_offset cmd)"
  shows "\<exists>rq'. bs_simpleOSD_request malloc (simpleOSD_bs_op mds ic g junk) (start_request cmd st os)
        = Returns rq' \<and> flat g col (rq_os rq') = flat g col os
      \<and> (rq_result rq' = SAM_STAT_GOOD \<longrightarrow> take (unat (sc_in_length cmd)) (sc_in_buffer (rq_cmd rq'))
           = flat_read (flat g col os) (unat (sc_offset cmd)) (unat (sc_in_length cmd)))
      \<and> (rq_result rq' \<noteq> SAM_STAT_GOOD \<longrightarrow> rq_key rq' = MEDIUM_ERROR \<and> rq_asc rq' = ASC_READ_ERROR)"
proof -
  have "bs_simpleOSD_request malloc (simpleOSD_bs_op mds ic g junk) (start_request cmd st os)
      = rq_read_cmd (simpleOSD_bs_op mds ic g junk) (start_request cmd st os)"
    using assms(1) by (auto simp: bs_simpleOSD_request_def)
  then show ?thesis
    using simple_bs.rq_read_cmd_effect [where g = g and i = "sc_fd cmd" and col = col
          and rq = "start_request cmd st os" and mds = mds and ic = ic and junk = junk]
      assms(2-4) by (simp add: on_unit_start)
qed

theorem scsi_read_delivers_range_witness:
  "\<exists>rq'. bs_simpleOSD_request (\<lambda>_. None)
        (simpleOSD_bs_op True False ex_params \<lparr>ba_lun_index = 0, ba_buf = [], ba_buf_len = 0, ba_offset = 0\<rparr>)
        (start_request (ex_cmd READ_10 [] 2) (ex_open_table ex_lun) ex_live_os) = Returns rq'
      \<and> (rq_result rq' \<noteq> SAM_STAT_GOOD \<or> take 2 (sc_in_buffer (rq_cmd rq')) = flat_read (\<lambda>_. 0) 2 2)"
  using scsi_read_delivers_range [of "ex_cmd READ_10 [] 2" ex_params ex_collection
      "ex_open_table ex_lun" ex_live_os "\<lambda>_. None" True False
      "\<lparr>ba_lun_index = 0, ba_buf = [], ba_buf_len = 0, ba_offset = 0\<rparr>"] ex_lun_ready
  by (auto simp: ex_cmd_def request_ok_def ex_live_flat)

text \<open>
  C9: \<open>COMPARE_AND_WRITE\<close> writes only what compared equal. On a ready unit it returns; status good
  means that the first half of the data equalled the range and that the range now holds the second
  half; if the first half differs from the range, no byte of the volume changes and the command
  fails with a miscompare, or with a medium error when the range could not be read.
\<close>

theorem scsi_compare_and_write:
  assumes "sc_op cmd = COMPARE_AND_WRITE" and "lun_ready g (sc_fd cmd) col st os"
    and "sc_out_length cmd div 2 = sc_tl cmd" and "sc_tl cmd \<noteq> -1"
    and "malloc (sc_tl cmd) = Some tmp"
    and "request_ok tmp (ucast (sc_tl cmd)) (sc_offset cmd)"
    and "2 * unat (sc_tl cmd) \<le> length (sc_out_buffer cmd)"
  shows "\<exists>rq'. bs_simpleOSD_request malloc (simpleOSD_bs_op mds ic g junk) (start_request cmd st os)
        = Returns rq'
      \<and> (rq_result rq' = SAM_STAT_GOOD \<longrightarrow>
           take (unat (sc_tl cmd)) (sc_out_buffer cmd)
             = flat_read (flat g col os) (unat (sc_offset cmd)) (unat (sc_tl cmd))
         \<and> flat g col (rq_os rq') = flat_write (flat g col os) (unat (sc_offset cmd))
             (take (unat (sc_tl cmd)) (drop (unat (sc_tl cmd)) (sc_out_buffer cmd))))
      \<and> (take (unat (sc_tl cmd)) (sc_out_buffer cmd)
             \<noteq> flat_read (flat g col os) (unat (sc_offset cmd)) (unat (sc_tl cmd)) \<longrightarrow>
           flat g col (rq_os rq') = flat g col os \<and> rq_result rq' = SAM_STAT_CHECK_CONDITION
         \<and> (rq_key rq' = MISCOMPARE \<or> rq_key rq' = MEDIUM_ERROR))"
  using simple_bs.rq_compare_and_write_effect
      [where g = g and i = "sc_fd cmd" and col = col and rq = "start_request cmd st os"
        and malloc = malloc and tmp = tmp and mds = mds and ic = ic and junk = junk] assms
  by (simp add: on_unit_start bs_simpleOSD_request_def)

theorem scsi_compare_and_write_witness:
  "\<exists>rq'. bs_simpleOSD_request (\<lambda>n. Some (replicate (unat n) 5))
        (simpleOSD_bs_op True False ex_params \<lparr>ba_lun_index = 0, ba_buf = [], ba_buf_len = 0, ba_offset = 0\<rparr>)
        (start_request (ex_cmd COMPARE_AND_WRITE [1, 0, 7, 8] 2) (ex_open_table ex_lun) ex_live_os)
        = Returns rq'
      \<and> rq_result rq' = SAM_STAT_CHECK_CONDITION \<and> flat ex_params ex_collection (rq_os rq') = (\<lambda>_. 0)"
proof -
  have "[1, 0] \<noteq> flat_read (\<lambda>_. 0 :: u8) 2 2" by (simp add: flat_read_def upt_rec)
  then show ?thesis
    using scsi_compare_and_write [of "ex_cmd COMPARE_AND_WRITE [1, 0, 7, 8] 2" ex_params
        ex_collection "ex_open_table ex_lun" ex_live_os "\<lambda>n. Some (replicate (unat n) 5)"
        "replicate 2 5" True False "\<lparr>ba_lun_index = 0, ba_buf = [], ba_buf_len = 0, ba_offset = 0\<rparr>"]
      ex_lun_ready
    by (auto simp: ex_cmd_def request_ok_def ex_live_flat)
qed

text \<open>
  An error of a read is taken for success when the length is \<open>0xffffffff\<close>: the handler stores -1
  for the error and compares it with the 32 bit length. With such a length a failed read leaves
  the status good, whatever the backing store.
\<close>

theorem scsi_read_error_lost:
  assumes "sc_op cmd = READ_16" and "sc_in_length cmd = -1" and "sc_flags cmd = 0"
    and "bs_pfn_read64 tbl (sc_fd cmd) (sc_in_buffer cmd) (ucast (-1 :: u32)) (sc_offset cmd) st os
      = Returns (BS_IO_ERROR, buf, st', os')"
  shows "\<exists>rq'. bs_simpleOSD_request malloc tbl (start_request cmd st os) = Returns rq'
      \<and> rq_result rq' = SAM_STAT_GOOD"
  using assms
  by (simp add: bs_simpleOSD_request_def rq_read_cmd_def rq_read_def ret_is_length_def
      advise_noreuse_def flag_def Let_def)

theorem scsi_read_error_lost_witness:
  "\<exists>rq'. bs_simpleOSD_request (\<lambda>_. None)
        (simpleOSD_bs_op True False ex_params \<lparr>ba_lun_index = 0, ba_buf = [], ba_buf_len = 0, ba_offset = 0\<rparr>)
        (start_request (ex_cmd READ_16 [] (-1)) (ex_empty_table ex_lun) ex_os) = Returns rq'
      \<and> rq_result rq' = SAM_STAT_GOOD"
proof (rule scsi_read_error_lost)
  show "bs_pfn_read64
        (simpleOSD_bs_op True False ex_params \<lparr>ba_lun_index = 0, ba_buf = [], ba_buf_len = 0, ba_offset = 0\<rparr>)
        (sc_fd (ex_cmd READ_16 [] (-1))) (sc_in_buffer (ex_cmd READ_16 [] (-1))) (ucast (-1 :: u32))
        (sc_offset (ex_cmd READ_16 [] (-1))) (ex_empty_table ex_lun) ex_os
      = Returns (BS_IO_ERROR, [9, 9], ex_empty_table ex_lun, ex_os)"
    by (simp add: simpleOSD_bs_op_def Let_def simpleOSD_read_def simpleOSD_blk_op_def
        simpleOSD_blk_read_def ex_cmd_def lun_slot_def ex_empty_table_def VAL_POINTER_def)
qed (simp_all add: ex_cmd_def)

end
