(* ===== verification/Tgt_Loops.thy ===== *)
theory Tgt_Loops
  imports Tgt_Props
begin

text \<open>
  The two handler branches with loops, \<open>WRITE_SAME\<close> and \<open>UNMAP\<close>, and the open of a logical unit.
  The store on which a write in range always succeeds is the locale \<open>steady_store\<close>, an extension
  of \<open>backing_store\<close>, interpreted on a live volume of this library.
\<close>

section \<open>A store that does not fail\<close>

locale steady_store = backing_store +
  fixes live :: "bs_state \<Rightarrow> os \<Rightarrow> bool" and in_range :: "nat \<Rightarrow> nat \<Rightarrow> bool"
  assumes steady_write:
    "live st os \<Longrightarrow> request_ok buf len off \<Longrightarrow> in_range (unat off) (unat len) \<Longrightarrow>
     \<exists>st' os'. bs_pfn_write64 tbl fd buf len off st os = Returns (BS_IO_SUCCESS, st', os')
       \<and> live st' os' \<and> content os' = flat_write (content os) (unat off) (take (unat len) buf)"

definition lun_live :: "blk_frontend_parameters \<Rightarrow> i32 \<Rightarrow> osd_collection \<Rightarrow> bs_state \<Rightarrow> os \<Rightarrow> bool"
  where "lun_live g i col st os \<longleftrightarrow> lun_ready g i col st os \<and> vol_live g col os"

interpretation live_bs: steady_store "simpleOSD_bs_op mds ic g junk" i "lun_ready g i col"
    "flat g col" "lun_live g i col" "range_ok col" for mds ic g junk i col
proof
  fix st os buf and len off :: u64
  assume "lun_live g i col st os" and rq: "request_ok buf len off"
    and rng: "range_ok col (unat off) (unat len)"
  then obtain lun where at: "lun_at st i = Some lun" and fmt: "ol_is_fs_done lun \<noteq> FALSE"
    and col: "ol_collection lun = col" and vr: "volume_ready g (ol_collection lun) os"
    and vl: "vol_live g col os"
    by (auto simp: lun_live_def lun_ready_def)
  have "lun_at (mark_lun st i) i = Some lun"
    using lun_at_mark_lun [OF at] fmt by (simp add: mark_fs_def)
  then show "\<exists>st' os'. bs_pfn_write64 (simpleOSD_bs_op mds ic g junk) i buf len off st os
        = Returns (BS_IO_SUCCESS, st', os')
      \<and> lun_live g i col st' os'
      \<and> flat g col os' = flat_write (flat g col os) (unat off) (take (unat len) buf)"
    using osd_table.bs_write_effect [OF at vr rq, of junk] fmt vl rng
    by (fastforce simp: simpleOSD_bs_op_def Let_def lun_live_def lun_ready_def col)
qed

section \<open>Write same\<close>

lemma unat_power2: "s < LENGTH('a) \<Longrightarrow> unat (2 ^ s :: 'a::len word) = 2 ^ s"
  using unat_of_nat_small [of "2 ^ s", where 'a = 'a] by simp

lemma unat_blocksize:
  "sc_blk_shift cmd < 31 \<Longrightarrow> unat (blocksize cmd) = 2 ^ sc_blk_shift cmd"
  using unat_power2 [of "sc_blk_shift cmd", where 'a = 64]
  by (simp add: blocksize_def push_bit_eq_mult)

lemma ucast_blocksize:
  assumes "sc_blk_shift cmd < 31"
  shows "(ucast (blocksize cmd) :: u32) = 2 ^ sc_blk_shift cmd"
proof -
  have "(ucast (blocksize cmd) :: u32) = of_nat (unat (blocksize cmd))" by simp
  then show ?thesis using unat_blocksize [OF assms] by simp
qed

text \<open>Whatever the store does, a step keeps the block size.\<close>

lemma write_same_step_shift:
  "write_same_step tbl off rq = Returns rq1 \<Longrightarrow> sc_blk_shift (rq_cmd rq1) = sc_blk_shift (rq_cmd rq)"
  by (auto simp: write_same_step_def Let_def c_bind_eq_Returns_iff set_medium_error_def
      fail_with_def split: prod.splits if_splits)

text \<open>Counting down by the block size, wrap-around included, keeps the remainder.\<close>

lemma dvd_count_down:
  assumes "s < 31" and "2 ^ s dvd unat (x - 2 ^ s :: u32)"
  shows "2 ^ s dvd unat x"
proof -
  have "(2 :: nat) ^ s dvd 2 ^ 32" by (rule le_imp_power_dvd) (use assms(1) in simp)
  moreover have "unat x = (unat (x - 2 ^ s) + unat (2 ^ s :: u32)) mod 2 ^ 32"
    using unat_word_ariths(1) [of "x - 2 ^ s" "2 ^ s"] by simp
  ultimately show ?thesis
    using assms unat_power2 [of s, where 'a = 32] by (simp add: dvd_mod_iff)
qed

lemma write_same_loop_whole_blocks:
  assumes "write_same_loop tbl off todo rq = Some res" and "sc_blk_shift (rq_cmd rq) < 31"
    and "res = Returns rq'"
  shows "2 ^ sc_blk_shift (rq_cmd rq) dvd unat todo"
  using assms(2,3)
proof (induction arbitrary: rq' rule: write_same_loop.raw_induct [OF _ assms(1)])
  case (1 loop tbl off todo rq res)
  show ?case
  proof (cases "todo = 0")
    case False
    with "1"(2) "1.prems" obtain rq1 where step: "write_same_step tbl off rq = Returns rq1"
      and rec: "loop tbl (off + blocksize (rq_cmd rq)) (todo - ucast (blocksize (rq_cmd rq))) rq1
        = Some res"
      by (auto split: c_result.splits)
    have "2 ^ sc_blk_shift (rq_cmd rq) dvd unat (todo - 2 ^ sc_blk_shift (rq_cmd rq))"
      using "1"(1) [OF rec] "1.prems" write_same_step_shift [OF step]
      by (simp add: ucast_blocksize)
    then show ?thesis using "1.prems"(1) by (rule dvd_count_down [rotated])
  qed simp
qed


context steady_store
begin

lemma write_same_step_fills:
  assumes "sc_fd (rq_cmd rq) = fd" and "live (rq_bs rq) (rq_os rq)"
    and "sc_flags (rq_cmd rq) AND 6 = 0"
    and "request_ok (sc_out_buffer (rq_cmd rq)) (blocksize (rq_cmd rq)) off"
    and "in_range (unat off) (unat (blocksize (rq_cmd rq)))"
  shows "\<exists>st' os'. write_same_step tbl off rq = Returns (with_state rq st' os') \<and> live st' os'
     \<and> content os' = flat_write (content (rq_os rq)) (unat off)
         (take (unat (blocksize (rq_cmd rq))) (sc_out_buffer (rq_cmd rq)))"
proof -
  have "write_same_data rq off (sc_out_buffer (rq_cmd rq)) = sc_out_buffer (rq_cmd rq)"
    using assms(3) by (simp add: write_same_data_def)
  then show ?thesis
    using steady_write [OF assms(2,4,5)] assms(1)
    by (fastforce simp: write_same_step_def Let_def)
qed

lemma write_same_loop_fills:
  assumes "sc_fd (rq_cmd rq) = fd" and "live (rq_bs rq) (rq_os rq)"
    and "sc_flags (rq_cmd rq) AND 6 = 0" and "sc_blk_shift (rq_cmd rq) < 31"
    and "2 ^ sc_blk_shift (rq_cmd rq) \<le> length (sc_out_buffer (rq_cmd rq))"
    and "unat todo = n * 2 ^ sc_blk_shift (rq_cmd rq)"
    and "unat off + unat todo < 18446744073709551616"
    and "\<And>j. j < n \<Longrightarrow> in_range (unat off + j * 2 ^ sc_blk_shift (rq_cmd rq))
           (2 ^ sc_blk_shift (rq_cmd rq))"
  shows "\<exists>st' os'. write_same_loop tbl off todo rq = Some (Returns (with_state rq st' os'))
     \<and> content os' = flat_write (content (rq_os rq)) (unat off)
         (concat (replicate n (take (2 ^ sc_blk_shift (rq_cmd rq)) (sc_out_buffer (rq_cmd rq)))))"
  using assms
proof (induction n arbitrary: off todo rq)
  case 0
  then have "todo = 0" by (simp add: unat_eq_zero)
  then show ?case
    by (subst write_same_loop.simps) (auto intro!: exI [of _ "rq_bs rq"] exI [of _ "rq_os rq"])
next
  case (Suc n)
  let ?b = "2 ^ sc_blk_shift (rq_cmd rq) :: nat" and ?buf = "sc_out_buffer (rq_cmd rq)"
  note bs = unat_blocksize [OF Suc.prems(4)]
  have todo: "unat todo = ?b + n * ?b" using Suc.prems(6) by simp
  obtain st1 os1 where step: "write_same_step tbl off rq = Returns (with_state rq st1 os1)"
    and live: "live st1 os1"
    and c1: "content os1 = flat_write (content (rq_os rq)) (unat off) (take ?b ?buf)"
    using write_same_step_fills [OF Suc.prems(1-3), of off] Suc.prems(5,7) Suc.prems(8) [of 0] todo
    by (auto simp: bs request_ok_def)
  have t': "unat (todo - 2 ^ sc_blk_shift (rq_cmd rq)) = n * ?b"
    using unat_power2 [of "sc_blk_shift (rq_cmd rq)", where 'a = 32] Suc.prems(4) todo
    by (subst unat_diff_le) simp_all
  have o': "unat (off + blocksize (rq_cmd rq)) = unat off + ?b"
    using Suc.prems(7) todo by (subst unat_add_no_wrap) (simp_all add: bs)
  have "\<exists>st' os'. write_same_loop tbl (off + blocksize (rq_cmd rq))
        (todo - 2 ^ sc_blk_shift (rq_cmd rq)) (with_state rq st1 os1)
        = Some (Returns (with_state (with_state rq st1 os1) st' os'))
      \<and> content os' = flat_write (content os1) (unat off + ?b) (concat (replicate n (take ?b ?buf)))"
    using Suc.IH [of "with_state rq st1 os1" "todo - 2 ^ sc_blk_shift (rq_cmd rq)"
        "off + blocksize (rq_cmd rq)"] Suc.prems live t' o' todo Suc.prems(8) [of "Suc _"]
    by (simp add: add.assoc)
  moreover have "flat_write (content os1) (unat off + ?b) (concat (replicate n (take ?b ?buf)))
      = flat_write (content (rq_os rq)) (unat off) (concat (replicate (Suc n) (take ?b ?buf)))"
    using flat_write_append [of "content (rq_os rq)" "unat off" "take ?b ?buf"] Suc.prems(5)
    by (simp add: c1 min_absorb2)
  moreover have "todo \<noteq> 0" using todo by auto
  ultimately show ?case
    by (subst write_same_loop.simps) (simp add: step ucast_blocksize [OF Suc.prems(4)])
qed

end


section \<open>Unmap\<close>

declare unmap_loop.simps [simp del]

text \<open>
  The \<open>k\<close>-th descriptor of the parameter list as the handler reads it: byte offset and byte
  length, both shifted in their C type. \<open>desc_in_range\<close> is the test against the end of the device.
\<close>

definition unmap_desc :: "scsi_cmd \<Rightarrow> bytes \<Rightarrow> nat \<Rightarrow> u64 \<times> u32" where
  "unmap_desc cmd buf k = (push_bit (sc_blk_shift cmd) (of_nat (get_unaligned_be buf (16 * k) 8)),
     push_bit (sc_blk_shift cmd) (of_nat (get_unaligned_be buf (16 * k + 8) 4)))"

definition desc_in_range :: "scsi_cmd \<Rightarrow> bytes \<Rightarrow> nat \<Rightarrow> bool" where
  "desc_in_range cmd buf k \<longleftrightarrow>
     fst (unmap_desc cmd buf k) + ucast (snd (unmap_desc cmd buf k)) \<le> sc_dev_size cmd"

lemma unmap_desc_drop: "unmap_desc cmd (drop 16 buf) k = unmap_desc cmd buf (Suc k)"
  by (simp add: unmap_desc_def get_unaligned_be_def slice_def add.commute add.left_commute)

lemma all_less_Suc_shift: "(\<forall>k < Suc n. P k) \<longleftrightarrow> P 0 \<and> (\<forall>k < n. P (Suc k))"
  by (metis less_Suc_eq_0_disj)

context backing_store
begin

lemma unmap_loop_effect:
  assumes "sc_fd (rq_cmd rq) = fd"
  shows "unmap_loop tbl buf len rq = Returns
     (if \<forall>k < unat len div 16. desc_in_range (rq_cmd rq) buf k then rq
      else fail_with ILLEGAL_REQUEST ASC_LBA_OUT_OF_RANGE rq)"
  using assms
proof (induction "unat len" arbitrary: buf len rule: less_induct)
  case less
  let ?step = "unmap_loop tbl (drop 16 buf) (len - 16) rq"
  show ?case
  proof (cases "unat len < 16")
    case False
    then have n: "unat len div 16 = Suc (unat (len - 16) div 16)"
      by (subst unat_diff_le) (simp_all add: le_div_geq)
    have all: "(\<forall>k < unat len div 16. desc_in_range (rq_cmd rq) buf k)
        \<longleftrightarrow> desc_in_range (rq_cmd rq) buf 0
          \<and> (\<forall>k < unat (len - 16) div 16. desc_in_range (rq_cmd rq) (drop 16 buf) k)"
      by (simp only: n all_less_Suc_shift desc_in_range_def unmap_desc_drop)
    have "unmap_loop tbl buf len rq
        = (if desc_in_range (rq_cmd rq) buf 0 then ?step
           else Returns (fail_with ILLEGAL_REQUEST ASC_LBA_OUT_OF_RANGE rq))"
      using False less.prems
      by (subst unmap_loop.simps)
         (auto simp: Let_def store_unmap desc_in_range_def unmap_desc_def not_less word_gt_0)
    then show ?thesis
      using less.hyps [OF unmap_length_decreases [OF False] less.prems] by (simp add: all)
  qed (simp add: unmap_loop.simps)
qed

end

section \<open>Properties\<close>

lemma ex_lun_live: "lun_live ex_params 0 ex_collection (ex_open_table ex_lun) ex_live_os"
  using ex_lun_ready ex_live(2) by (simp add: lun_live_def)

text \<open>
  C30: \<open>WRITE_SAME\<close> without the flags that vary the data fills the range with copies of one block:
  on a live unit, for a length of a whole number of blocks each inside the volume, the command
  returns with status good and the volume's array holds the copies one after the other.
\<close>

theorem scsi_write_same_fills:
  assumes "sc_op cmd = WRITE_SAME \<or> sc_op cmd = WRITE_SAME_16"
    and "lun_live g (sc_fd cmd) col st os" and "sc_flags cmd AND 0xe = 0" and "sc_blk_shift cmd < 31"
    and "2 ^ sc_blk_shift cmd \<le> length (sc_out_buffer cmd)"
    and "unat (sc_tl cmd) = n * 2 ^ sc_blk_shift cmd"
    and "unat (sc_offset cmd) + unat (sc_tl cmd) < 18446744073709551616"
    and "\<And>j. j < n \<Longrightarrow>
      range_ok col (unat (sc_offset cmd) + j * 2 ^ sc_blk_shift cmd) (2 ^ sc_blk_shift cmd)"
  shows "\<exists>rq'. bs_simpleOSD_request malloc (simpleOSD_bs_op mds ic g junk) (start_request cmd st os)
        = Returns rq' \<and> rq_result rq' = SAM_STAT_GOOD
      \<and> flat g col (rq_os rq') = flat_write (flat g col os) (unat (sc_offset cmd))
          (concat (replicate n (take (2 ^ sc_blk_shift cmd) (sc_out_buffer cmd))))"
proof -
  have bits: "sc_flags cmd AND 6 = 0" "sc_flags cmd AND 8 = 0"
  proof -
    have "sc_flags cmd AND 6 = (sc_flags cmd AND 0xe) AND 6"
      "sc_flags cmd AND 8 = (sc_flags cmd AND 0xe) AND 8"
      by (simp_all add: and.assoc)
    then show "sc_flags cmd AND 6 = 0" "sc_flags cmd AND 8 = 0" by (simp_all add: assms(3))
  qed
  have "bs_simpleOSD_request malloc (simpleOSD_bs_op mds ic g junk) (start_request cmd st os)
      = rq_write_same (simpleOSD_bs_op mds ic g junk) (start_request cmd st os)"
    using assms(1) by (auto simp: bs_simpleOSD_request_def)
  then show ?thesis
    using live_bs.write_same_loop_fills [where g = g and i = "sc_fd cmd" and col = col
        and rq = "start_request cmd st os" and mds = mds and ic = ic and junk = junk
        and todo = "sc_tl cmd" and off = "sc_offset cmd" and n = n] assms(2-) bits
    by (auto simp: rq_write_same_def flag_def)
qed

theorem scsi_write_same_fills_witness:
  "\<exists>rq'. bs_simpleOSD_request (\<lambda>_. None)
        (simpleOSD_bs_op True False ex_params \<lparr>ba_lun_index = 0, ba_buf = [], ba_buf_len = 0, ba_offset = 0\<rparr>)
        (start_request (ex_cmd WRITE_SAME [7, 8] 4 \<lparr>sc_blk_shift := 1\<rparr>) (ex_open_table ex_lun) ex_live_os)
        = Returns rq' \<and> rq_result rq' = SAM_STAT_GOOD
      \<and> flat ex_params ex_collection (rq_os rq') = flat_write (\<lambda>_. 0) 2 [7, 8, 7, 8]"
proof -
  have copies: "concat (replicate 2 [7, 8 :: u8]) = [7, 8, 7, 8]" by (simp add: eval_nat_numeral)
  have "range_ok ex_collection (2 + j * 2) 2" if "j < 2" for j
    using that by (auto simp: range_ok_def less_2_cases_iff)
  then show ?thesis
    using scsi_write_same_fills [of "ex_cmd WRITE_SAME [7, 8] 4 \<lparr>sc_blk_shift := 1\<rparr>" ex_params
        ex_collection "ex_open_table ex_lun" ex_live_os 2 "\<lambda>_. None" True False
        "\<lparr>ba_lun_index = 0, ba_buf = [], ba_buf_len = 0, ba_offset = 0\<rparr>"] ex_lun_live
    by (simp add: ex_cmd_def ex_live_flat copies)
qed

text \<open>
  C31: \<open>WRITE_SAME\<close> with a length that is not a multiple of the block size never ends: the unsigned
  remainder wraps below zero and is never 0 again. This holds for every backing store.
\<close>

theorem scsi_write_same_partial_block:
  assumes "sc_op cmd = WRITE_SAME \<or> sc_op cmd = WRITE_SAME_16" and "sc_flags cmd AND 8 = 0"
    and "sc_blk_shift cmd < 31" and "\<not> 2 ^ sc_blk_shift cmd dvd unat (sc_tl cmd)"
  shows "bs_simpleOSD_request malloc tbl (start_request cmd st os) \<noteq> Returns rq'"
proof
  assume "bs_simpleOSD_request malloc tbl (start_request cmd st os) = Returns rq'"
  then have "write_same_loop tbl (sc_offset cmd) (sc_tl cmd) (start_request cmd st os)
      = Some (Returns rq')"
    using assms(1,2)
    by (auto simp: bs_simpleOSD_request_def rq_write_same_def flag_def split: option.splits)
  from write_same_loop_whole_blocks [OF this] assms(3,4) show False by simp
qed

theorem scsi_write_same_partial_block_witness:
  "bs_simpleOSD_request (\<lambda>_. None)
     (simpleOSD_bs_op True False ex_params \<lparr>ba_lun_index = 0, ba_buf = [], ba_buf_len = 0, ba_offset = 0\<rparr>)
     (start_request (ex_cmd WRITE_SAME [7, 8] 3 \<lparr>sc_blk_shift := 1\<rparr>) (ex_open_table ex_lun) ex_live_os)
   \<noteq> Returns (start_request (ex_cmd WRITE_SAME [7, 8] 3) (ex_open_table ex_lun) ex_live_os)"
  by (rule scsi_write_same_partial_block) (simp_all add: ex_cmd_def)

text \<open>
  \<open>UNMAP\<close> always returns and changes neither a byte nor the table: the store only accepts the
  advice. Status good means that every 16 byte descriptor passed the test against the end of the
  device; otherwise the command is refused with an address out of range.
\<close>

theorem scsi_unmap_keeps_data:
  assumes "sc_op cmd = UNMAP" and "sc_thinprovisioning cmd" and "8 \<le> sc_out_length cmd"
  shows "\<exists>rq'. bs_simpleOSD_request malloc (simpleOSD_bs_op mds ic g junk) (start_request cmd st os)
        = Returns rq' \<and> rq_os rq' = os \<and> rq_bs rq' = st
      \<and> (if \<forall>k < (unat (sc_out_length cmd) - 8) div 16. desc_in_range cmd (drop 8 (sc_out_buffer cmd)) k
         then rq_result rq' = SAM_STAT_GOOD
         else rq_result rq' = SAM_STAT_CHECK_CONDITION \<and> rq_key rq' = ILLEGAL_REQUEST
           \<and> rq_asc rq' = ASC_LBA_OUT_OF_RANGE)"
proof -
  have "unat (sc_out_length cmd - 8) = unat (sc_out_length cmd) - 8"
    using assms(3) by (subst unat_diff_le) (simp_all add: word_le_nat_alt)
  then show ?thesis
    using simple_bs.unmap_loop_effect [where i = "sc_fd cmd" and rq = "start_request cmd st os"
        and mds = mds and ic = ic and g = g and junk = junk] assms
    by (auto simp: bs_simpleOSD_request_def rq_unmap_def fail_with_def not_less)
qed

theorem scsi_unmap_keeps_data_witness:
  "\<exists>rq'. bs_simpleOSD_request (\<lambda>_. None)
        (simpleOSD_bs_op True False ex_params \<lparr>ba_lun_index = 0, ba_buf = [], ba_buf_len = 0, ba_offset = 0\<rparr>)
        (start_request (ex_cmd UNMAP [0, 0, 0, 0, 0, 0, 0, 0, 0, 0, 0, 0, 0, 0, 0, 0, 0, 0, 0, 13, 0, 0, 0, 0] 0)
           (ex_open_table ex_lun) ex_live_os) = Returns rq' \<and> rq_os rq' = ex_live_os
      \<and> rq_result rq' = SAM_STAT_CHECK_CONDITION"
proof -
  let ?c = "ex_cmd UNMAP [0, 0, 0, 0, 0, 0, 0, 0, 0, 0, 0, 0, 0, 0, 0, 0, 0, 0, 0, 13, 0, 0, 0, 0] 0"
  have "\<not> desc_in_range ?c (drop 8 (sc_out_buffer ?c)) 0"
    by (simp add: desc_in_range_def unmap_desc_def get_unaligned_be_def slice_def ex_cmd_def)
  then show ?thesis
    using scsi_unmap_keeps_data [of ?c "\<lambda>_. None" True False ex_params
        "\<lparr>ba_lun_index = 0, ba_buf = [], ba_buf_len = 0, ba_offset = 0\<rparr>"
        "ex_open_table ex_lun" ex_live_os]
    by (auto simp: ex_cmd_def split: if_splits)
qed


text \<open>
  Opening a logical unit follows the open of its LUN. With the built-in metadata the unit gets
  the slot's index as its descriptor, the size of the volume and a block size of 4096 bytes unless
  that is turned off; in the shipped build the open fails and the unit is left as it was. The
  second, read-only attempt is never made, whatever \<open>errno\<close> says.
\<close>

theorem scsi_lu_open:
  assumes "open_ready st path"
  shows "\<exists>st'. bs_simpleOSD_open (simpleOSD_bs_op mds False g junk) denied lu path fd0 sz0 st os
      = Returns (if mds
          then (TGTADM_SUCCESS, (if lu_no_auto_lbppbe lu then lu else lu\<lparr>lu_lbppbe := Some 4096\<rparr>),
                of_nat (open_slot st), 104857600, st', os)
          else (-1, lu, fd0, sz0, st', os))
      \<and> slots st' = (slots st)[open_slot st := In_Use]"
proof -
  have "open_slot st < 20" using assms by (simp add: open_ready_def bs_ok_def NB_MAX_LUN_def)
  then have fd: "sint (of_nat (open_slot st) :: i32) = int (open_slot st)"
    by (intro sint_of_nat_small) simp
  obtain r outs' st' where run: "simpleOSD_lun_open mds False g path
        (O_RDWR OR O_LARGEFILE OR lu_bsoflags lu) (sz0, 0, fd0) st os = Returns (r, outs', st', os)"
    and sl: "slots st' = (slots st)[open_slot st := In_Use]"
    and err: "r = BS_IO_ERROR \<longrightarrow> outs' = (sz0, 0, fd0)" and r: "r = (if mds then BS_IO_SUCCESS else BS_IO_ERROR)"
    and ok: "mds \<longrightarrow> outs' = (104857600, 4096, of_nat (open_slot st))"
    using lun_open_effect [OF assms, of mds g "O_RDWR OR O_LARGEFILE OR lu_bsoflags lu"
        "(sz0, 0, fd0)" os] by blast
  show ?thesis
    by (intro exI [of _ st'], cases mds)
       (use run sl err r ok fd in \<open>simp_all add: bs_simpleOSD_open_def simpleOSD_bs_op_def Let_def\<close>)
qed

theorem scsi_lu_open_witness:
  "\<exists>st'. bs_simpleOSD_open (simpleOSD_bs_op True False ex_params
          \<lparr>ba_lun_index = 0, ba_buf = [], ba_buf_len = 0, ba_offset = 0\<rparr>) True
        \<lparr>lu_fd = -1, lu_bsoflags = 0, lu_readonly = False, lu_no_auto_lbppbe = False, lu_lbppbe = None\<rparr>
        ''vol'' 5 0 (ex_empty_table ex_lun) ex_os
      = Returns (0, \<lparr>lu_fd = -1, lu_bsoflags = 0, lu_readonly = False, lu_no_auto_lbppbe = False,
            lu_lbppbe = Some 4096\<rparr>, 0, 104857600, st', ex_os)"
proof -
  have "open_ready (ex_empty_table ex_lun) ''vol''"
    by (rule ex_empty_table_ready) (simp add: MAXNAMESIZE_def)
  moreover have "open_slot (ex_empty_table ex_lun) = 0"
    by (simp add: ex_empty_table_def numeral_eq_Suc)
  ultimately show ?thesis
    using scsi_lu_open [of "ex_empty_table ex_lun" "''vol''" True ex_params
        "\<lparr>ba_lun_index = 0, ba_buf = [], ba_buf_len = 0, ba_offset = 0\<rparr>" True
        "\<lparr>lu_fd = -1, lu_bsoflags = 0, lu_readonly = False, lu_no_auto_lbppbe = False, lu_lbppbe = None\<rparr>"
        5 0 ex_os]
    by (auto simp: TGTADM_SUCCESS_def)
qed

end
