(* ===== verification/Tgt_Write.thy ===== *)
theory Tgt_Write
  imports Tgt_Loops
begin

text \<open>
  The write commands of the SCSI handler and the commands that read before or instead of writing:
  what a write leaves for a later read, \<open>ORWRITE\<close> and \<open>VERIFY\<close>, again for every backing store
  that keeps the contract and then for the store of this library.
\<close>

section \<open>Verify and or-write on a store that keeps the contract\<close>

lemma take_or_bytes:
  assumes "n \<le> length p" and "n \<le> length q"
  shows "take n (or_bytes p q n) = map2 (OR) (take n p) (take n q)"
  using assms by (simp add: or_bytes_def)

lemma length_or_bytes [simp]:
  "n \<le> length p \<Longrightarrow> n \<le> length q \<Longrightarrow> length (or_bytes p q n) = length p"
  by (simp add: or_bytes_def)

text \<open>The data a successful transfer of \<open>n\<close> bytes has put at the start of a buffer.\<close>

lemma take_splice_flat [simp]: "take n (splice_at buf 0 (flat_read f off n)) = flat_read f off n"
  by (simp add: splice_at_def)

context backing_store
begin

lemma rq_verify_effect:
  assumes unit: "on_unit rq" and len: "sc_out_length (rq_cmd rq) \<noteq> -1"
    and mem: "malloc (sc_out_length (rq_cmd rq)) = Some tmp"
    and fit: "request_ok tmp (ucast (sc_out_length (rq_cmd rq))) (sc_offset (rq_cmd rq))"
    and good: "rq_result rq = SAM_STAT_GOOD"
  defines "n \<equiv> unat (sc_out_length (rq_cmd rq))"
    and "old \<equiv> flat_read (content (rq_os rq)) (unat (sc_offset (rq_cmd rq))) (unat (sc_out_length (rq_cmd rq)))"
  shows "\<exists>rq'. rq_verify malloc tbl rq = Returns rq' \<and> content (rq_os rq') = content (rq_os rq)
     \<and> (rq_result rq' = SAM_STAT_GOOD \<longrightarrow> take n (sc_out_buffer (rq_cmd rq)) = old)
     \<and> (rq_result rq' \<noteq> SAM_STAT_GOOD \<longrightarrow> rq_key rq' = MEDIUM_ERROR
          \<or> rq_key rq' = MISCOMPARE \<and> take n (sc_out_buffer (rq_cmd rq)) \<noteq> old)"
proof -
  have fd: "sc_fd (rq_cmd rq) = fd" using unit by (simp add: on_unit_def)
  obtain ok k st' os' where
    r: "rq_read tbl tmp (sc_out_length (rq_cmd rq)) (sc_offset (rq_cmd rq)) rq
       = Returns (ok, splice_at tmp 0 (flat_read (content (rq_os rq)) (unat (sc_offset (rq_cmd rq))) k),
           with_state rq st' os')"
    and k: "ok \<longrightarrow> k = n" "content os' = content (rq_os rq)"
    using rq_read_effect [OF unit fit len] unfolding n_def by blast
  define rq' where "rq' = (if \<not> ok then set_medium_error (with_state rq st' os')
      else if take n (sc_out_buffer (rq_cmd rq)) \<noteq> old
      then fail_with MISCOMPARE ASC_MISCOMPARE_DURING_VERIFY_OPERATION (with_state rq st' os')
      else with_state rq st' os')"
  have "rq_verify malloc tbl rq = Returns rq'"
    using r k(1) fd mem
    by (auto simp: rq_verify_def Let_def rq'_def old_def n_def advise_noreuse_eq
        set_medium_error_def fail_with_def)
  then show ?thesis
    using k(2) good
    by (intro exI [of _ rq']) (auto simp: rq'_def set_medium_error_def fail_with_def)
qed

lemma rq_orwrite_effect:
  assumes unit: "on_unit rq" and len: "sc_out_length (rq_cmd rq) \<noteq> -1"
    and mem: "malloc (sc_out_length (rq_cmd rq)) = Some tmp"
    and fit: "request_ok tmp (ucast (sc_out_length (rq_cmd rq))) (sc_offset (rq_cmd rq))"
      "unat (sc_out_length (rq_cmd rq)) \<le> length (sc_out_buffer (rq_cmd rq))"
    and good: "rq_result rq = SAM_STAT_GOOD"
  defines "n \<equiv> unat (sc_out_length (rq_cmd rq))" and "off \<equiv> unat (sc_offset (rq_cmd rq))"
    and "old \<equiv> content (rq_os rq)" and "data \<equiv> take (unat (sc_out_length (rq_cmd rq))) (sc_out_buffer (rq_cmd rq))"
  shows "\<exists>rq' k. rq_orwrite malloc tbl rq = Returns rq' \<and> k \<le> n
     \<and> content (rq_os rq') = flat_write old off (take k (map2 (OR) data (flat_read old off n)))
     \<and> (rq_result rq' = SAM_STAT_GOOD \<longrightarrow> k = n \<and> on_unit rq')"
proof -
  let ?len = "sc_out_length (rq_cmd rq)"
  have fd: "sc_fd (rq_cmd rq) = fd" using unit by (simp add: on_unit_def)
  obtain ok k st' os' where
    r: "rq_read tbl tmp ?len (sc_offset (rq_cmd rq)) rq
       = Returns (ok, splice_at tmp 0 (flat_read old off k), with_state rq st' os')"
    and k: "ok \<longrightarrow> k = n \<and> ready st' os'" "content os' = old"
    using rq_read_effect [OF unit fit(1) len] unfolding n_def old_def off_def by blast
  show ?thesis
  proof (cases ok)
    case False
    with r mem k(2) show ?thesis
      by (intro exI [of _ "set_medium_error (with_state rq st' os')"] exI [of _ 0])
         (simp add: rq_orwrite_def Let_def set_medium_error_def fail_with_def)
  next
    case True
    define tmp1 where "tmp1 = splice_at tmp 0 (flat_read old off n)"
    define out where "out = or_bytes (sc_out_buffer (rq_cmd rq)) tmp1 n"
    define rq1 where "rq1 = (with_state rq st' os')\<lparr>rq_cmd := (rq_cmd rq)\<lparr>sc_out_buffer := out\<rparr>\<rparr>"
    have tmp1: "n \<le> length tmp1" using fit(1) by (simp add: tmp1_def request_ok_def n_def)
    have out: "take n out = map2 (OR) data (flat_read old off n)" "n \<le> length out"
      using tmp1 fit(2) by (simp_all add: out_def take_or_bytes data_def n_def [symmetric] tmp1_def)
    have "on_unit rq1" "rq_result rq1 = SAM_STAT_GOOD" "sc_offset (rq_cmd rq1) = sc_offset (rq_cmd rq)"
      "rq_os rq1 = os'"
      using k(1) True fd good by (simp_all add: on_unit_def rq1_def)
    moreover have "request_ok out (ucast ?len) (sc_offset (rq_cmd rq))"
      using fit(1) out(2) by (simp add: request_ok_def n_def)
    ultimately obtain rq' j where w: "rq_do_write malloc tbl out ?len False rq1 = Returns rq'"
      and j: "j \<le> n" "content (rq_os rq') = flat_write old off (take j out)"
      and g: "rq_result rq' = SAM_STAT_GOOD \<longrightarrow> j = n \<and> on_unit rq'"
      using rq_do_write_effect [of rq1 out ?len malloc] len k(2) unfolding n_def off_def by metis
    have "take j out = take j (take n out)" using j(1) by simp
    moreover have "rq_orwrite malloc tbl rq = Returns rq'"
      using r True k(1) mem w by (simp add: rq_orwrite_def Let_def n_def out_def tmp1_def rq1_def)
    ultimately show ?thesis using j g out(1) by (intro exI [of _ rq'] exI [of _ j]) simp
  qed
qed

end

section \<open>Writes that succeed\<close>

context steady_store
begin

lemma rq_do_write_live:
  assumes "sc_fd (rq_cmd rq) = fd" and "live (rq_bs rq) (rq_os rq)" and "len \<noteq> -1"
    and "request_ok buf (ucast len) (sc_offset (rq_cmd rq))"
    and "in_range (unat (sc_offset (rq_cmd rq))) (unat len)" and "sc_mode_page_8 (rq_cmd rq) \<noteq> None"
  shows "\<exists>st' os'. rq_do_write malloc tbl buf len False rq = Returns (with_state rq st' os')
     \<and> live st' os'
     \<and> content os' = flat_write (content (rq_os rq)) (unat (sc_offset (rq_cmd rq))) (take (unat len) buf)"
proof -
  obtain st' os' where w: "bs_pfn_write64 tbl fd buf (ucast len) (sc_offset (rq_cmd rq)) (rq_bs rq) (rq_os rq)
      = Returns (BS_IO_SUCCESS, st', os')"
    and e: "live st' os'" "content os' = flat_write (content (rq_os rq)) (unat (sc_offset (rq_cmd rq)))
      (take (unat len) buf)"
    using steady_write [OF assms(2,4)] assms(5) by fastforce
  have "rq_do_write malloc tbl buf len False rq = Returns (with_state rq st' os')"
    using w assms(1,3,6)
    by (auto simp: rq_do_write_def rq_write_def Let_def ret_is_length_def advise_noreuse_eq sync_eq)
  with e show ?thesis by blast
qed

end

section \<open>Properties\<close>

definition is_write :: "scsi_op \<Rightarrow> bool" where
  "is_write op \<longleftrightarrow> op = WRITE_6 \<or> op = WRITE_10 \<or> op = WRITE_12 \<or> op = WRITE_16"

definition is_read :: "scsi_op \<Rightarrow> bool" where
  "is_read op \<longleftrightarrow> op = READ_6 \<or> op = READ_10 \<or> op = READ_12 \<or> op = READ_16"

lemma request_write:
  "is_write (sc_op cmd) \<Longrightarrow> bs_simpleOSD_request malloc tbl (start_request cmd st os)
     = rq_do_write malloc tbl (sc_out_buffer cmd) (sc_out_length cmd) False (start_request cmd st os)"
  by (auto simp: bs_simpleOSD_request_def is_write_def)

lemma request_read:
  "is_read (sc_op cmd) \<Longrightarrow> bs_simpleOSD_request malloc tbl (start_request cmd st os)
     = rq_read_cmd tbl (start_request cmd st os)"
  by (auto simp: bs_simpleOSD_request_def is_read_def)

text \<open>
  C7: From the initiator's side: after a write command of any width that ended with status good, a
  read command for the same range and length on the same unit returns, whatever the environment
  does; with status good its data are the data written, otherwise it reports a medium error.
\<close>

theorem scsi_read_after_write:
  assumes "is_write (sc_op wr)" and "is_read (sc_op rd)" and "lun_ready g (sc_fd wr) col st os"
    and "sc_fd rd = sc_fd wr" and "sc_offset rd = sc_offset wr"
    and "sc_in_length rd = sc_out_length wr" and "sc_out_length wr \<noteq> -1"
    and "request_ok (sc_out_buffer wr) (ucast (sc_out_length wr)) (sc_offset wr)"
    and "request_ok (sc_in_buffer rd) (ucast (sc_out_length wr)) (sc_offset wr)"
    and "bs_simpleOSD_request malloc (simpleOSD_bs_op mds ic g junk) (start_request wr st os)
      = Returns rq1" and "rq_result rq1 = SAM_STAT_GOOD"
  shows "\<exists>rq2. bs_simpleOSD_request malloc2 (simpleOSD_bs_op mds ic g junk)
          (start_request rd (rq_bs rq1) (rq_os rq1)) = Returns rq2
      \<and> (rq_result rq2 = SAM_STAT_GOOD \<longrightarrow>
           take (unat (sc_out_length wr)) (sc_in_buffer (rq_cmd rq2))
             = take (unat (sc_out_length wr)) (sc_out_buffer wr))
      \<and> (rq_result rq2 \<noteq> SAM_STAT_GOOD \<longrightarrow> rq_key rq2 = MEDIUM_ERROR)"
proof -
  let ?n = "unat (sc_out_length wr)" and ?off = "unat (sc_offset wr)"
  have ready: "lun_ready g (sc_fd rd) col (rq_bs rq1) (rq_os rq1)"
    and data: "flat g col (rq_os rq1) = flat_write (flat g col os) ?off (take ?n (sc_out_buffer wr))"
    using simple_bs.rq_do_write_effect [where g = g and i = "sc_fd wr" and col = col
        and rq = "start_request wr st os" and mds = mds and ic = ic and junk = junk
        and malloc = malloc and buf = "sc_out_buffer wr" and len = "sc_out_length wr"]
      assms(3-) request_write [OF assms(1)]
    by (auto simp: on_unit_start simple_bs.on_unit_def)
  have "?n \<le> length (sc_out_buffer wr)" using assms(8) by (simp add: request_ok_def)
  then have "flat_read (flat g col (rq_os rq1)) ?off ?n = take ?n (sc_out_buffer wr)"
    using flat_read_write [of "flat g col os" ?off "take ?n (sc_out_buffer wr)"] data
    by (simp add: min_absorb2)
  then show ?thesis
    using simple_bs.rq_read_cmd_effect [where g = g and i = "sc_fd rd" and col = col
        and rq = "start_request rd (rq_bs rq1) (rq_os rq1)" and mds = mds and ic = ic and junk = junk]
      ready assms(4-9) by (auto simp: on_unit_start request_read [OF assms(2)])
qed

abbreviation ex_store :: bs_io_op where
  "ex_store \<equiv> simpleOSD_bs_op True False ex_params
     \<lparr>ba_lun_index = 0, ba_buf = [], ba_buf_len = 0, ba_offset = 0\<rparr>"

theorem scsi_read_after_write_witness:
  "\<exists>rq1 rq2. bs_simpleOSD_request (\<lambda>_. None) ex_store
        (start_request (ex_cmd WRITE_10 [7, 8] 2) (ex_open_table ex_lun) ex_live_os) = Returns rq1
      \<and> bs_simpleOSD_request (\<lambda>_. None) ex_store
          (start_request (ex_cmd READ_10 [] 2) (rq_bs rq1) (rq_os rq1)) = Returns rq2
      \<and> (rq_result rq2 = SAM_STAT_GOOD \<longrightarrow> take 2 (sc_in_buffer (rq_cmd rq2)) = [7, 8])"
proof -
  let ?wr = "ex_cmd WRITE_10 [7, 8] 2" and ?rd = "ex_cmd READ_10 [] 2"
  have io: "is_write (sc_op ?wr)" "is_read (sc_op ?rd)"
    by (simp_all add: ex_cmd_def is_write_def is_read_def)
  obtain st1 os1 where w: "rq_do_write (\<lambda>_. None) ex_store [7, 8] 2 False
      (start_request ?wr (ex_open_table ex_lun) ex_live_os)
      = Returns (with_state (start_request ?wr (ex_open_table ex_lun) ex_live_os) st1 os1)"
    using live_bs.rq_do_write_live [where g = ex_params and i = 0 and col = ex_collection
        and rq = "start_request ?wr (ex_open_table ex_lun) ex_live_os" and buf = "[7, 8]" and len = 2
        and malloc = "\<lambda>_. None" and mds = True and ic = False
        and junk = "\<lparr>ba_lun_index = 0, ba_buf = [], ba_buf_len = 0, ba_offset = 0\<rparr>"]
      ex_lun_live by (auto simp: ex_cmd_def request_ok_def range_ok_def)
  then have run: "bs_simpleOSD_request (\<lambda>_. None) ex_store
      (start_request ?wr (ex_open_table ex_lun) ex_live_os)
      = Returns (with_state (start_request ?wr (ex_open_table ex_lun) ex_live_os) st1 os1)"
    by (simp add: request_write [OF io(1)]) (simp add: ex_cmd_def)
  show ?thesis
    using scsi_read_after_write [OF io _ _ _ _ _ _ _ run, of ex_collection "\<lambda>_. None"] run ex_lun_ready
    by (auto simp: ex_cmd_def request_ok_def)
qed

text \<open>
  C29: \<open>ORWRITE\<close> on a ready unit returns. Status good means that every byte of the range is now the
  old byte or-ed with the byte sent, and nothing else has changed; after a failure this holds for
  a prefix of the range, which may be empty.
\<close>

theorem scsi_orwrite:
  assumes "sc_op cmd = ORWRITE_16" and "lun_ready g (sc_fd cmd) col st os"
    and "sc_out_length cmd \<noteq> -1" and "malloc (sc_out_length cmd) = Some tmp"
    and "request_ok tmp (ucast (sc_out_length cmd)) (sc_offset cmd)"
    and "unat (sc_out_length cmd) \<le> length (sc_out_buffer cmd)"
  shows "\<exists>rq' k. bs_simpleOSD_request malloc (simpleOSD_bs_op mds ic g junk) (start_request cmd st os)
        = Returns rq' \<and> k \<le> unat (sc_out_length cmd)
      \<and> flat g col (rq_os rq') = flat_write (flat g col os) (unat (sc_offset cmd))
          (take k (map2 (OR) (take (unat (sc_out_length cmd)) (sc_out_buffer cmd))
             (flat_read (flat g col os) (unat (sc_offset cmd)) (unat (sc_out_length cmd)))))
      \<and> (rq_result rq' = SAM_STAT_GOOD \<longrightarrow> k = unat (sc_out_length cmd))"
  using simple_bs.rq_orwrite_effect [where g = g and i = "sc_fd cmd" and col = col
      and rq = "start_request cmd st os" and mds = mds and ic = ic and junk = junk
      and malloc = malloc and tmp = tmp] assms
  by (fastforce simp: bs_simpleOSD_request_def on_unit_start)

theorem scsi_orwrite_witness:
  "\<exists>rq'. bs_simpleOSD_request (\<lambda>n. Some (replicate (unat n) 5)) ex_store
        (start_request (ex_cmd ORWRITE_16 [1, 6] 2) (ex_open_table ex_lun) ex_live_os) = Returns rq'
      \<and> (rq_result rq' = SAM_STAT_GOOD \<longrightarrow>
           flat ex_params ex_collection (rq_os rq') = flat_write (\<lambda>_. 0) 2 [1, 6])"
proof -
  have "map2 (OR) [1, 6] (flat_read (\<lambda>_. 0 :: u8) 2 2) = [1, 6]" by (simp add: flat_read_def upt_rec)
  then show ?thesis
    using scsi_orwrite [of "ex_cmd ORWRITE_16 [1, 6] 2" ex_params ex_collection
        "ex_open_table ex_lun" ex_live_os "\<lambda>n. Some (replicate (unat n) 5)" "replicate 2 5" True False
        "\<lparr>ba_lun_index = 0, ba_buf = [], ba_buf_len = 0, ba_offset = 0\<rparr>"] ex_lun_ready
    by (auto simp: ex_cmd_def request_ok_def ex_live_flat)
qed

text \<open>
  \<open>VERIFY\<close> compares and never writes: on a ready unit it returns and no byte changes; status
  good means that the data equal the range, a miscompare that they do not, and the only other
  outcome is a medium error.
\<close>

theorem scsi_verify:
  assumes "sc_op cmd = VERIFY_10 \<or> sc_op cmd = VERIFY_12 \<or> sc_op cmd = VERIFY_16"
    and "lun_ready g (sc_fd cmd) col st os"
    and "sc_out_length cmd \<noteq> -1" and "malloc (sc_out_length cmd) = Some tmp"
    and "request_ok tmp (ucast (sc_out_length cmd)) (sc_offset cmd)"
  shows "\<exists>rq'. bs_simpleOSD_request malloc (simpleOSD_bs_op mds ic g junk) (start_request cmd st os)
        = Returns rq' \<and> flat g col (rq_os rq') = flat g col os
      \<and> (rq_result rq' = SAM_STAT_GOOD \<longrightarrow> take (unat (sc_out_length cmd)) (sc_out_buffer cmd)
           = flat_read (flat g col os) (unat (sc_offset cmd)) (unat (sc_out_length cmd)))
      \<and> (rq_result rq' \<noteq> SAM_STAT_GOOD \<longrightarrow> rq_key rq' = MEDIUM_ERROR
           \<or> rq_key rq' = MISCOMPARE \<and> take (unat (sc_out_length cmd)) (sc_out_buffer cmd)
             \<noteq> flat_read (flat g col os) (unat (sc_offset cmd)) (unat (sc_out_length cmd)))"
proof -
  have "bs_simpleOSD_request malloc (simpleOSD_bs_op mds ic g junk) (start_request cmd st os)
      = rq_verify malloc (simpleOSD_bs_op mds ic g junk) (start_request cmd st os)"
    using assms(1) by (auto simp: bs_simpleOSD_request_def)
  then show ?thesis
    using simple_bs.rq_verify_effect [where g = g and i = "sc_fd cmd" and col = col
        and rq = "start_request cmd st os" and mds = mds and ic = ic and junk = junk
        and malloc = malloc and tmp = tmp] assms(2-) by (simp add: on_unit_start)
qed

theorem scsi_verify_witness:
  "\<exists>rq'. bs_simpleOSD_request (\<lambda>n. Some (replicate (unat n) 5)) ex_store
        (start_request (ex_cmd VERIFY_10 [1, 0] 2) (ex_open_table ex_lun) ex_live_os) = Returns rq'
      \<and> rq_result rq' \<noteq> SAM_STAT_GOOD \<and> flat ex_params ex_collection (rq_os rq') = (\<lambda>_. 0)"
proof -
  have "[1, 0] \<noteq> flat_read (\<lambda>_. 0 :: u8) 2 2" by (simp add: flat_read_def upt_rec)
  then show ?thesis
    using scsi_verify [of "ex_cmd VERIFY_10 [1, 0] 2" ex_params ex_collection
        "ex_open_table ex_lun" ex_live_os "\<lambda>n. Some (replicate (unat n) 5)" "replicate 2 5" True False
        "\<lparr>ba_lun_index = 0, ba_buf = [], ba_buf_len = 0, ba_offset = 0\<rparr>"] ex_lun_ready
    by (auto simp: ex_cmd_def request_ok_def ex_live_flat)
qed

end
