(* ===== verification/Tgt_Threads.thy ===== *)
theory Tgt_Threads
  imports Tgt_Write
begin

text \<open>
  The plugin's registration with the target framework and its worker threads. The framework runs
  the registered request function in \<open>nr_iothreads\<close> threads at once. Between its calls of the
  backing store a command can be overtaken by another one; the commands that read before they
  write, \<open>COMPARE_AND_WRITE\<close> and \<open>ORWRITE\<close>, are cut there. Calls of the store are taken as single
  steps; how they interleave in turn is \<open>Volume_Threads\<close>.
\<close>

section \<open>Registration\<close>

text \<open>
  \<open>struct backingstore_template\<close> with the fields the plugin sets. \<open>bs_thread_open\<close>,
  \<open>bs_thread_close\<close> and \<open>bs_thread_cmd_submit\<close> belong to the framework; \<open>'i\<close> is its
  \<open>struct bs_thread_info\<close>, \<open>'e\<close> the type of its results.
\<close>

record ('i, 'c, 'e) bs_thread_ops =
  bs_thread_open :: "'i \<Rightarrow> (request \<Rightarrow> request c_result) \<Rightarrow> nat \<Rightarrow> 'i \<times> 'e"
  bs_thread_close :: "'i \<Rightarrow> 'i"
  bs_thread_cmd_submit :: "'c \<Rightarrow> 'i \<Rightarrow> 'i \<times> 'e"

definition O_SYNC :: u32 where "O_SYNC = 0x101000"
definition O_DIRECT :: u32 where "O_DIRECT = 0x4000"

record ('i, 'c, 'e) backingstore_template =
  bst_name :: string
  bst_open :: "bool \<Rightarrow> scsi_lu \<Rightarrow> string \<Rightarrow> i32 \<Rightarrow> u64 \<Rightarrow> bs_state \<Rightarrow> os
     \<Rightarrow> (int \<times> scsi_lu \<times> i32 \<times> u64 \<times> bs_state \<times> os) c_result"
  bst_close :: "scsi_lu \<Rightarrow> bs_state \<Rightarrow> os \<Rightarrow> (bs_state \<times> os) c_result"
  bst_init :: "'i \<Rightarrow> 'i \<times> 'e"
  bst_exit :: "'i \<Rightarrow> 'i"
  bst_cmd_submit :: "'c \<Rightarrow> 'i \<Rightarrow> 'i \<times> 'e"
  bst_oflags_supported :: u32

definition bs_simpleOSD_init ::
    "('i, 'c, 'e) bs_thread_ops \<Rightarrow> malloc \<Rightarrow> bs_io_op \<Rightarrow> nat \<Rightarrow> 'i \<Rightarrow> 'i \<times> 'e" where
  "bs_simpleOSD_init tops malloc tbl nr_iothreads info =
     bs_thread_open tops info (bs_simpleOSD_request malloc tbl) nr_iothreads"

definition bs_simpleOSD_exit :: "('i, 'c, 'e) bs_thread_ops \<Rightarrow> 'i \<Rightarrow> 'i" where
  "bs_simpleOSD_exit tops info = bs_thread_close tops info"

definition simpleOSD_bst ::
    "('i, 'c, 'e) bs_thread_ops \<Rightarrow> malloc \<Rightarrow> bs_io_op \<Rightarrow> nat \<Rightarrow> ('i, 'c, 'e) backingstore_template" where
  "simpleOSD_bst tops malloc tbl nr_iothreads =
     \<lparr>bst_name = ''simpleOSD'', bst_open = bs_simpleOSD_open tbl, bst_close = bs_simpleOSD_close tbl,
      bst_init = bs_simpleOSD_init tops malloc tbl nr_iothreads,
      bst_exit = bs_simpleOSD_exit tops, bst_cmd_submit = bs_thread_cmd_submit tops,
      bst_oflags_supported = O_SYNC OR O_DIRECT\<rparr>"

text \<open>\<open>register_backingstore_template\<close> adds the template to the framework's list.\<close>

definition bs_simpleOSD_constructor ::
    "('i, 'c, 'e) bs_thread_ops \<Rightarrow> malloc \<Rightarrow> bs_io_op \<Rightarrow> nat \<Rightarrow>
     (('i, 'c, 'e) backingstore_template \<Rightarrow> 'l \<Rightarrow> 'l) \<Rightarrow> 'l \<Rightarrow> 'l" where
  "bs_simpleOSD_constructor tops malloc tbl nr_iothreads register templates =
     register (simpleOSD_bst tops malloc tbl nr_iothreads) templates"

section \<open>A worker thread\<close>

datatype worker =
    W_Queued
  | W_Write bytes u32 request     \<comment> \<open>about to \<open>goto write\<close> with this buffer and length\<close>
  | W_Served request

text \<open>\<open>COMPARE_AND_WRITE\<close> up to the jump to \<open>write\<close>.\<close>

definition caw_compare :: "malloc \<Rightarrow> bs_io_op \<Rightarrow> request \<Rightarrow> worker c_result" where
  "caw_compare malloc tbl rq =
     (let len = sc_out_length (rq_cmd rq) div 2;
          out = sc_out_buffer (rq_cmd rq)
      in if len \<noteq> sc_tl (rq_cmd rq) then Returns (W_Served (invalid_field rq))
         else case malloc len of
           None \<Rightarrow> Returns (W_Served (internal_failure rq))
         | Some tmpbuf \<Rightarrow>
             c_bind (rq_read tbl tmpbuf len (sc_offset (rq_cmd rq)) rq) (\<lambda>(ok, tmpbuf1, rq1).
               if \<not> ok then Returns (W_Served (set_medium_error rq1))
               else if take (unat len) out \<noteq> take (unat len) tmpbuf1
               then Returns (W_Served (fail_with MISCOMPARE ASC_MISCOMPARE_DURING_VERIFY_OPERATION
                      (rq1\<lparr>rq_info := of_nat (miscompare_pos out tmpbuf1 (unat len))\<rparr>)))
               else c_bind (advise_noreuse tbl (flag rq1 0x10) len rq1)
                      (\<lambda>rq2. Returns (W_Write (drop (unat len) out) len rq2))))"

text \<open>\<open>ORWRITE_16\<close> up to the jump to \<open>write\<close>.\<close>

definition orwrite_read :: "malloc \<Rightarrow> bs_io_op \<Rightarrow> request \<Rightarrow> worker c_result" where
  "orwrite_read malloc tbl rq =
     (let len = sc_out_length (rq_cmd rq) in
      case malloc len of
        None \<Rightarrow> Returns (W_Served (internal_failure rq))
      | Some tmpbuf \<Rightarrow>
          c_bind (rq_read tbl tmpbuf len (sc_offset (rq_cmd rq)) rq) (\<lambda>(ok, tmpbuf1, rq1).
            if \<not> ok then Returns (W_Served (set_medium_error rq1))
            else
              let out = or_bytes (sc_out_buffer (rq_cmd rq1)) tmpbuf1 (unat len)
              in Returns (W_Write out len (rq1\<lparr>rq_cmd := (rq_cmd rq1)\<lparr>sc_out_buffer := out\<rparr>\<rparr>))))"

definition serve_first :: "malloc \<Rightarrow> bs_io_op \<Rightarrow> request \<Rightarrow> worker c_result" where
  "serve_first malloc tbl rq =
     (case sc_op (rq_cmd rq) of
        COMPARE_AND_WRITE \<Rightarrow> caw_compare malloc tbl rq
      | ORWRITE_16 \<Rightarrow> orwrite_read malloc tbl rq
      | _ \<Rightarrow> c_bind (bs_simpleOSD_request malloc tbl rq) (\<lambda>rq'. Returns (W_Served rq')))"

text \<open>The command goes on in the state the store is in by then.\<close>

definition serve_write ::
    "malloc \<Rightarrow> bs_io_op \<Rightarrow> bytes \<Rightarrow> u32 \<Rightarrow> request \<Rightarrow> worker c_result" where
  "serve_write malloc tbl buf len rq =
     c_bind (rq_do_write malloc tbl buf len False rq) (\<lambda>rq'. Returns (W_Served rq'))"

fun worker_shared :: "bs_state \<Rightarrow> os \<Rightarrow> worker \<Rightarrow> bs_state \<times> os" where
  "worker_shared st os W_Queued = (st, os)"
| "worker_shared st os (W_Write buf len rq) = (rq_bs rq, rq_os rq)"
| "worker_shared st os (W_Served rq) = (rq_bs rq, rq_os rq)"

fun worker_step :: "malloc \<Rightarrow> bs_io_op \<Rightarrow> scsi_cmd \<Rightarrow> worker \<Rightarrow> bs_state \<Rightarrow> os \<Rightarrow> worker c_result option"
  where
  "worker_step malloc tbl cmd W_Queued st os = Some (serve_first malloc tbl (start_request cmd st os))"
| "worker_step malloc tbl cmd (W_Write buf len rq) st os =
     Some (serve_write malloc tbl buf len (with_state rq st os))"
| "worker_step malloc tbl cmd (W_Served rq) st os = None"

inductive worker_race ::
    "malloc \<Rightarrow> bs_io_op \<Rightarrow> ('t \<Rightarrow> scsi_cmd) \<Rightarrow>
     ('t \<Rightarrow> worker) \<times> bs_state \<times> os \<Rightarrow> ('t \<Rightarrow> worker) \<times> bs_state \<times> os \<Rightarrow> bool" for malloc tbl cmds
  where
  work: "worker_step malloc tbl (cmds t) (ws t) st os = Some (Returns w) \<Longrightarrow>
    worker_shared st os w = (st', os') \<Longrightarrow>
    worker_race malloc tbl cmds (ws, st, os) (ws(t := w), st', os')"

section \<open>One worker alone\<close>

definition serve_rest :: "malloc \<Rightarrow> bs_io_op \<Rightarrow> worker \<Rightarrow> request c_result" where
  "serve_rest malloc tbl w = (case w of
      W_Write buf len rq \<Rightarrow> rq_do_write malloc tbl buf len False rq
    | W_Served rq \<Rightarrow> Returns rq
    | W_Queued \<Rightarrow> Undefined)"

lemma serve_rest_simps [simp]:
  "serve_rest malloc tbl (W_Write buf len rq) = rq_do_write malloc tbl buf len False rq"
  "serve_rest malloc tbl (W_Served rq) = Returns rq"
  by (simp_all add: serve_rest_def)

lemma caw_compare_then_write:
  "c_bind (caw_compare malloc tbl rq) (serve_rest malloc tbl) = rq_compare_and_write malloc tbl rq"
  by (auto simp: rq_compare_and_write_def caw_compare_def Let_def c_bind_assoc fail_with_def
      intro!: c_bind_cong_Returns split: option.split)

lemma orwrite_read_then_write:
  "c_bind (orwrite_read malloc tbl rq) (serve_rest malloc tbl) = rq_orwrite malloc tbl rq"
  by (auto simp: rq_orwrite_def orwrite_read_def Let_def c_bind_assoc
      intro!: c_bind_cong_Returns split: option.split)

lemma serve_first_then_rest:
  "c_bind (serve_first malloc tbl rq) (serve_rest malloc tbl) = bs_simpleOSD_request malloc tbl rq"
proof (cases "sc_op (rq_cmd rq) = COMPARE_AND_WRITE \<or> sc_op (rq_cmd rq) = ORWRITE_16")
  case True
  then show ?thesis
    by (auto simp: serve_first_def caw_compare_then_write orwrite_read_then_write bs_simpleOSD_request_def)
next
  case False
  then have "serve_first malloc tbl rq = c_bind (bs_simpleOSD_request malloc tbl rq) (\<lambda>rq'. Returns (W_Served rq'))"
    by (simp add: serve_first_def split: scsi_op.split)
  then show ?thesis by (simp add: c_bind_assoc)
qed

section \<open>A store that reads and writes without failing\<close>

locale live_store = steady_store +
  assumes steady_read:
    "live st os \<Longrightarrow> request_ok buf len off \<Longrightarrow> in_range (unat off) (unat len) \<Longrightarrow>
     \<exists>st' os'. bs_pfn_read64 tbl fd buf len off st os
         = Returns (BS_IO_SUCCESS, splice_at buf 0 (flat_read (content os) (unat off) (unat len)), st', os')
       \<and> live st' os' \<and> content os' = content os"

interpretation live_rw: live_store "simpleOSD_bs_op mds ic g junk" i "lun_ready g i col"
    "flat g col" "lun_live g i col" "range_ok col" for mds ic g junk i col
proof
  fix st os buf and len off :: u64
  assume "lun_live g i col st os" and rq: "request_ok buf len off"
    and rng: "range_ok col (unat off) (unat len)"
  then obtain lun where at: "lun_at st i = Some lun" and fmt: "ol_is_fs_done lun \<noteq> FALSE"
    and col: "ol_collection lun = col" and vr: "volume_ready g (ol_collection lun) os"
    and vl: "vol_live g col os"
    by (auto simp: lun_live_def lun_ready_def)
  show "\<exists>st' os'. bs_pfn_read64 (simpleOSD_bs_op mds ic g junk) i buf len off st os
        = Returns (BS_IO_SUCCESS, splice_at buf 0 (flat_read (flat g col os) (unat off) (unat len)), st', os')
      \<and> lun_live g i col st' os' \<and> flat g col os' = flat g col os"
    using osd_table.bs_read_effect [OF at fmt vr rq] at fmt vl rng
    by (fastforce simp: simpleOSD_bs_op_def Let_def lun_live_def lun_ready_def col)
qed

text \<open>Two commands of the same range and compare data, both well formed.\<close>

definition caw_ok :: "malloc \<Rightarrow> i32 \<Rightarrow> (nat \<Rightarrow> nat \<Rightarrow> bool) \<Rightarrow> scsi_cmd \<Rightarrow> bool" where
  "caw_ok malloc fd in_range cmd \<longleftrightarrow> sc_op cmd = COMPARE_AND_WRITE \<and> sc_fd cmd = fd
     \<and> sc_out_length cmd div 2 = sc_tl cmd \<and> sc_tl cmd \<noteq> -1 \<and> sc_mode_page_8 cmd \<noteq> None
     \<and> 2 * unat (sc_tl cmd) \<le> length (sc_out_buffer cmd)
     \<and> in_range (unat (sc_offset cmd)) (unat (sc_tl cmd))
     \<and> (\<exists>tmp. malloc (sc_tl cmd) = Some tmp \<and> request_ok tmp (ucast (sc_tl cmd)) (sc_offset cmd))"

abbreviation caw_old :: "scsi_cmd \<Rightarrow> bytes" where
  "caw_old cmd \<equiv> take (unat (sc_tl cmd)) (sc_out_buffer cmd)"

abbreviation caw_new :: "scsi_cmd \<Rightarrow> bytes" where
  "caw_new cmd \<equiv> take (unat (sc_tl cmd)) (drop (unat (sc_tl cmd)) (sc_out_buffer cmd))"

context live_store
begin

lemma rq_read_live:
  assumes "sc_fd (rq_cmd rq) = fd" and "live (rq_bs rq) (rq_os rq)" and "request_ok buf (ucast len) off"
    and "in_range (unat off) (unat len)"
  shows "\<exists>st' os'. rq_read tbl buf len off rq
      = Returns (True, splice_at buf 0 (flat_read (content (rq_os rq)) (unat off) (unat len)), with_state rq st' os')
     \<and> live st' os' \<and> content os' = content (rq_os rq)"
  using steady_read [OF assms(2,3)] assms(1,4) by (fastforce simp: rq_read_def ret_is_length_def)

lemma caw_compare_live:
  assumes cmd: "caw_ok malloc fd in_range cmd" and live: "live st os"
    and eq: "caw_old cmd = flat_read (content os) (unat (sc_offset cmd)) (unat (sc_tl cmd))"
  shows "\<exists>st' os'. serve_first malloc tbl (start_request cmd st os)
      = Returns (W_Write (drop (unat (sc_tl cmd)) (sc_out_buffer cmd)) (sc_tl cmd)
          (with_state (start_request cmd st os) st' os'))
     \<and> live st' os' \<and> content os' = content os"
proof -
  obtain tmp where tmp: "malloc (sc_tl cmd) = Some tmp" "request_ok tmp (ucast (sc_tl cmd)) (sc_offset cmd)"
    using cmd by (auto simp: caw_ok_def)
  obtain st' os' where
    r: "rq_read tbl tmp (sc_tl cmd) (sc_offset cmd) (start_request cmd st os)
      = Returns (True, splice_at tmp 0 (flat_read (content os) (unat (sc_offset cmd)) (unat (sc_tl cmd))),
          with_state (start_request cmd st os) st' os')"
    and e: "live st' os'" "content os' = content os"
    using rq_read_live [of "start_request cmd st os" tmp "sc_tl cmd" "sc_offset cmd"] cmd live tmp
    by (auto simp: caw_ok_def)
  have "serve_first malloc tbl (start_request cmd st os)
      = Returns (W_Write (drop (unat (sc_tl cmd)) (sc_out_buffer cmd)) (sc_tl cmd)
          (with_state (start_request cmd st os) st' os'))"
    using cmd r tmp(1) eq by (simp add: serve_first_def caw_compare_def caw_ok_def advise_noreuse_eq Let_def)
  with e show ?thesis by blast
qed

lemma serve_write_live:
  assumes cmd: "caw_ok malloc fd in_range cmd" and live: "live st os" and rq: "rq_cmd rq = cmd"
  shows "\<exists>st' os'. serve_write malloc tbl (drop (unat (sc_tl cmd)) (sc_out_buffer cmd)) (sc_tl cmd)
        (with_state rq st os) = Returns (W_Served (with_state rq st' os'))
     \<and> live st' os' \<and> content os' = flat_write (content os) (unat (sc_offset cmd)) (caw_new cmd)"
proof -
  have "request_ok (drop (unat (sc_tl cmd)) (sc_out_buffer cmd)) (ucast (sc_tl cmd)) (sc_offset cmd)"
    using cmd by (auto simp: caw_ok_def request_ok_def)
  then show ?thesis
    using rq_do_write_live [of "with_state rq st os" "sc_tl cmd"
        "drop (unat (sc_tl cmd)) (sc_out_buffer cmd)" malloc] cmd live rq
    by (fastforce simp: serve_write_def caw_ok_def)
qed

end

lemma flat_write_again:
  "length bs = length cs \<Longrightarrow> flat_write (flat_write f a bs) a cs = flat_write f a cs"
  by (auto simp: flat_write_def fun_eq_iff)

lemma worker_first:
  assumes "serve_first malloc tbl (start_request (cmds t) st os) = Returns w" and "ws t = W_Queued"
    and "worker_shared st os w = (st', os')"
  shows "worker_race malloc tbl cmds (ws, st, os) (ws(t := w), st', os')"
  by (rule worker_race.work) (use assms in simp_all)

lemma worker_second:
  assumes "serve_write malloc tbl buf len (with_state rq st os) = Returns w" and "ws t = W_Write buf len rq"
    and "worker_shared st os w = (st', os')"
  shows "worker_race malloc tbl cmds (ws, st, os) (ws(t := w), st', os')"
  by (rule worker_race.work) (use assms in simp_all)

context live_store
begin

text \<open>Both compare before either writes.\<close>

lemma caw_both_succeed:
  assumes a: "caw_ok malloc fd in_range (cmds a)" and b: "caw_ok malloc fd in_range (cmds b)"
    and ne: "a \<noteq> b" and live: "live st os"
    and eqa: "caw_old (cmds a) = flat_read (content os) (unat (sc_offset (cmds a))) (unat (sc_tl (cmds a)))"
    and eqb: "caw_old (cmds b) = flat_read (content os) (unat (sc_offset (cmds b))) (unat (sc_tl (cmds b)))"
  shows "\<exists>ws st' os' ra rb.
     (worker_race malloc tbl cmds)\<^sup>*\<^sup>* (\<lambda>_. W_Queued, st, os) (ws, st', os')
     \<and> ws a = W_Served ra \<and> ws b = W_Served rb
     \<and> rq_result ra = SAM_STAT_GOOD \<and> rq_result rb = SAM_STAT_GOOD
     \<and> content os' = flat_write (flat_write (content os) (unat (sc_offset (cmds a))) (caw_new (cmds a)))
         (unat (sc_offset (cmds b))) (caw_new (cmds b))"
proof -
  let ?buf = "\<lambda>t. drop (unat (sc_tl (cmds t))) (sc_out_buffer (cmds t))"
  obtain st1 os1 where s1: "serve_first malloc tbl (start_request (cmds a) st os)
      = Returns (W_Write (?buf a) (sc_tl (cmds a)) (with_state (start_request (cmds a) st os) st1 os1))"
    and l1: "live st1 os1" "content os1 = content os"
    using caw_compare_live [OF a live eqa] by blast
  let ?ra = "with_state (start_request (cmds a) st os) st1 os1"
  obtain st2 os2 where s2: "serve_first malloc tbl (start_request (cmds b) st1 os1)
      = Returns (W_Write (?buf b) (sc_tl (cmds b)) (with_state (start_request (cmds b) st1 os1) st2 os2))"
    and l2: "live st2 os2" "content os2 = content os"
    using caw_compare_live [OF b l1(1)] eqb l1(2) by auto
  let ?rb = "with_state (start_request (cmds b) st1 os1) st2 os2"
  obtain st3 os3 where s3: "serve_write malloc tbl (?buf a) (sc_tl (cmds a)) (with_state ?ra st2 os2)
      = Returns (W_Served (with_state ?ra st3 os3))"
    and l3: "live st3 os3" "content os3 = flat_write (content os) (unat (sc_offset (cmds a))) (caw_new (cmds a))"
    using serve_write_live [OF a l2(1), of ?ra] l2(2) by auto
  obtain st4 os4 where s4: "serve_write malloc tbl (?buf b) (sc_tl (cmds b)) (with_state ?rb st3 os3)
      = Returns (W_Served (with_state ?rb st4 os4))"
    and l4: "content os4 = flat_write (content os3) (unat (sc_offset (cmds b))) (caw_new (cmds b))"
    using serve_write_live [OF b l3(1), of ?rb] by auto
  let ?w1 = "(\<lambda>_. W_Queued)(a := W_Write (?buf a) (sc_tl (cmds a)) ?ra)"
  let ?w2 = "?w1(b := W_Write (?buf b) (sc_tl (cmds b)) ?rb)"
  let ?w3 = "?w2(a := W_Served (with_state ?ra st3 os3))"
  let ?w4 = "?w3(b := W_Served (with_state ?rb st4 os4))"
  have "worker_race malloc tbl cmds (\<lambda>_. W_Queued, st, os) (?w1, st1, os1)"
    by (rule worker_first [where cmds = cmds and t = a, OF s1]) simp_all
  moreover have "worker_race malloc tbl cmds (?w1, st1, os1) (?w2, st2, os2)"
    by (rule worker_first [where cmds = cmds and t = b, OF s2]) (use ne in simp_all)
  moreover have "worker_race malloc tbl cmds (?w2, st2, os2) (?w3, st3, os3)"
    by (rule worker_second [where cmds = cmds and t = a, OF s3]) (use ne in simp_all)
  moreover have "worker_race malloc tbl cmds (?w3, st3, os3) (?w4, st4, os4)"
    by (rule worker_second [where cmds = cmds and t = b, OF s4]) (use ne in simp_all)
  ultimately have run: "(worker_race malloc tbl cmds)\<^sup>*\<^sup>* (\<lambda>_. W_Queued, st, os) (?w4, st4, os4)"
    by (meson converse_rtranclp_into_rtranclp rtranclp.rtrancl_refl)
  show ?thesis
    by (rule exI [of _ ?w4], rule exI [of _ st4], rule exI [of _ os4],
        rule exI [of _ "with_state ?ra st3 os3"], rule exI [of _ "with_state ?rb st4 os4"])
       (use run ne l3 l4 in simp)
qed

text \<open>One after the other: the second finds other bytes than it compares with.\<close>

lemma caw_live:
  assumes cmd: "caw_ok malloc fd in_range cmd" and live: "live st os"
    and eq: "caw_old cmd = flat_read (content os) (unat (sc_offset cmd)) (unat (sc_tl cmd))"
  shows "\<exists>rq. bs_simpleOSD_request malloc tbl (start_request cmd st os) = Returns rq
     \<and> live (rq_bs rq) (rq_os rq)
     \<and> content (rq_os rq) = flat_write (content os) (unat (sc_offset cmd)) (caw_new cmd)"
proof -
  let ?buf = "drop (unat (sc_tl cmd)) (sc_out_buffer cmd)"
  obtain st1 os1 where s1: "serve_first malloc tbl (start_request cmd st os)
      = Returns (W_Write ?buf (sc_tl cmd) (with_state (start_request cmd st os) st1 os1))"
    and l1: "live st1 os1" "content os1 = content os"
    using caw_compare_live [OF cmd live eq] by blast
  let ?rq = "with_state (start_request cmd st os) st1 os1"
  obtain st2 os2 where s2: "serve_write malloc tbl ?buf (sc_tl cmd) (with_state ?rq st1 os1)
      = Returns (W_Served (with_state ?rq st2 os2))"
    and l2: "live st2 os2" "content os2 = flat_write (content os) (unat (sc_offset cmd)) (caw_new cmd)"
    using serve_write_live [OF cmd l1(1), of ?rq] l1(2) by auto
  have "rq_do_write malloc tbl ?buf (sc_tl cmd) False ?rq = Returns (with_state ?rq st2 os2)"
    using s2 by (auto simp: serve_write_def c_bind_eq_Returns_iff)
  then have "bs_simpleOSD_request malloc tbl (start_request cmd st os) = Returns (with_state ?rq st2 os2)"
    unfolding serve_first_then_rest [symmetric] s1 by simp
  with l2 show ?thesis by (intro exI [of _ "with_state ?rq st2 os2"]) simp
qed

end

lemma length_caw_new: "caw_ok malloc fd rng cmd \<Longrightarrow> length (caw_new cmd) = unat (sc_tl cmd)"
  by (auto simp: caw_ok_def)

section \<open>Properties\<close>

text \<open>
  A command cut at its calls of the store is the handler: for every store, the first part of any
  command followed by the rest in the state it left is \<open>bs_simpleOSD_request\<close>, also when a call
  hangs or is undefined.
\<close>

theorem serve_alone:
  "bs_simpleOSD_request malloc tbl rq = c_bind (serve_first malloc tbl rq) (\<lambda>w. case w of
      W_Served rq' \<Rightarrow> Returns rq'
    | W_Write buf len rq1 \<Rightarrow> rq_do_write malloc tbl buf len False rq1
    | W_Queued \<Rightarrow> Undefined)"
  unfolding serve_first_then_rest [symmetric]
  by (auto simp: serve_rest_def intro!: c_bind_cong_Returns split: worker.split)

text \<open>
  C10: \<open>COMPARE_AND_WRITE\<close> is not atomic between worker threads. Two of these commands for the same
  range of a live unit, both with the current bytes as compare data, can both end with status good,
  and what the first one stored is overwritten; although in a run one after the other the second
  is never good, if the first changes the bytes.
\<close>

theorem scsi_compare_and_write_race:
  assumes "caw_ok malloc i (range_ok col) (cmds a)" and "caw_ok malloc i (range_ok col) (cmds b)"
    and "a \<noteq> b" and "lun_live g i col st os" and "sc_offset (cmds b) = sc_offset (cmds a)"
    and "sc_tl (cmds b) = sc_tl (cmds a)" and "caw_old (cmds b) = caw_old (cmds a)"
    and "caw_old (cmds a) = flat_read (flat g col os) (unat (sc_offset (cmds a))) (unat (sc_tl (cmds a)))"
    and "caw_new (cmds a) \<noteq> caw_old (cmds a)"
  shows "(\<exists>ws st' os' ra rb.
       (worker_race malloc (simpleOSD_bs_op mds ic g junk) cmds)\<^sup>*\<^sup>* (\<lambda>_. W_Queued, st, os) (ws, st', os')
       \<and> ws a = W_Served ra \<and> ws b = W_Served rb
       \<and> rq_result ra = SAM_STAT_GOOD \<and> rq_result rb = SAM_STAT_GOOD
       \<and> flat g col os' = flat_write (flat g col os) (unat (sc_offset (cmds a))) (caw_new (cmds b)))
    \<and> (\<forall>ra rb. bs_simpleOSD_request malloc (simpleOSD_bs_op mds ic g junk) (start_request (cmds a) st os)
            = Returns ra \<and> rq_result ra = SAM_STAT_GOOD
         \<and> bs_simpleOSD_request malloc (simpleOSD_bs_op mds ic g junk)
             (start_request (cmds b) (rq_bs ra) (rq_os ra)) = Returns rb
         \<longrightarrow> rq_result rb \<noteq> SAM_STAT_GOOD)"
proof (intro conjI allI impI)
  let ?off = "unat (sc_offset (cmds a))" and ?n = "unat (sc_tl (cmds a))"
  have len: "length (caw_new (cmds a)) = ?n" "length (caw_new (cmds b)) = ?n"
    using length_caw_new [OF assms(1)] length_caw_new [OF assms(2)] assms(6) by simp_all
  show "\<exists>ws st' os' ra rb.
       (worker_race malloc (simpleOSD_bs_op mds ic g junk) cmds)\<^sup>*\<^sup>* (\<lambda>_. W_Queued, st, os) (ws, st', os')
       \<and> ws a = W_Served ra \<and> ws b = W_Served rb
       \<and> rq_result ra = SAM_STAT_GOOD \<and> rq_result rb = SAM_STAT_GOOD
       \<and> flat g col os' = flat_write (flat g col os) ?off (caw_new (cmds b))"
    using live_rw.caw_both_succeed [where cmds = cmds, OF assms(1-4), of mds ic junk] assms(5-8)
      flat_write_again [of "caw_new (cmds a)" "caw_new (cmds b)" "flat g col os" ?off] len by simp
  fix ra rb
  let ?bs = "simpleOSD_bs_op mds ic g junk"
  assume runs: "bs_simpleOSD_request malloc ?bs (start_request (cmds a) st os) = Returns ra
      \<and> rq_result ra = SAM_STAT_GOOD
      \<and> bs_simpleOSD_request malloc ?bs (start_request (cmds b) (rq_bs ra) (rq_os ra)) = Returns rb"
  then have live: "lun_live g i col (rq_bs ra) (rq_os ra)"
    and con: "flat g col (rq_os ra) = flat_write (flat g col os) ?off (caw_new (cmds a))"
    using live_rw.caw_live [where mds = mds and ic = ic and junk = junk, OF assms(1,4,8)] by auto
  have "caw_old (cmds b) \<noteq> flat_read (flat g col (rq_os ra)) ?off ?n"
    using flat_read_write [of "flat g col os" ?off "caw_new (cmds a)"] len assms(7,9) con by simp
  moreover obtain tmp where "malloc (sc_tl (cmds b)) = Some tmp"
    "request_ok tmp (ucast (sc_tl (cmds b))) (sc_offset (cmds b))"
    using assms(2) by (auto simp: caw_ok_def)
  ultimately show "rq_result rb \<noteq> SAM_STAT_GOOD"
    using simple_bs.rq_compare_and_write_effect [where g = g and i = i and col = col
        and rq = "start_request (cmds b) (rq_bs ra) (rq_os ra)" and malloc = malloc and tmp = tmp
        and mds = mds and ic = ic and junk = junk] runs live assms(2,5,6)
    by (auto simp: caw_ok_def simple_bs.on_unit_def lun_live_def bs_simpleOSD_request_def)
qed

definition ex_caw :: "bool \<Rightarrow> scsi_cmd" where
  "ex_caw t = ex_cmd COMPARE_AND_WRITE (if t then [0, 0, 1, 1] else [0, 0, 2, 2]) 2"

theorem scsi_compare_and_write_race_witness:
  "\<exists>ws st' os' ra rb.
     (worker_race (\<lambda>n. Some (replicate (unat n) 5)) ex_store ex_caw)\<^sup>*\<^sup>*
       (\<lambda>_. W_Queued, ex_open_table ex_lun, ex_live_os) (ws, st', os')
     \<and> ws True = W_Served ra \<and> ws False = W_Served rb
     \<and> rq_result ra = SAM_STAT_GOOD \<and> rq_result rb = SAM_STAT_GOOD
     \<and> flat ex_params ex_collection os' = flat_write (\<lambda>_. 0) 2 [2, 2]"
proof -
  have ok: "caw_ok (\<lambda>n. Some (replicate (unat n) 5)) 0 (range_ok ex_collection) (ex_caw t)" for t
    by (simp add: caw_ok_def ex_caw_def ex_cmd_def request_ok_def range_ok_def)
  have "flat_read (\<lambda>_. 0 :: u8) 2 2 = [0, 0]" by (simp add: flat_read_def upt_rec)
  then show ?thesis
    using scsi_compare_and_write_race [where cmds = ex_caw and a = True and b = False and g = ex_params
        and mds = True and ic = False
        and junk = "\<lparr>ba_lun_index = 0, ba_buf = [], ba_buf_len = 0, ba_offset = 0\<rparr>", OF ok ok _ ex_lun_live]
    by (simp add: ex_caw_def ex_cmd_def ex_live_flat)
qed

end
