(* ===== verification/Schedule.thy ===== *)
theory Schedule
  imports Main
begin

text \<open>
  Threads under an arbitrary scheduler. A program is cut into steps of one thread on a shared
  state; \<open>turn\<close> lets any thread of a set go next. The contract \<open>bounded_threads\<close> says what the
  steps must guarantee so that every schedule ends with every thread finished.
\<close>

inductive turn ::
    "('t \<Rightarrow> 'pc \<Rightarrow> 's \<Rightarrow> ('pc \<times> 's) option) \<Rightarrow> 't set \<Rightarrow>
     ('t \<Rightarrow> 'pc) \<times> 's \<Rightarrow> ('t \<Rightarrow> 'pc) \<times> 's \<Rightarrow> bool" for step T where
  turnI: "t \<in> T \<Longrightarrow> step t (pcs t) s = Some (pc', s') \<Longrightarrow> turn step T (pcs, s) (pcs(t := pc'), s')"

text \<open>\<open>left\<close> bounds the steps a thread has still to make, \<open>inv\<close> is an invariant of all schedules.\<close>

locale bounded_threads =
  fixes step :: "'t \<Rightarrow> 'pc \<Rightarrow> 's \<Rightarrow> ('pc \<times> 's) option" and T :: "'t set"
    and left :: "'t \<Rightarrow> 'pc \<Rightarrow> nat" and inv :: "('t \<Rightarrow> 'pc) \<Rightarrow> 's \<Rightarrow> bool"
    and finished :: "'pc \<Rightarrow> bool"
  assumes inv_finite: "inv pcs s \<Longrightarrow> finite T"
    and step_inv: "inv pcs s \<Longrightarrow> t \<in> T \<Longrightarrow> step t (pcs t) s = Some (pc', s') \<Longrightarrow>
      inv (pcs(t := pc')) s' \<and> left t pc' < left t (pcs t)"
    and step_progress: "inv pcs s \<Longrightarrow> t \<in> T \<Longrightarrow> \<not> finished (pcs t) \<Longrightarrow>
      \<exists>u \<in> T. step u (pcs u) s \<noteq> None"
begin

lemma turn_inv:
  assumes "turn step T (pcs, s) (pcs', s')" and "inv pcs s"
  shows "inv pcs' s' \<and> (\<Sum>t\<in>T. left t (pcs' t)) < (\<Sum>t\<in>T. left t (pcs t))"
  using assms(1)
proof (cases rule: turn.cases)
  case (turnI t pc')
  then have new: "pcs' = pcs(t := pc')" by simp
  note st = step_inv [OF assms(2) turnI(2,3)]
  have "(\<Sum>u\<in>T - {t}. left u (pcs' u)) = (\<Sum>u\<in>T - {t}. left u (pcs u))"
    by (rule sum.cong) (auto simp: new)
  then have "(\<Sum>u\<in>T. left u (pcs' u)) < (\<Sum>u\<in>T. left u (pcs u))"
    using st sum.remove [OF inv_finite [OF assms(2)] turnI(2), of "\<lambda>u. left u (pcs' u)"]
      sum.remove [OF inv_finite [OF assms(2)] turnI(2), of "\<lambda>u. left u (pcs u)"] by (simp add: new)
  then show ?thesis using st by (simp only: new)
qed

text \<open>No schedule is longer than the bound.\<close>

lemma turns_bounded:
  assumes "(turn step T ^^ n) (pcs, s) (pcs', s')" and "inv pcs s"
  shows "inv pcs' s' \<and> n + (\<Sum>t\<in>T. left t (pcs' t)) \<le> (\<Sum>t\<in>T. left t (pcs t))"
  using assms(1)
proof (induction n arbitrary: pcs' s')
  case 0
  then show ?case using assms(2) by simp
next
  case (Suc n)
  then obtain pcs1 s1 where run: "(turn step T ^^ n) (pcs, s) (pcs1, s1)"
    and last: "turn step T (pcs1, s1) (pcs', s')" by auto
  show ?case using Suc.IH [OF run] turn_inv [OF last] by auto
qed

text \<open>A schedule that cannot go on has finished every thread.\<close>

lemma stuck_finished:
  assumes "inv pcs s" and "\<And>c. \<not> turn step T (pcs, s) c" and "t \<in> T"
  shows "finished (pcs t)"
proof (rule ccontr)
  assume "\<not> finished (pcs t)"
  then obtain u pc' s' where "u \<in> T" "step u (pcs u) s = Some (pc', s')"
    using step_progress [OF assms(1,3)] by auto
  then show False using assms(2) turnI by metis
qed

text \<open>Any schedule can be carried on to its end.\<close>

lemma turns_end:
  "inv pcs s \<Longrightarrow> \<exists>pcs' s'. (turn step T)\<^sup>*\<^sup>* (pcs, s) (pcs', s') \<and> inv pcs' s' \<and> (\<forall>t\<in>T. finished (pcs' t))"
proof (induction "\<Sum>t\<in>T. left t (pcs t)" arbitrary: pcs s rule: less_induct)
  case less
  show ?case
  proof (cases "\<exists>c. turn step T (pcs, s) c")
    case False
    then show ?thesis using stuck_finished [OF less.prems] less.prems by blast
  next
    case True
    then obtain pcs1 s1 where st: "turn step T (pcs, s) (pcs1, s1)" by auto
    with less.hyps turn_inv [OF st less.prems] show ?thesis
      by (meson converse_rtranclp_into_rtranclp)
  qed
qed

end


end
