(* ===== verification/Tgt_Isolated.thy ===== *)
theory Tgt_Isolated
  imports Tgt_Threads Schedule
begin

text \<open>
  Worker threads whose commands do not meet. On a store that does not fail, reads, writes,
  \<open>VERIFY\<close>, \<open>COMPARE_AND_WRITE\<close> and \<open>ORWRITE\<close> of ranges that are apart, unless neither command
  writes, end in every interleaving with the answer and the effect they have alone.
\<close>

section \<open>Commands and their ranges\<close>

definition is_verify :: "scsi_op \<Rightarrow> bool" where
  "is_verify op \<longleftrightarrow> op = VERIFY_10 \<or> op = VERIFY_12 \<or> op = VERIFY_16"

text \<open>The number of bytes a command reads or writes.\<close>

definition cmd_len :: "scsi_cmd \<Rightarrow> u32" where
  "cmd_len cmd = (if is_read (sc_op cmd) then sc_in_length cmd
     else if sc_op cmd = COMPARE_AND_WRITE then sc_tl cmd else sc_out_length cmd)"

definition cmd_range :: "scsi_cmd \<Rightarrow> nat set" where
  "cmd_range cmd = {unat (sc_offset cmd)..<unat (sc_offset cmd) + unat (cmd_len cmd)}"

definition only_reads :: "scsi_cmd \<Rightarrow> bool" where
  "only_reads cmd \<longleftrightarrow> is_read (sc_op cmd) \<or> is_verify (sc_op cmd)"

definition commands_apart :: "scsi_cmd \<Rightarrow> scsi_cmd \<Rightarrow> bool" where
  "commands_apart c d \<longleftrightarrow> only_reads c \<and> only_reads d \<or> cmd_range c \<inter> cmd_range d = {}"

text \<open>What the framework hands over: buffers as long as the command says, and memory to be had.\<close>

definition has_tmpbuf :: "malloc \<Rightarrow> scsi_cmd \<Rightarrow> bool" where
  "has_tmpbuf malloc cmd \<longleftrightarrow> (\<exists>tmp. malloc (cmd_len cmd) = Some tmp
     \<and> request_ok tmp (ucast (cmd_len cmd)) (sc_offset cmd))"

definition cmd_ok :: "malloc \<Rightarrow> i32 \<Rightarrow> (nat \<Rightarrow> nat \<Rightarrow> bool) \<Rightarrow> scsi_cmd \<Rightarrow> bool" where
  "cmd_ok malloc fd in_range cmd \<longleftrightarrow> sc_fd cmd = fd \<and> cmd_len cmd \<noteq> -1 \<and> sc_mode_page_8 cmd \<noteq> None
     \<and> in_range (unat (sc_offset cmd)) (unat (cmd_len cmd))
     \<and> (is_read (sc_op cmd) \<and> request_ok (sc_in_buffer cmd) (ucast (cmd_len cmd)) (sc_offset cmd)
        \<or> is_write (sc_op cmd) \<and> request_ok (sc_out_buffer cmd) (ucast (cmd_len cmd)) (sc_offset cmd)
        \<or> is_verify (sc_op cmd) \<and> has_tmpbuf malloc cmd
        \<or> sc_op cmd = ORWRITE_16 \<and> has_tmpbuf malloc cmd
             \<and> unat (cmd_len cmd) \<le> length (sc_out_buffer cmd)
        \<or> caw_ok malloc fd in_range cmd)"

section \<open>Steps that depend on a range of bytes only\<close>

text \<open>The state of a worker with only the state of store and system replaced.\<close>

fun move_worker :: "worker \<Rightarrow> bs_state \<Rightarrow> os \<Rightarrow> worker" where
  "move_worker W_Queued st os = W_Queued"
| "move_worker (W_Write buf len rq) st os = W_Write buf len (with_state rq st os)"
| "move_worker (W_Served rq) st os = W_Served (with_state rq st os)"

lemma worker_shared_move [simp]: "w \<noteq> W_Queued \<Longrightarrow> worker_shared st os (move_worker w st' os') = (st', os')"
  by (cases w) simp_all

lemma with_state_start: "with_state (start_request cmd st os) st' os' = start_request cmd st' os'"
  by (simp add: start_request_def)

abbreviation agree_on :: "nat set \<Rightarrow> (nat \<Rightarrow> u8) \<Rightarrow> (nat \<Rightarrow> u8) \<Rightarrow> bool" where
  "agree_on A f h \<equiv> (\<forall>a\<in>A. f a = h a)"

abbreviation cmd_data :: "scsi_cmd \<Rightarrow> (nat \<Rightarrow> u8) \<Rightarrow> bytes" where
  "cmd_data cmd f \<equiv> flat_read f (unat (sc_offset cmd)) (unat (cmd_len cmd))"

lemma flat_read_agree: "agree_on {a..<a + n} f h \<Longrightarrow> flat_read f a n = flat_read h a n"
  by (simp add: flat_read_def)

lemma cmd_data_agree: "agree_on (cmd_range cmd) f h \<Longrightarrow> cmd_data cmd f = cmd_data cmd h"
  unfolding cmd_range_def by (rule flat_read_agree)

lemma flat_write_agree:
  "agree_on A f h \<Longrightarrow> agree_on A (flat_write f a bs) (flat_write h a bs)"
  by (simp add: flat_write_def)

lemma flat_write_outside:
  "A \<inter> {a..<a + length bs} = {} \<Longrightarrow> agree_on A (flat_write f a bs) f"
  by (auto simp: flat_write_def)

context live_store
begin

text \<open>
  A step of a command that on every live state with the bytes \<open>d\<close> in its range gives \<open>w\<close>, up to the
  state, and replaces its range by \<open>bs\<close>, or writes nothing.
\<close>

definition local_step ::
    "scsi_cmd \<Rightarrow> (bs_state \<Rightarrow> os \<Rightarrow> worker c_result) \<Rightarrow> bytes \<Rightarrow> worker \<Rightarrow> bytes \<Rightarrow> bool" where
  "local_step cmd step d w bs \<longleftrightarrow> w \<noteq> W_Queued
     \<and> (bs = [] \<or> \<not> only_reads cmd \<and> length bs = unat (cmd_len cmd))
     \<and> (\<forall>st os. live st os \<and> cmd_data cmd (content os) = d \<longrightarrow>
          (\<exists>st' os'. step st os = Returns (move_worker w st' os') \<and> live st' os'
             \<and> content os' = flat_write (content os) (unat (sc_offset cmd)) bs))"

lemma local_stepD:
  assumes "local_step cmd step d w bs" and "live st os" and "cmd_data cmd (content os) = d"
  obtains st' os' where "step st os = Returns (move_worker w st' os')" "live st' os'"
    "content os' = flat_write (content os) (unat (sc_offset cmd)) bs"
  using assms unfolding local_step_def by blast

text \<open>The second step, a write, does not look at the bytes any more.\<close>

definition write_step :: "malloc \<Rightarrow> scsi_cmd \<Rightarrow> bytes \<Rightarrow> u32 \<Rightarrow> request \<Rightarrow> bool" where
  "write_step malloc cmd buf len rq \<longleftrightarrow> (\<exists>rq' bs. \<forall>d.
     local_step cmd (\<lambda>st os. serve_write malloc tbl buf len (with_state rq st os)) d (W_Served rq') bs)"

definition goes_on :: "malloc \<Rightarrow> scsi_cmd \<Rightarrow> worker \<Rightarrow> bool" where
  "goes_on malloc cmd w \<longleftrightarrow> (\<forall>buf len rq. w = W_Write buf len rq \<longrightarrow> write_step malloc cmd buf len rq)"

lemma write_stepI:
  assumes "sc_fd (rq_cmd rq) = fd" and "cmd_len cmd \<noteq> -1" and "sc_mode_page_8 (rq_cmd rq) \<noteq> None"
    and "in_range (unat (sc_offset cmd)) (unat (cmd_len cmd))" and "sc_offset (rq_cmd rq) = sc_offset cmd"
    and "request_ok buf (ucast (cmd_len cmd)) (sc_offset cmd)" and "\<not> only_reads cmd"
  shows "write_step malloc cmd buf (cmd_len cmd) rq"
proof -
  have "\<exists>st' os'. serve_write malloc tbl buf (cmd_len cmd) (with_state rq st os)
        = Returns (W_Served (with_state rq st' os')) \<and> live st' os'
      \<and> content os' = flat_write (content os) (unat (sc_offset cmd)) (take (unat (cmd_len cmd)) buf)"
    if "live st os" for st os
    using rq_do_write_live [of "with_state rq st os" "cmd_len cmd" buf malloc] assms that
    by (fastforce simp: serve_write_def)
  moreover have "length (take (unat (cmd_len cmd)) buf) = unat (cmd_len cmd)"
    using assms(6) by (simp add: request_ok_def)
  ultimately show ?thesis
    unfolding write_step_def local_step_def
    using assms(7) by (intro exI [of _ rq] exI [of _ "take (unat (cmd_len cmd)) buf"]) simp
qed

lemma served_locally:
  assumes "\<And>st os. live st os \<Longrightarrow> cmd_data cmd (content os) = d \<Longrightarrow>
      \<exists>st' os'. bs_simpleOSD_request malloc tbl (start_request cmd st os) = Returns (with_state rq st' os')
        \<and> live st' os' \<and> content os' = flat_write (content os) (unat (sc_offset cmd)) bs"
    and "bs = [] \<or> \<not> only_reads cmd \<and> length bs = unat (cmd_len cmd)"
    and "sc_op cmd \<noteq> COMPARE_AND_WRITE" and "sc_op cmd \<noteq> ORWRITE_16"
  shows "\<exists>w bs. local_step cmd (\<lambda>st os. serve_first malloc tbl (start_request cmd st os)) d w bs
    \<and> goes_on malloc cmd w"
proof -
  have "serve_first malloc tbl (start_request cmd st os)
      = c_bind (bs_simpleOSD_request malloc tbl (start_request cmd st os)) (\<lambda>rq'. Returns (W_Served rq'))"
    for st os
    using assms(3,4) by (simp add: serve_first_def split: scsi_op.split)
  then have "local_step cmd (\<lambda>st os. serve_first malloc tbl (start_request cmd st os)) d (W_Served rq) bs"
    unfolding local_step_def using assms(1,2) by fastforce
  then show ?thesis by (auto simp: goes_on_def)
qed

lemma read_local:
  assumes cmd: "cmd_ok malloc fd in_range cmd" and rd: "is_read (sc_op cmd)" and live: "live st os"
    and d: "cmd_data cmd (content os) = d"
  shows "\<exists>st' os'. bs_simpleOSD_request malloc tbl (start_request cmd st os)
      = Returns (with_state (start_request (cmd\<lparr>sc_in_buffer :=
          splice_at (sc_in_buffer cmd) 0 d\<rparr>) undefined undefined) st' os')
    \<and> live st' os' \<and> content os' = flat_write (content os) (unat (sc_offset cmd)) []"
proof -
  have len: "cmd_len cmd = sc_in_length cmd" using rd by (simp add: cmd_len_def)
  have ok: "sc_fd cmd = fd" "request_ok (sc_in_buffer cmd) (ucast (sc_in_length cmd)) (sc_offset cmd)"
    "in_range (unat (sc_offset cmd)) (unat (sc_in_length cmd))"
    using cmd rd by (auto simp: cmd_ok_def len is_read_def is_write_def is_verify_def caw_ok_def)
  from rq_read_live [of "start_request cmd st os", OF _ _ ok(2,3)] live ok(1)
  obtain st' os' where "rq_read tbl (sc_in_buffer cmd) (sc_in_length cmd) (sc_offset cmd) (start_request cmd st os)
      = Returns (True, splice_at (sc_in_buffer cmd) 0 d,
          with_state (start_request cmd st os) st' os')" and e: "live st' os'" "content os' = content os"
    by (auto simp: len simp flip: d)
  then have "rq_read_cmd tbl (start_request cmd st os)
      = Returns (with_state (start_request (cmd\<lparr>sc_in_buffer :=
          splice_at (sc_in_buffer cmd) 0 d\<rparr>) undefined undefined) st' os')"
    using ok(1) by (simp add: rq_read_cmd_def Let_def advise_noreuse_eq start_request_def)
  with e show ?thesis unfolding request_read [OF rd] flat_write_Nil by blast
qed

lemma write_local:
  assumes cmd: "cmd_ok malloc fd in_range cmd" and wr: "is_write (sc_op cmd)" and live: "live st os"
  shows "\<exists>st' os'. bs_simpleOSD_request malloc tbl (start_request cmd st os)
      = Returns (with_state (start_request cmd undefined undefined) st' os')
    \<and> live st' os'
    \<and> content os' = flat_write (content os) (unat (sc_offset cmd)) (take (unat (cmd_len cmd)) (sc_out_buffer cmd))"
proof -
  have len: "cmd_len cmd = sc_out_length cmd" using wr by (auto simp: cmd_len_def is_write_def is_read_def)
  have ok: "sc_fd cmd = fd" "sc_out_length cmd \<noteq> -1" "sc_mode_page_8 cmd \<noteq> None"
    "request_ok (sc_out_buffer cmd) (ucast (sc_out_length cmd)) (sc_offset cmd)"
    "in_range (unat (sc_offset cmd)) (unat (sc_out_length cmd))"
    using cmd wr by (auto simp: cmd_ok_def len is_read_def is_write_def is_verify_def caw_ok_def)
  from rq_do_write_live [of "start_request cmd st os" "sc_out_length cmd" "sc_out_buffer cmd" malloc] ok live
  obtain st' os' where "rq_do_write malloc tbl (sc_out_buffer cmd) (sc_out_length cmd) False (start_request cmd st os)
      = Returns (with_state (start_request cmd st os) st' os')" and "live st' os'"
    "content os' = flat_write (content os) (unat (sc_offset cmd)) (take (unat (cmd_len cmd)) (sc_out_buffer cmd))"
    by (auto simp: len)
  then show ?thesis by (intro exI [of _ st'] exI [of _ os']) (simp add: request_write [OF wr] with_state_start)
qed

lemma verify_local:
  assumes cmd: "cmd_ok malloc fd in_range cmd" and vf: "is_verify (sc_op cmd)"
    and live: "live st os"
    and d: "cmd_data cmd (content os) = d"
  shows "\<exists>st' os'. bs_simpleOSD_request malloc tbl (start_request cmd st os)
      = Returns (with_state (let rq = start_request cmd undefined undefined in
          if take (unat (cmd_len cmd)) (sc_out_buffer cmd) = d then rq
          else fail_with MISCOMPARE ASC_MISCOMPARE_DURING_VERIFY_OPERATION rq) st' os')
    \<and> live st' os' \<and> content os' = flat_write (content os) (unat (sc_offset cmd)) []"
proof -
  have len: "cmd_len cmd = sc_out_length cmd" using vf by (auto simp: cmd_len_def is_verify_def is_read_def)
  obtain tmp where ok: "sc_fd cmd = fd" "malloc (sc_out_length cmd) = Some tmp"
    "request_ok tmp (ucast (sc_out_length cmd)) (sc_offset cmd)"
    "in_range (unat (sc_offset cmd)) (unat (sc_out_length cmd))"
    using cmd vf by (auto simp: cmd_ok_def len has_tmpbuf_def is_read_def is_write_def is_verify_def caw_ok_def)
  from rq_read_live [of "start_request cmd st os", OF _ _ ok(3,4)] live ok(1)
  obtain st' os' where "rq_read tbl tmp (sc_out_length cmd) (sc_offset cmd) (start_request cmd st os)
      = Returns (True, splice_at tmp 0 d,
          with_state (start_request cmd st os) st' os')" and e: "live st' os'" "content os' = content os"
    by (auto simp: len simp flip: d)
  moreover have "bs_simpleOSD_request malloc tbl (start_request cmd st os) = rq_verify malloc tbl (start_request cmd st os)"
    using vf by (auto simp: bs_simpleOSD_request_def is_verify_def)
  moreover have "take (unat (sc_out_length cmd)) (splice_at tmp 0 d) = d"
    unfolding d [symmetric] len by (rule take_splice_flat)
  ultimately show ?thesis
    using ok(1,2) by (auto simp: rq_verify_def Let_def advise_noreuse_eq start_request_def fail_with_def len)
qed

text \<open>\<open>COMPARE_AND_WRITE\<close> up to its write.\<close>

lemma caw_local:
  assumes cmd: "caw_ok malloc fd in_range cmd"
  shows "\<exists>w. local_step cmd (\<lambda>st os. serve_first malloc tbl (start_request cmd st os)) d w [] \<and> goes_on malloc cmd w"
proof -
  have op: "sc_op cmd = COMPARE_AND_WRITE" "\<not> only_reads cmd" and len: "cmd_len cmd = sc_tl cmd"
    using cmd by (simp_all add: caw_ok_def cmd_len_def is_read_def is_verify_def only_reads_def)
  obtain tmp where tmp: "malloc (sc_tl cmd) = Some tmp" "request_ok tmp (ucast (sc_tl cmd)) (sc_offset cmd)"
    using cmd by (auto simp: caw_ok_def)
  let ?rq = "start_request cmd undefined undefined"
  show ?thesis
  proof (cases "caw_old cmd = d")
    case True
    define w where "w = W_Write (drop (unat (sc_tl cmd)) (sc_out_buffer cmd)) (sc_tl cmd) ?rq"
    have "local_step cmd (\<lambda>st os. serve_first malloc tbl (start_request cmd st os)) d w []"
      unfolding local_step_def
    proof (intro conjI allI impI)
      fix st os assume "live st os \<and> cmd_data cmd (content os) = d"
      with caw_compare_live [OF cmd, of st os] True
      show "\<exists>st' os'. serve_first malloc tbl (start_request cmd st os) = Returns (move_worker w st' os')
          \<and> live st' os' \<and> content os' = flat_write (content os) (unat (sc_offset cmd)) []"
        by (auto simp: len w_def with_state_start)
    qed (simp_all add: w_def)
    moreover have "write_step malloc cmd (drop (unat (sc_tl cmd)) (sc_out_buffer cmd)) (cmd_len cmd) ?rq"
      by (rule write_stepI) (use cmd op(2) tmp(2) in \<open>auto simp: len caw_ok_def request_ok_def start_request_def\<close>)
    ultimately show ?thesis by (intro exI [of _ w]) (simp add: goes_on_def w_def len)
  next
    case False
    define w where "w = W_Served (fail_with MISCOMPARE ASC_MISCOMPARE_DURING_VERIFY_OPERATION
        (?rq\<lparr>rq_info := of_nat (miscompare_pos (sc_out_buffer cmd) (splice_at tmp 0 d) (unat (sc_tl cmd)))\<rparr>))"
    have "local_step cmd (\<lambda>st os. serve_first malloc tbl (start_request cmd st os)) d w []"
      unfolding local_step_def
    proof (intro conjI allI impI)
      fix st os assume st: "live st os \<and> cmd_data cmd (content os) = d"
      with rq_read_live [of "start_request cmd st os" tmp "sc_tl cmd" "sc_offset cmd"] cmd tmp
      obtain st' os' where "rq_read tbl tmp (sc_tl cmd) (sc_offset cmd) (start_request cmd st os)
          = Returns (True, splice_at tmp 0 d, start_request cmd st' os')"
        and e: "live st' os'" "content os' = content os"
        by (auto simp: caw_ok_def len with_state_start)
      then have "serve_first malloc tbl (start_request cmd st os) = Returns (move_worker w st' os')"
        using False st cmd op(1) tmp(1)
        by (auto simp: serve_first_def caw_compare_def caw_ok_def w_def len fail_with_def start_request_def Let_def)
      with e show "\<exists>st' os'. serve_first malloc tbl (start_request cmd st os) = Returns (move_worker w st' os')
          \<and> live st' os' \<and> content os' = flat_write (content os) (unat (sc_offset cmd)) []"
        by auto
    qed (simp_all add: w_def)
    then show ?thesis by (intro exI [of _ w]) (simp add: goes_on_def w_def)
  qed
qed

lemma orwrite_local:
  assumes cmd: "cmd_ok malloc fd in_range cmd" and op: "sc_op cmd = ORWRITE_16"
    and d: "length d = unat (cmd_len cmd)"
  shows "\<exists>w. local_step cmd (\<lambda>st os. serve_first malloc tbl (start_request cmd st os)) d w [] \<and> goes_on malloc cmd w"
proof -
  have len: "cmd_len cmd = sc_out_length cmd" and nr: "\<not> only_reads cmd"
    using op by (simp_all add: cmd_len_def is_read_def only_reads_def is_verify_def)
  obtain tmp where ok: "sc_fd cmd = fd" "sc_out_length cmd \<noteq> -1" "sc_mode_page_8 cmd \<noteq> None"
    "malloc (sc_out_length cmd) = Some tmp" "request_ok tmp (ucast (sc_out_length cmd)) (sc_offset cmd)"
    "in_range (unat (sc_offset cmd)) (unat (sc_out_length cmd))"
    "unat (sc_out_length cmd) \<le> length (sc_out_buffer cmd)"
    using cmd op by (auto simp: cmd_ok_def len has_tmpbuf_def is_read_def is_write_def is_verify_def caw_ok_def)
  define out where "out = or_bytes (sc_out_buffer cmd) (splice_at tmp 0 d) (unat (sc_out_length cmd))"
  define rq where "rq = start_request (cmd\<lparr>sc_out_buffer := out\<rparr>) undefined undefined"
  define w where "w = W_Write out (sc_out_length cmd) rq"
  have "local_step cmd (\<lambda>st os. serve_first malloc tbl (start_request cmd st os)) d w []"
    unfolding local_step_def
  proof (intro conjI allI impI)
    fix st os assume st: "live st os \<and> cmd_data cmd (content os) = d"
    with rq_read_live [of "start_request cmd st os" tmp "sc_out_length cmd" "sc_offset cmd"] ok
    obtain st' os' where "rq_read tbl tmp (sc_out_length cmd) (sc_offset cmd) (start_request cmd st os)
        = Returns (True, splice_at tmp 0 d, start_request cmd st' os')"
      and e: "live st' os'" "content os' = content os"
      by (auto simp: len with_state_start)
    then have "serve_first malloc tbl (start_request cmd st os) = Returns (move_worker w st' os')"
      using op ok(4) by (simp add: serve_first_def orwrite_read_def Let_def w_def rq_def out_def start_request_def)
    with e show "\<exists>st' os'. serve_first malloc tbl (start_request cmd st os) = Returns (move_worker w st' os')
        \<and> live st' os' \<and> content os' = flat_write (content os) (unat (sc_offset cmd)) []"
      by auto
  qed (simp_all add: w_def)
  moreover have "write_step malloc cmd out (cmd_len cmd) rq"
    by (rule write_stepI) (use ok nr d in \<open>auto simp: len rq_def out_def request_ok_def start_request_def\<close>)
  ultimately show ?thesis by (intro exI [of _ w]) (simp add: goes_on_def w_def len)
qed

text \<open>The first step of a command that fits depends on the bytes of its range only.\<close>

lemma serve_first_local:
  assumes cmd: "cmd_ok malloc fd in_range cmd" and d: "length d = unat (cmd_len cmd)"
  shows "\<exists>w bs. local_step cmd (\<lambda>st os. serve_first malloc tbl (start_request cmd st os)) d w bs
    \<and> goes_on malloc cmd w"
proof -
  have "is_read (sc_op cmd) \<or> is_write (sc_op cmd) \<or> is_verify (sc_op cmd) \<or> sc_op cmd = ORWRITE_16
      \<or> caw_ok malloc fd in_range cmd"
    using cmd by (auto simp: cmd_ok_def)
  then consider "is_read (sc_op cmd)" | "is_write (sc_op cmd)" | "is_verify (sc_op cmd)"
    | "sc_op cmd = ORWRITE_16" | "caw_ok malloc fd in_range cmd" by blast
  then show ?thesis
  proof cases
    case 1
    show ?thesis
      by (rule served_locally [OF read_local [OF cmd 1]]) (use 1 in \<open>auto simp: is_read_def\<close>)
  next
    case 2
    have "\<not> only_reads cmd" "length (take (unat (cmd_len cmd)) (sc_out_buffer cmd)) = unat (cmd_len cmd)"
      using 2 cmd by (auto simp: only_reads_def is_read_def is_write_def is_verify_def cmd_ok_def request_ok_def caw_ok_def)
    then show ?thesis
      by (intro served_locally [OF write_local [OF cmd 2]]) (use 2 in \<open>auto simp: is_write_def\<close>)
  next
    case 3
    show ?thesis
      by (rule served_locally [OF verify_local [OF cmd 3]]) (use 3 in \<open>auto simp: is_verify_def\<close>)
  next
    case 4
    then show ?thesis using orwrite_local [OF cmd 4 d] by blast
  next
    case 5
    then show ?thesis using caw_local [OF 5] by blast
  qed
qed

section \<open>Every interleaving\<close>

text \<open>
  What is known of a worker when the content is \<open>f\<close>: the range holds what it would hold had the
  command come so far alone, from the state \<open>st0\<close>, \<open>os0\<close> all commands started in.
\<close>

definition worker_inv ::
    "malloc \<Rightarrow> bs_state \<Rightarrow> os \<Rightarrow> scsi_cmd \<Rightarrow> worker \<Rightarrow> (nat \<Rightarrow> u8) \<Rightarrow> bool" where
  "worker_inv malloc st0 os0 cmd w f \<longleftrightarrow> (case w of
      W_Queued \<Rightarrow> agree_on (cmd_range cmd) f (content os0)
    | W_Write buf len rq \<Rightarrow> write_step malloc cmd buf len rq
        \<and> (\<exists>st1 os1. serve_first malloc tbl (start_request cmd st0 os0) = Returns (W_Write buf len (with_state rq st1 os1))
             \<and> live st1 os1 \<and> agree_on (cmd_range cmd) f (content os1))
    | W_Served rq \<Rightarrow> \<exists>st1 os1. bs_simpleOSD_request malloc tbl (start_request cmd st0 os0) = Returns (with_state rq st1 os1)
             \<and> agree_on (cmd_range cmd) f (content os1))"

lemma worker_inv_agree:
  assumes "worker_inv malloc st0 os0 cmd w f" and "agree_on (cmd_range cmd) f h"
  shows "worker_inv malloc st0 os0 cmd w h"
proof -
  have "agree_on (cmd_range cmd) h k \<longleftrightarrow> agree_on (cmd_range cmd) f k" for k using assms(2) by simp
  with assms(1) show ?thesis by (cases w) (simp_all add: worker_inv_def)
qed

text \<open>What a step of one worker gives: its own invariant, and bytes in its own range only.\<close>

definition step_done :: "malloc \<Rightarrow> bs_state \<Rightarrow> os \<Rightarrow> scsi_cmd \<Rightarrow> os \<Rightarrow> worker c_result \<Rightarrow> bool" where
  "step_done malloc st0 os0 cmd os r \<longleftrightarrow> (\<exists>w st' os' bs. r = Returns (move_worker w st' os') \<and> w \<noteq> W_Queued
     \<and> live st' os' \<and> worker_inv malloc st0 os0 cmd (move_worker w st' os') (content os')
     \<and> (bs = [] \<or> \<not> only_reads cmd \<and> length bs = unat (cmd_len cmd))
     \<and> content os' = flat_write (content os) (unat (sc_offset cmd)) bs)"

lemma step_doneI:
  assumes "local_step cmd step d w bs" and "r = Returns (move_worker w st' os')" and "live st' os'"
    and "content os' = flat_write (content os) (unat (sc_offset cmd)) bs"
    and "worker_inv malloc st0 os0 cmd (move_worker w st' os') (content os')"
  shows "step_done malloc st0 os0 cmd os r"
  unfolding step_done_def
  by (rule exI [of _ w], rule exI [of _ st'], rule exI [of _ os'], rule exI [of _ bs])
     (use assms in \<open>simp add: local_step_def\<close>)

lemma step_doneE:
  assumes "step_done malloc st0 os0 cmd os r"
  obtains w st' os' bs where "r = Returns w" and "w \<noteq> W_Queued" and "worker_shared st os1 w = (st', os')"
    and "live st' os'" and "worker_inv malloc st0 os0 cmd w (content os')"
    and "bs = [] \<or> \<not> only_reads cmd \<and> length bs = unat (cmd_len cmd)"
    and "content os' = flat_write (content os) (unat (sc_offset cmd)) bs"
proof -
  from assms obtain w st' os' bs where w: "r = Returns (move_worker w st' os')" "w \<noteq> W_Queued" "live st' os'"
    "worker_inv malloc st0 os0 cmd (move_worker w st' os') (content os')"
    "bs = [] \<or> \<not> only_reads cmd \<and> length bs = unat (cmd_len cmd)"
    "content os' = flat_write (content os) (unat (sc_offset cmd)) bs"
    unfolding step_done_def by blast
  have "move_worker w st' os' \<noteq> W_Queued" using w(2) by (cases w) simp_all
  with w show thesis by (intro that [of "move_worker w st' os'" st' os' bs]) simp_all
qed

lemma first_step_done:
  assumes cmd: "cmd_ok malloc fd in_range cmd" and start: "live st0 os0" and live: "live st os"
    and agree: "agree_on (cmd_range cmd) (content os) (content os0)"
  shows "step_done malloc st0 os0 cmd os (serve_first malloc tbl (start_request cmd st os))"
proof -
  have d: "cmd_data cmd (content os0) = cmd_data cmd (content os)"
    using cmd_data_agree [OF agree] by simp
  from serve_first_local [OF cmd, of "cmd_data cmd (content os)"]
  obtain w bs where loc: "local_step cmd (\<lambda>st os. serve_first malloc tbl (start_request cmd st os))
      (cmd_data cmd (content os)) w bs" and on: "goes_on malloc cmd w" by auto
  from local_stepD [OF loc live refl] obtain st' os' where
    run: "serve_first malloc tbl (start_request cmd st os) = Returns (move_worker w st' os')"
    and e: "live st' os'" "content os' = flat_write (content os) (unat (sc_offset cmd)) bs" by blast
  from local_stepD [OF loc start d] obtain st1 os1 where
    alone: "serve_first malloc tbl (start_request cmd st0 os0) = Returns (move_worker w st1 os1)"
    and e1: "live st1 os1" "content os1 = flat_write (content os0) (unat (sc_offset cmd)) bs" by blast
  have ag: "agree_on (cmd_range cmd) (content os') (content os1)"
    unfolding e(2) e1(2) by (rule flat_write_agree [OF agree])
  have "worker_inv malloc st0 os0 cmd (move_worker w st' os') (content os')"
  proof (cases w)
    case (W_Write buf len rq)
    then have "write_step malloc cmd buf len (with_state rq st' os')" using on by (simp add: goes_on_def write_step_def)
    then show ?thesis using W_Write alone e1(1) ag by (auto simp: worker_inv_def)
  next
    case (W_Served rq)
    then have "bs_simpleOSD_request malloc tbl (start_request cmd st0 os0) = Returns (with_state rq st1 os1)"
      unfolding serve_first_then_rest [symmetric] alone by simp
    then show ?thesis using W_Served ag by (auto simp: worker_inv_def)
  qed (use loc in \<open>simp add: local_step_def\<close>)
  then show ?thesis by (rule step_doneI [OF loc run e])
qed

lemma second_step_done:
  assumes live: "live st os" and inv: "worker_inv malloc st0 os0 cmd (W_Write buf len rq) (content os)"
  shows "step_done malloc st0 os0 cmd os (serve_write malloc tbl buf len (with_state rq st os))"
proof -
  from inv obtain st1 os1 where
    alone: "serve_first malloc tbl (start_request cmd st0 os0) = Returns (W_Write buf len (with_state rq st1 os1))"
    and l1: "live st1 os1" and agree: "agree_on (cmd_range cmd) (content os) (content os1)"
    and ws: "write_step malloc cmd buf len rq" by (auto simp: worker_inv_def)
  from ws obtain rq' bs where loc:
    "\<And>d. local_step cmd (\<lambda>st os. serve_write malloc tbl buf len (with_state rq st os)) d (W_Served rq') bs"
    by (auto simp: write_step_def)
  from local_stepD [OF loc live refl] obtain st' os' where
    run: "serve_write malloc tbl buf len (with_state rq st os) = Returns (move_worker (W_Served rq') st' os')"
    and e: "live st' os'" "content os' = flat_write (content os) (unat (sc_offset cmd)) bs" by blast
  from local_stepD [OF loc l1 refl] obtain st2 os2 where
    run1: "serve_write malloc tbl buf len (with_state rq st1 os1) = Returns (move_worker (W_Served rq') st2 os2)"
    and e1: "content os2 = flat_write (content os1) (unat (sc_offset cmd)) bs" by blast
  have "rq_do_write malloc tbl buf len False (with_state rq st1 os1) = Returns (with_state rq' st2 os2)"
    using run1 by (auto simp: serve_write_def c_bind_eq_Returns_iff)
  then have "bs_simpleOSD_request malloc tbl (start_request cmd st0 os0) = Returns (with_state rq' st2 os2)"
    unfolding serve_first_then_rest [symmetric] alone by simp
  moreover have "agree_on (cmd_range cmd) (content os') (content os2)"
    unfolding e(2) e1 by (rule flat_write_agree [OF agree])
  ultimately have "worker_inv malloc st0 os0 cmd (move_worker (W_Served rq') st' os') (content os')"
    by (auto simp: worker_inv_def)
  then show ?thesis by (rule step_doneI [OF loc run e])
qed

lemma worker_step_done:
  assumes "cmd_ok malloc fd in_range cmd" and "live st0 os0" and "live st os"
    and "worker_inv malloc st0 os0 cmd w (content os)" and "worker_step malloc tbl cmd w st os = Some r"
  shows "step_done malloc st0 os0 cmd os r"
proof (cases w)
  case W_Queued
  then show ?thesis using first_step_done [OF assms(1-3)] assms(4,5) by (auto simp: worker_inv_def)
next
  case (W_Write buf len rq)
  then show ?thesis using second_step_done [OF assms(3)] assms(4,5) by auto
qed (use assms(5) in simp)

definition run_inv ::
    "malloc \<Rightarrow> bs_state \<Rightarrow> os \<Rightarrow> ('t \<Rightarrow> scsi_cmd) \<Rightarrow> ('t \<Rightarrow> worker) \<times> bs_state \<times> os \<Rightarrow> bool" where
  "run_inv malloc st0 os0 cmds s \<longleftrightarrow> (case s of (ws, st, os) \<Rightarrow> live st os
     \<and> (\<forall>t. worker_inv malloc st0 os0 (cmds t) (ws t) (content os))
     \<and> (\<forall>a. (\<forall>t. only_reads (cmds t) \<or> a \<notin> cmd_range (cmds t)) \<longrightarrow> content os a = content os0 a))"

lemma run_inv_step:
  assumes ok: "\<And>t. cmd_ok malloc fd in_range (cmds t)" and start: "live st0 os0"
    and apart: "\<And>t u. t \<noteq> u \<Longrightarrow> commands_apart (cmds t) (cmds u)"
    and inv: "run_inv malloc st0 os0 cmds s" and step: "worker_race malloc tbl cmds s s'"
  shows "run_inv malloc st0 os0 cmds s'"
  using step
proof cases
  case (work t ws st os w st' os')
  have inv: "live st os" "\<And>t. worker_inv malloc st0 os0 (cmds t) (ws t) (content os)"
    "\<And>a. \<forall>t. only_reads (cmds t) \<or> a \<notin> cmd_range (cmds t) \<Longrightarrow> content os a = content os0 a"
    using inv work(1) by (auto simp: run_inv_def)
  from worker_step_done [OF ok start inv(1,2) work(3)] obtain bs where
    dn: "live st' os'" "worker_inv malloc st0 os0 (cmds t) w (content os')"
    and bs: "bs = [] \<or> \<not> only_reads (cmds t) \<and> length bs = unat (cmd_len (cmds t))"
    and e: "content os' = flat_write (content os) (unat (sc_offset (cmds t))) bs"
    by (rule step_doneE [where st = st and ?os1.0 = os]) (use work(4) in auto)
  have "worker_inv malloc st0 os0 (cmds u) ((ws(t := w)) u) (content os')" for u
  proof (cases "u = t")
    case False
    have "bs = [] \<or> cmd_range (cmds u) \<inter> {unat (sc_offset (cmds t))..<unat (sc_offset (cmds t)) + length bs} = {}"
      using bs apart [OF False] by (auto simp: commands_apart_def cmd_range_def)
    then have "agree_on (cmd_range (cmds u)) (content os') (content os)"
      unfolding e using flat_write_outside by fastforce
    then show ?thesis using worker_inv_agree [OF inv(2)] False by simp
  qed (use dn in simp)
  moreover have "content os' a = content os0 a" if a: "\<forall>t. only_reads (cmds t) \<or> a \<notin> cmd_range (cmds t)" for a
  proof -
    have "bs = [] \<or> a \<notin> {unat (sc_offset (cmds t))..<unat (sc_offset (cmds t)) + length bs}"
      using bs a by (auto simp: cmd_range_def)
    then show ?thesis using inv(3) [OF a] by (auto simp: e flat_write_def)
  qed
  ultimately show ?thesis using dn work(2) by (simp add: run_inv_def)
qed

lemma run_inv_reachable:
  assumes "\<And>t. cmd_ok malloc fd in_range (cmds t)" and "live st0 os0"
    and "\<And>t u. t \<noteq> u \<Longrightarrow> commands_apart (cmds t) (cmds u)"
    and "(worker_race malloc tbl cmds)\<^sup>*\<^sup>* (\<lambda>_. W_Queued, st0, os0) s"
  shows "run_inv malloc st0 os0 cmds s"
  using assms(4)
proof (induction rule: rtranclp_induct)
  case base
  show ?case using assms(2) by (simp add: run_inv_def worker_inv_def)
next
  case (step s s')
  then show ?case using run_inv_step [where cmds = cmds, OF assms(1-3)] by blast
qed

lemma run_inv_served:
  assumes "run_inv malloc st0 os0 cmds (ws, st, os)" and "ws t = W_Served rq"
  shows "\<exists>st' os'. bs_simpleOSD_request malloc tbl (start_request (cmds t) st0 os0) = Returns (with_state rq st' os')
    \<and> agree_on (cmd_range (cmds t)) (content os) (content os')"
proof -
  have "worker_inv malloc st0 os0 (cmds t) (ws t) (content os)" using assms(1) by (simp add: run_inv_def)
  then show ?thesis using assms(2) by (simp add: worker_inv_def)
qed

lemma run_inv_elsewhere:
  "run_inv malloc st0 os0 cmds (ws, st, os) \<Longrightarrow> \<forall>t. only_reads (cmds t) \<or> a \<notin> cmd_range (cmds t)
     \<Longrightarrow> content os a = content os0 a"
  by (simp add: run_inv_def)

end

section \<open>Every schedule ends\<close>

text \<open>The race as threads that take turns, and the calls of the store each has still to make.\<close>

definition serve_turn ::
    "malloc \<Rightarrow> bs_io_op \<Rightarrow> ('t \<Rightarrow> scsi_cmd) \<Rightarrow> 't \<Rightarrow> worker \<Rightarrow> bs_state \<times> os \<Rightarrow> (worker \<times> bs_state \<times> os) option" where
  "serve_turn malloc tbl cmds t w s = (case s of (st, os) \<Rightarrow>
     case worker_step malloc tbl (cmds t) w st os of
       Some (Returns w') \<Rightarrow> Some (w', worker_shared st os w')
     | _ \<Rightarrow> None)"

fun steps_left :: "worker \<Rightarrow> nat" where
  "steps_left W_Queued = 2"
| "steps_left (W_Write buf len rq) = 1"
| "steps_left (W_Served rq) = 0"

definition served :: "worker \<Rightarrow> bool" where
  "served w \<longleftrightarrow> steps_left w = 0"

lemma served_iff: "served w \<longleftrightarrow> (\<exists>rq. w = W_Served rq)"
  by (cases w) (simp_all add: served_def)

lemma serve_turn_eq:
  "serve_turn malloc tbl cmds t w (st, os) = Some (w', st', os') \<longleftrightarrow>
     worker_step malloc tbl (cmds t) w st os = Some (Returns w') \<and> worker_shared st os w' = (st', os')"
  by (auto simp: serve_turn_def split: option.split c_result.split)

lemma worker_race_turn: "worker_race malloc tbl cmds = turn (serve_turn malloc tbl cmds) UNIV"
proof (intro ext iffI)
  fix s s'
  show "turn (serve_turn malloc tbl cmds) UNIV s s'" if "worker_race malloc tbl cmds s s'"
    using that by cases (auto intro!: turnI simp: serve_turn_eq)
  show "worker_race malloc tbl cmds s s'" if "turn (serve_turn malloc tbl cmds) UNIV s s'"
    using that
  proof cases
    case (turnI t ws s pc' s1)
    then show ?thesis by (cases s; cases s1) (auto simp: serve_turn_eq intro!: worker_race.work)
  qed
qed

lemma worker_step_left:
  "worker_step malloc tbl cmd w st os = Some (Returns w') \<Longrightarrow> w' \<noteq> W_Queued \<Longrightarrow> steps_left w' < steps_left w"
  by (cases w; cases w') (auto simp: serve_write_def c_bind_eq_Returns_iff)

text \<open>The commands \<open>cmds\<close> of finitely many threads fit and do not meet, and have come so far.\<close>

context live_store
begin

definition workers_inv ::
    "malloc \<Rightarrow> bs_state \<Rightarrow> os \<Rightarrow> ('t \<Rightarrow> scsi_cmd) \<Rightarrow> ('t \<Rightarrow> worker) \<Rightarrow> bs_state \<times> os \<Rightarrow> bool" where
  "workers_inv malloc st0 os0 cmds ws s \<longleftrightarrow> finite (UNIV :: 't set) \<and> (\<forall>t. cmd_ok malloc fd in_range (cmds t))
     \<and> (\<forall>t u. t \<noteq> u \<longrightarrow> commands_apart (cmds t) (cmds u)) \<and> live st0 os0
     \<and> run_inv malloc st0 os0 cmds (ws, s)"

end

sublocale live_store \<subseteq> workers: bounded_threads "serve_turn malloc tbl cmds" UNIV "\<lambda>_. steps_left"
    "workers_inv malloc st0 os0 cmds" served
  for malloc st0 os0 and cmds :: "'t \<Rightarrow> scsi_cmd"
proof
  fix ws :: "'t \<Rightarrow> worker" and s t pc' s'
  assume inv: "workers_inv malloc st0 os0 cmds ws s"
  obtain st os where s: "s = (st, os)" by (cases s)
  note ok = inv [unfolded workers_inv_def s]
  then have cmds: "\<And>t. cmd_ok malloc fd in_range (cmds t)" "live st0 os0"
    "\<And>t u. t \<noteq> u \<Longrightarrow> commands_apart (cmds t) (cmds u)"
    and run: "run_inv malloc st0 os0 cmds (ws, st, os)" by blast+
  show "finite (UNIV :: 't set)" using ok by blast
  show "workers_inv malloc st0 os0 cmds (ws(t := pc')) s' \<and> steps_left pc' < steps_left (ws t)"
    if st: "serve_turn malloc tbl cmds t (ws t) s = Some (pc', s')"
  proof -
    obtain st' os' where s': "s' = (st', os')" by (cases s')
    have step: "worker_step malloc tbl (cmds t) (ws t) st os = Some (Returns pc')"
      "worker_shared st os pc' = (st', os')" using st by (simp_all add: s s' serve_turn_eq)
    have "worker_race malloc tbl cmds (ws, st, os) (ws(t := pc'), st', os')"
      by (rule worker_race.work) (use step in simp_all)
    then have "run_inv malloc st0 os0 cmds (ws(t := pc'), s')"
      using run_inv_step [where cmds = cmds, OF cmds run] by (simp add: s')
    moreover have "live st os" "worker_inv malloc st0 os0 (cmds t) (ws t) (content os)"
      using run by (simp_all add: run_inv_def)
    then have "pc' \<noteq> W_Queued"
      using worker_step_done [OF cmds(1,2) _ _ step(1)] by (auto elim: step_doneE)
    then have "steps_left pc' < steps_left (ws t)" by (rule worker_step_left [OF step(1)])
    ultimately show ?thesis using ok by (simp add: workers_inv_def)
  qed
  show "\<exists>u\<in>UNIV. serve_turn malloc tbl cmds u (ws u) s \<noteq> None" if "\<not> served (ws t)"
  proof -
    have "\<And>rq. ws t \<noteq> W_Served rq" using that by (auto simp: served_iff)
    then obtain r where r: "worker_step malloc tbl (cmds t) (ws t) st os = Some r" by (cases "ws t") auto
    have "live st os" "worker_inv malloc st0 os0 (cmds t) (ws t) (content os)"
      using run by (simp_all add: run_inv_def)
    from worker_step_done [OF cmds(1,2) this r] obtain w where "r = Returns w" by (rule step_doneE)
    then have "serve_turn malloc tbl cmds t (ws t) s \<noteq> None" using r by (simp add: serve_turn_def s)
    then show ?thesis by blast
  qed
qed

section \<open>Properties\<close>


text \<open>A \<open>COMPARE_AND_WRITE\<close> of the bytes 2 and 3, a read of the bytes 5 and 6.\<close>

definition ex_apart :: "bool \<Rightarrow> scsi_cmd" where
  "ex_apart t = (if t then ex_cmd COMPARE_AND_WRITE [0, 0, 1, 1] 2
     else (ex_cmd READ_10 [] 2)\<lparr>sc_offset := 5\<rparr>)"

abbreviation ex_malloc :: malloc where
  "ex_malloc \<equiv> \<lambda>n. Some (replicate (unat n) 5)"

abbreviation ex_junk :: blk_io_args where
  "ex_junk \<equiv> \<lparr>ba_lun_index = 0, ba_buf = [], ba_buf_len = 0, ba_offset = 0\<rparr>"

lemma ex_apart_ok:
  "cmd_ok ex_malloc 0 (range_ok ex_collection) (ex_apart t)"
  "t \<noteq> u \<Longrightarrow> commands_apart (ex_apart t) (ex_apart u)"
  by (cases t; cases u; simp add: cmd_ok_def ex_apart_def ex_cmd_def request_ok_def range_ok_def caw_ok_def
      cmd_len_def is_read_def commands_apart_def cmd_range_def)+

lemma ex_apart_ranges:
  "cmd_range (ex_apart True) = {2..<4}" "cmd_range (ex_apart False) = {5..<7}"
  "unat (cmd_len (ex_apart False)) = 2" "unat (sc_offset (ex_apart False)) = 5"
  "only_reads (ex_apart False)" "is_read (sc_op (ex_apart False))" "sc_in_buffer (ex_apart False) = [9, 9]"
  by (simp_all add: cmd_range_def ex_apart_def ex_cmd_def cmd_len_def is_read_def only_reads_def)

lemma ex_apart_end:
  "\<exists>ws st os. (worker_race ex_malloc ex_store ex_apart)\<^sup>*\<^sup>* (\<lambda>_. W_Queued, ex_open_table ex_lun, ex_live_os) (ws, st, os)
     \<and> (\<forall>t. \<exists>rq. ws t = W_Served rq)"
proof -
  have "live_rw.workers_inv True False ex_params ex_junk 0 ex_collection ex_malloc (ex_open_table ex_lun) ex_live_os
      ex_apart (\<lambda>_. W_Queued) (ex_open_table ex_lun, ex_live_os)"
    using ex_apart_ok ex_lun_live
    by (simp add: live_rw.workers_inv_def live_rw.run_inv_def live_rw.worker_inv_def)
  from live_rw.workers.turns_end [OF this] show ?thesis by (auto simp: worker_race_turn served_iff)
qed


text \<open>
  C23: The threads always finish: with finitely many such commands no schedule makes more than two
  steps per command, and when no worker can move each command has been served. No call of the
  store hangs or is undefined on the way, in whatever order the workers reach it.
\<close>

theorem scsi_workers_finish:
  assumes "\<And>t. cmd_ok malloc i (range_ok col) (cmds t)"
    and "\<And>t u. t \<noteq> u \<Longrightarrow> commands_apart (cmds t) (cmds u)" and "lun_live g i col st0 os0"
    and "finite (UNIV :: 't set)"
    and "(worker_race malloc (simpleOSD_bs_op mds ic g junk) cmds ^^ n) (\<lambda>_ :: 't. W_Queued, st0, os0) (ws, st, os)"
  shows "n \<le> 2 * card (UNIV :: 't set)
    \<and> ((\<forall>s. \<not> worker_race malloc (simpleOSD_bs_op mds ic g junk) cmds (ws, st, os) s)
        \<longrightarrow> (\<forall>t. \<exists>rq. ws t = W_Served rq))"
proof -
  have start: "live_rw.workers_inv mds ic g junk i col malloc st0 os0 cmds (\<lambda>_. W_Queued) (st0, os0)"
    using assms(1-4) by (simp add: live_rw.workers_inv_def live_rw.run_inv_def live_rw.worker_inv_def)
  note run = assms(5) [unfolded worker_race_turn]
  have inv: "live_rw.workers_inv mds ic g junk i col malloc st0 os0 cmds ws (st, os)"
    and n: "n \<le> 2 * card (UNIV :: 't set)"
    using live_rw.workers.turns_bounded [OF run start] by simp_all
  show ?thesis
    using n live_rw.workers.stuck_finished [OF inv] by (auto simp: worker_race_turn served_iff)
qed

theorem scsi_workers_finish_witness:
  "\<exists>n ws st os. n \<le> 4
     \<and> (worker_race ex_malloc ex_store ex_apart ^^ n) (\<lambda>_. W_Queued, ex_open_table ex_lun, ex_live_os) (ws, st, os)
     \<and> (\<forall>t. \<exists>rq. ws t = W_Served rq)"
proof -
  obtain ws st os where fin: "\<forall>t. \<exists>rq. ws t = W_Served rq"
    and "(worker_race ex_malloc ex_store ex_apart)\<^sup>*\<^sup>* (\<lambda>_. W_Queued, ex_open_table ex_lun, ex_live_os) (ws, st, os)"
    using ex_apart_end by blast
  then obtain n where
    run: "(worker_race ex_malloc ex_store ex_apart ^^ n) (\<lambda>_. W_Queued, ex_open_table ex_lun, ex_live_os) (ws, st, os)"
    using rtranclp_imp_relpowp by fast
  have "n \<le> 2 * card (UNIV :: bool set)"
    using scsi_workers_finish [where cmds = ex_apart, OF ex_apart_ok(1) ex_apart_ok(2) ex_lun_live _ run] by simp
  with fin run show ?thesis by (intro exI [of _ n] exI [of _ ws] exI [of _ st] exI [of _ os]) simp
qed

end
