(* ===== verification/Lun_Machine.thy ===== *)
theory Lun_Machine
  imports Lun_Props
begin

text \<open>
  The life of the LUN table under any sequence of calls. The abstract machine is a list of slots
  with two kinds of step; the concrete one is the set of calls of the block store's table that
  return. Every call is simulated by at most one step of the machine, and the invariants of the
  machine are carried back to the table by induction over the calls.
\<close>

section \<open>The abstract machine\<close>

inductive slot_step :: "slot list \<Rightarrow> slot list \<Rightarrow> bool" where
  opens: "i < length s \<Longrightarrow> s ! i \<noteq> In_Use \<Longrightarrow> (\<forall>j < i. s ! j = In_Use) \<Longrightarrow>
    slot_step s (s[i := In_Use])"
| closes: "i < length s \<Longrightarrow> s ! i \<noteq> Vacant \<Longrightarrow> slot_step s (s[i := Closed])"

inductive_cases slot_stepE: "slot_step s s'"

text \<open>Slots are taken from the front: behind a vacant slot there are only vacant ones.\<close>

definition vacant_suffix :: "slot list \<Rightarrow> bool" where
  "vacant_suffix s \<longleftrightarrow> (\<forall>i j. i \<le> j \<and> j < length s \<and> s ! i = Vacant \<longrightarrow> s ! j = Vacant)"

lemma slot_step_length: "slot_step s s' \<Longrightarrow> length s' = length s"
  by (auto elim: slot_stepE)

lemma slot_step_vacant_suffix:
  assumes "slot_step s s'" and "vacant_suffix s"
  shows "vacant_suffix s'"
  using assms
proof cases
  case (opens k)
  show ?thesis
    unfolding vacant_suffix_def
  proof (intro allI impI)
    fix i j
    assume h: "i \<le> j \<and> j < length s' \<and> s' ! i = Vacant"
    with opens have "k < i" by (metis linorder_neqE_nat length_list_update nth_list_update slot.distinct(3) le_less_trans)
    with h opens assms(2) show "s' ! j = Vacant" by (auto simp: vacant_suffix_def)
  qed
next
  case (closes k)
  then show ?thesis
    using assms(2) unfolding vacant_suffix_def
    by (auto simp: nth_list_update split: if_splits)
qed

text \<open>A slot that has held a LUN never falls back behind \<open>Closed\<close>.\<close>

lemma slot_step_keeps_lun:
  "slot_step s s' \<Longrightarrow> i < length s \<Longrightarrow> Closed \<le> s ! i \<Longrightarrow> Closed \<le> s' ! i"
  by (auto elim!: slot_stepE simp: nth_list_update split: if_splits)

text \<open>How many slots hold a LUN; a step occupies at most one more and vacates none.\<close>

definition occupied :: "slot list \<Rightarrow> nat" where
  "occupied s = length (filter (\<lambda>x. Closed \<le> x) s)"

lemma occupied_update:
  "i < length s \<Longrightarrow> x \<noteq> Vacant \<Longrightarrow>
     occupied (s[i := x]) = occupied s + (if s ! i = Vacant then 1 else 0)"
proof (induction s arbitrary: i)
  case (Cons y s)
  then show ?case by (cases i) (auto simp: occupied_def)
qed simp

section \<open>The calls\<close>

text \<open>The state of table and system before and after a call that returns.\<close>

inductive api_step ::
    "blk_frontend_parameters \<Rightarrow> bs_state \<times> os \<Rightarrow> bs_state \<times> os \<Rightarrow> bool" for g where
  api_open: "simpleOSD_lun_open mds ic g path fl outs st os = Returns (r, outs', st', os') \<Longrightarrow>
    api_step g (st, os) (st', os')"
| api_close: "simpleOSD_lun_close i st os = Returns (r, st', os') \<Longrightarrow>
    api_step g (st, os) (st', os')"
| api_read: "simpleOSD_read (simpleOSD_blk_op osd_op_func g) i buf len off st os
      = Returns (r, out, st', os') \<Longrightarrow> api_step g (st, os) (st', os')"
| api_write: "simpleOSD_write (simpleOSD_blk_op osd_op_func g) junk i buf len off st os
      = Returns (r, st', os') \<Longrightarrow> api_step g (st, os) (st', os')"
| api_sync: "simpleOSD_datasync (simpleOSD_blk_op osd_op_func g) junk i st os
      = Returns (r, st', os') \<Longrightarrow> api_step g (st, os) (st', os')"
| api_unmap: "simpleOSD_unmap_file_region i off len st os = Returns (r, st', os') \<Longrightarrow>
    api_step g (st, os) (st', os')"
| api_advise: "simpleOSD_posix_advise i off len advice st os = Returns (r, st', os') \<Longrightarrow>
    api_step g (st, os) (st', os')"

text \<open>The invariant: the table's own, and the address 0 holds no LUN.\<close>

definition table_inv :: "bs_state \<Rightarrow> bool" where
  "table_inv st \<longleftrightarrow> bs_ok st \<and> bs_heap st 0 = None \<and> vacant_suffix (slots st)"

lemma open_returns_ready:
  assumes "simpleOSD_lun_open mds ic g path fl outs st os = Returns (r, outs', st', os')"
    and "bs_heap st 0 = None" and "bs_ok st"
  shows "open_slot st \<ge> NB_MAX_LUN \<and> st' = st \<or> open_ready st path"
proof (cases "open_slot st \<ge> NB_MAX_LUN")
  case True
  then show ?thesis using assms(1) by (simp add: simpleOSD_lun_open_def Let_def)
next
  case False
  have "length path < MAXNAMESIZE"
    using assms(1) False
    by (auto simp: simpleOSD_lun_open_def Let_def c_bind_eq_Returns_iff split: prod.splits if_splits)
  moreover have "bs_malloc st \<noteq> []" if "bs_lun_list st ! open_slot st = 0"
  proof
    assume "bs_malloc st = []"
    then show False
      using assms(1,2) False that
      by (simp add: simpleOSD_lun_open_def Let_def GET_MEMORY_def deref_lun_def set_slot_def
          USE_LUN_def VAL_POINTER_def LUN_USED_def PTR_MASK_def)
  qed
  ultimately show ?thesis using False assms(3) by (simp add: open_ready_def)
qed


text \<open>Blocks of memory: those still to be handed out and those in slots. No call frees one.\<close>

definition blocks :: "bs_state \<Rightarrow> nat" where
  "blocks st = length (bs_malloc st) + occupied (slots st)"

text \<open>What a call does to the table, as the machine sees it.\<close>

definition simulated :: "bs_state \<Rightarrow> bs_state \<Rightarrow> bool" where
  "simulated st st' \<longleftrightarrow> table_inv st' \<and> blocks st' = blocks st
     \<and> (slots st' = slots st \<or> slot_step (slots st) (slots st'))"

lemma simulated_refl: "table_inv st \<Longrightarrow> simulated st st"
  by (simp add: simulated_def)

lemma blocks_store [simp]: "blocks (store_lun st a l) = blocks st"
  by (simp add: blocks_def) (simp add: store_lun_def)

lemma simulated_store:
  assumes "simulated st st'" and "bs_heap st' a = Some lun" 
  shows "simulated st (store_lun st' a l)"
proof -
  have "bs_ok (store_lun st' a l)" using assms by (intro bs_ok_store) (simp_all add: simulated_def table_inv_def)
  moreover have "a \<noteq> 0" using assms by (auto simp: simulated_def table_inv_def)
  ultimately show ?thesis using assms
    by (simp add: simulated_def table_inv_def) (simp add: store_lun_def)
qed

lemma taken_memory:
  assumes "open_ready st path" and "taken st = (st2, a, lun0)"
  shows "b \<noteq> a \<Longrightarrow> bs_heap st2 b = bs_heap st b"
    and "length (bs_malloc st2) + (if slots st ! open_slot st = Vacant then 1 else 0)
      = length (bs_malloc st)"
proof -
  have vacant: "slots st ! open_slot st = Vacant \<longleftrightarrow> bs_lun_list st ! open_slot st = 0"
    using assms(1) by (simp add: slots_def open_ready_def bs_ok_def slot_of_def)
  obtain p st1 where
    eq: "(if bs_lun_list st ! open_slot st = 0 then GET_MEMORY st
      else (bs_lun_list st ! open_slot st, st)) = (p, st1)"
    and st2: "st2 = set_slot st1 (open_slot st) (USE_LUN p)" and a: "a = VAL_POINTER p"
    by (rule taken_eq [OF assms(2)])
  have "(b \<noteq> a \<longrightarrow> bs_heap st2 b = bs_heap st b) \<and>
    length (bs_malloc st2) + (if bs_lun_list st ! open_slot st = 0 then 1 else 0)
      = length (bs_malloc st)"
  proof (cases "bs_lun_list st ! open_slot st = 0")
    case True
    then obtain c l ms where m: "bs_malloc st = (c, l) # ms"
      using assms(1) by (cases "bs_malloc st") (auto simp: open_ready_def)
    then have "VAL_POINTER c = c" using assms(1) by (simp add: open_ready_def bs_ok_def malloc_ok_def)
    with True m eq show ?thesis by (auto simp: st2 a GET_MEMORY_def set_slot_def)
  next
    case False
    with eq show ?thesis by (auto simp: st2 set_slot_def)
  qed
  then show "b \<noteq> a \<Longrightarrow> bs_heap st2 b = bs_heap st b"
    and "length (bs_malloc st2) + (if slots st ! open_slot st = Vacant then 1 else 0)
      = length (bs_malloc st)"
    by (simp_all add: vacant)
qed

lemma open_simulated:
  assumes run: "simpleOSD_lun_open mds ic g path fl outs st os = Returns (r, outs', st', os')"
    and inv: "table_inv st"
  shows "simulated st st'"
proof -
  from inv have ok: "bs_ok st" and null: "bs_heap st 0 = None" by (simp_all add: table_inv_def)
  from open_returns_ready [OF run null ok] show ?thesis
  proof
    assume ready: "open_ready st path"
    obtain st2 a lun0 where t: "taken st = (st2, a, lun0)" by (cases "taken st") auto
    have i: "open_slot st < length (slots st)"
      using ready by (simp add: open_ready_def bs_ok_def slots_def)
    have step: "slot_step (slots st) (slots st2)"
      unfolding taken_slots(1) [OF ready t]
      using next_free_lun_free next_free_lun_less i
      by (intro slot_step.opens) (simp_all add: slots_def)
    have "blocks st2 = blocks st"
      using taken_memory(2) [OF ready t] occupied_update [OF i, of In_Use]
      by (simp add: blocks_def taken_slots(1) [OF ready t] split: if_splits)
    then have sim: "simulated st st2"
      using step taken_ok [OF ready t] taken_memory(1) [OF ready t, of 0] null inv
        slot_step_vacant_suffix [OF step]
      by (simp add: simulated_def table_inv_def)
    obtain l where "st' = store_lun st2 a l"
      using run unfolding lun_open_taken [OF ready t refl]
      by (auto simp: c_bind_eq_Returns_iff split: if_splits)
    then show ?thesis using simulated_store [OF sim] taken_ok [OF ready t] by blast
  qed (simp add: inv simulated_refl)
qed

lemma close_cases:
  assumes run: "simpleOSD_lun_close i st os = Returns (r, st', os')"
  obtains p lun lun1 where "lun_slot st i = Returns p" "bs_heap st (VAL_POINTER p) = Some lun"
    "st' = store_lun st (VAL_POINTER p) lun1
      \<or> st' = set_slot (store_lun st (VAL_POINTER p) lun1) (nat (sint i)) (FREE_LUN p)"
proof -
  obtain p lun where p: "lun_slot st i = Returns p" "bs_heap st (VAL_POINTER p) = Some lun"
    using run by (auto simp: simpleOSD_lun_close_def c_bind_eq_Returns_iff deref_lun_def
        split: option.splits)
  with run show thesis
    by (auto simp: simpleOSD_lun_close_def deref_lun_def Let_def intro: that split: prod.splits if_splits)
qed

lemma close_simulated:
  assumes run: "simpleOSD_lun_close i st os = Returns (r, st', os')" and inv: "table_inv st"
  shows "simulated st st'"
proof -
  obtain p lun lun1 where p: "lun_slot st i = Returns p" and l: "bs_heap st (VAL_POINTER p) = Some lun"
    and st': "st' = store_lun st (VAL_POINTER p) lun1
      \<or> st' = set_slot (store_lun st (VAL_POINTER p) lun1) (nat (sint i)) (FREE_LUN p)"
    by (rule close_cases [OF run])
  have nz: "VAL_POINTER p \<noteq> 0" using l inv by (auto simp: table_inv_def)
  have ok: "bs_ok st" using inv by (simp add: table_inv_def)
  have at: "lun_at st i = Some lun" using p l nz by (simp add: lun_at_def)
  have i: "nat (sint i) < length (slots st)" and sl: "slots st ! nat (sint i) \<noteq> Vacant"
    using p nz by (auto simp: lun_slot_def slots_def slot_of_def VAL_POINTER_def split: if_splits)
  have mem: "bs_malloc st' = bs_malloc st" "bs_heap st' 0 = None"
    using st' nz inv by (auto simp: store_lun_def set_slot_def table_inv_def)
  have "bs_ok st'" "slots st' = slots st \<or> slots st' = (slots st)[nat (sint i) := Closed]"
    using lun_close_effect [OF ok at, of os] run by (auto split: if_splits)
  moreover from this(2) have "slots st' = slots st \<or> slot_step (slots st) (slots st')"
    using slot_step.closes [OF i sl] by auto
  ultimately show ?thesis
    using inv mem occupied_update [OF i, of Closed] sl slot_step_vacant_suffix
    by (auto simp: simulated_def table_inv_def blocks_def)
qed

lemma write_simulated:
  assumes run: "simpleOSD_write (simpleOSD_blk_op osd_op_func g) junk i buf len off st os
      = Returns (r, st', os')" and inv: "table_inv st"
  shows "simulated st st'"
proof -
  have "st' = st \<or> (\<exists>a lun l. bs_heap st a = Some lun \<and> st' = store_lun st a l)"
    using run
    by (auto simp: simpleOSD_write_def Let_def simpleOSD_blk_op_def simpleOSD_blk_write_def
        c_bind_eq_Returns_iff deref_lun_def split: prod.splits if_splits option.splits)
  then show ?thesis using simulated_refl [OF inv] simulated_store by blast
qed

text \<open>The simulation.\<close>

lemma api_step_simulated:
  assumes "api_step g (st, os) (st', os')" and "table_inv st"
  shows "simulated st st'"
  using assms
proof cases
  case api_open
  then show ?thesis using open_simulated assms(2) by blast
next
  case api_close
  then show ?thesis using close_simulated assms(2) by blast
next
  case api_write
  then show ?thesis using write_simulated assms(2) by blast
next
  case api_read
  then have "st' = st"
    by (auto simp: simpleOSD_read_def Let_def simpleOSD_blk_op_def simpleOSD_blk_read_def
        c_bind_eq_Returns_iff split: prod.splits if_splits)
  then show ?thesis using simulated_refl assms(2) by blast
next
  case api_sync
  then have "st' = st"
    by (simp add: simpleOSD_datasync_def simpleOSD_blk_op_def simpleOSD_blk_datasync_def)
  then show ?thesis using simulated_refl assms(2) by blast
qed (auto simp: simpleOSD_unmap_file_region_def simpleOSD_posix_advise_def simulated_refl)


section \<open>Reachable tables\<close>

text \<open>The table before the first call: no LUN, nothing in memory, \<open>malloc\<close> as C promises.\<close>

definition fresh_table :: "bs_state \<Rightarrow> bool" where
  "fresh_table st \<longleftrightarrow> bs_lun_list st = replicate NB_MAX_LUN 0 \<and> bs_heap st = Map.empty \<and> malloc_ok st"

lemma fresh_table_slots: "fresh_table st \<Longrightarrow> slots st = replicate NB_MAX_LUN Vacant"
  by (simp add: fresh_table_def slots_def slot_of_def)

lemma fresh_table_inv: "fresh_table st \<Longrightarrow> table_inv st"
  using fresh_table_slots [of st]
  by (auto simp: table_inv_def fresh_table_def bs_ok_def slot_ok_def ptrs_distinct_def
      vacant_suffix_def)

lemma reachable_simulated:
  assumes "(api_step g)\<^sup>*\<^sup>* (st, os) (st', os')" and "table_inv st"
  shows "table_inv st' \<and> blocks st' = blocks st \<and> slot_step\<^sup>*\<^sup>* (slots st) (slots st')"
  using assms(1)
proof (induction "(st', os')" arbitrary: st' os' rule: rtranclp_induct)
  case base
  then show ?case using assms(2) by simp
next
  case (step y)
  obtain st1 os1 where y: "y = (st1, os1)" by (cases y) auto
  with step have "table_inv st1 \<and> blocks st1 = blocks st \<and> slot_step\<^sup>*\<^sup>* (slots st) (slots st1)" by blast
  moreover from this have "simulated st1 st'"
    using api_step_simulated step.hyps(2) unfolding y by blast
  ultimately show ?case
    by (auto simp: simulated_def intro: rtranclp.rtrancl_into_rtrancl)
qed

lemma occupied_replicate [simp]: "occupied (replicate n Vacant) = 0"
  by (simp add: occupied_def)

lemma slot_holds_lun:
  assumes "bs_ok st" and "i < NB_MAX_LUN" and "slots st ! i \<noteq> Vacant"
  shows "lun_at st (of_nat i) \<noteq> None"
proof -
  have i: "i < length (bs_lun_list st)" using assms(1,2) by (simp add: bs_ok_def)
  then have p: "bs_lun_list st ! i \<noteq> 0" using assms(3) by (auto simp: slots_def slot_of_def)
  have "slot_ok (bs_heap st) (bs_lun_list st ! i)" using assms(1) i by (simp add: bs_ok_def)
  then show ?thesis
    using p i assms(2) by (simp add: lun_at_def lun_slot_def sint_slot_index slot_ok_def)
qed

lemma ex_open_step:
  "\<exists>st'. api_step ex_params (ex_empty_table ex_lun, ex_os) (st', ex_os) \<and> slots st' ! 0 = In_Use"
proof -
  have ready: "open_ready (ex_empty_table ex_lun) ''vol''"
    by (rule ex_empty_table_ready) (simp add: MAXNAMESIZE_def)
  have "open_slot (ex_empty_table ex_lun) = 0"
    by (simp add: ex_empty_table_def numeral_eq_Suc)
  then show ?thesis
    using lun_open_effect [OF ready, of True ex_params O_RDWR "(0, 0, 0)" ex_os]
    by (fastforce simp: slots_def ex_empty_table_def intro: api_step.api_open)
qed

lemma ex_fresh_table: "fresh_table (ex_empty_table ex_lun)"
  by (simp add: fresh_table_def ex_empty_table_def NB_MAX_LUN_def malloc_ok_def)

section \<open>Properties\<close>





end
