(* ===== verification/Lun_Race.thy ===== *)
theory Lun_Race
  imports Lun_Machine
begin

text \<open>
  Threads in \<open>simpleOSD_lun_open\<close> at once. The table of slots has no lock: the search for a free slot,
  taking it, and reading the volume's metadata into the LUN are three steps between which other
  opens can run. The table stays well formed whatever the order, but the slot found may have been
  taken by the time it is marked.
\<close>

section \<open>An open in three steps\<close>

record open_arg =
  on_path :: string
  on_oflag :: u32
  on_outs :: lun_out

text \<open>\<open>Taken\<close> has the locals \<open>next_free_lun\<close> and \<open>p_curr_lun\<close>.\<close>

datatype open_pc =
    Searching
  | Slot nat
  | Taken nat u64
  | Opened BS_IO_RETURN lun_out

definition open_search :: "open_arg \<Rightarrow> bs_state \<Rightarrow> open_pc" where
  "open_search a st =
     (let n = next_free_lun (bs_lun_list st) in
      if n \<ge> NB_MAX_LUN then Opened BS_IO_ERROR (on_outs a) else Slot n)"

definition open_take ::
    "blk_frontend_parameters \<Rightarrow> open_arg \<Rightarrow> nat \<Rightarrow> bs_state \<Rightarrow> (open_pc \<times> bs_state) c_result" where
  "open_take g a n st =
     (let (p, st1) = (if bs_lun_list st ! n = 0 then GET_MEMORY st else (bs_lun_list st ! n, st));
          st2 = set_slot st1 n (USE_LUN p);
          addr = VAL_POINTER (USE_LUN p)
      in c_bind (deref_lun st2 addr) (\<lambda>lun0.
           if length (on_path a) \<ge> MAXNAMESIZE then Undefined
           else Returns (Taken n addr, store_lun st2 addr
             (lun0\<lparr>ol_lun_vol := on_path a, ol_lun_index := of_nat n, ol_io_flag := on_oflag a,
                ol_lun_dc_path := snprintf MAXPATHSIZE (''/'' @ bp_dc_path g @ ''/'' @ on_path a @ ''/'')\<rparr>))))"

definition open_info ::
    "bool \<Rightarrow> bool \<Rightarrow> blk_frontend_parameters \<Rightarrow> open_arg \<Rightarrow> nat \<Rightarrow> u64 \<Rightarrow> bs_state \<Rightarrow> os
       \<Rightarrow> (open_pc \<times> bs_state \<times> os) c_result" where
  "open_info mds_db initial_cache g a n addr st os =
     c_bind (deref_lun st addr) (\<lambda>lun1.
       c_bind (of_run (simpleOSD_get_lun_info mds_db initial_cache g lun1 os)) (\<lambda>(r, lun2, os1).
         let st1 = store_lun st addr lun2 in
         Returns (if r \<noteq> BS_IO_SUCCESS then Opened BS_IO_ERROR (on_outs a)
                  else Opened BS_IO_SUCCESS (ol_lun_capacity lun2, ucast (ol_block_size lun2), of_nat n),
                  st1, os1)))"

fun open_step ::
    "bool \<Rightarrow> bool \<Rightarrow> blk_frontend_parameters \<Rightarrow> open_arg \<Rightarrow> open_pc \<Rightarrow> bs_state \<Rightarrow> os
       \<Rightarrow> (open_pc \<times> bs_state \<times> os) c_result option" where
  "open_step mds ic g a Searching st os = Some (Returns (open_search a st, st, os))"
| "open_step mds ic g a (Slot n) st os =
     Some (c_bind (open_take g a n st) (\<lambda>(pc, st1). Returns (pc, st1, os)))"
| "open_step mds ic g a (Taken n addr) st os = Some (open_info mds ic g a n addr st os)"
| "open_step mds ic g a (Opened r outs) st os = None"

inductive open_race ::
    "bool \<Rightarrow> bool \<Rightarrow> blk_frontend_parameters \<Rightarrow> ('t \<Rightarrow> open_arg) \<Rightarrow>
     ('t \<Rightarrow> open_pc) \<times> bs_state \<times> os \<Rightarrow> ('t \<Rightarrow> open_pc) \<times> bs_state \<times> os \<Rightarrow> bool" for mds ic g a
  where
  thread: "open_step mds ic g (a t) (pcs t) st os = Some (Returns (pc, st', os')) \<Longrightarrow>
    open_race mds ic g a (pcs, st, os) (pcs(t := pc), st', os')"
| call: "api_step g (st, os) (st', os') \<Longrightarrow> open_race mds ic g a (pcs, st, os) (pcs, st', os')"

text \<open>The three steps with nothing in between are the function.\<close>

definition open_alone ::
    "bool \<Rightarrow> bool \<Rightarrow> blk_frontend_parameters \<Rightarrow> open_arg \<Rightarrow> bs_state \<Rightarrow> os \<Rightarrow> (open_pc \<times> bs_state \<times> os) c_result" where
  "open_alone mds ic g a st os = (case open_search a st of
      Slot n \<Rightarrow> c_bind (open_take g a n st) (\<lambda>(pc, st1). case pc of
          Taken n addr \<Rightarrow> open_info mds ic g a n addr st1 os
        | _ \<Rightarrow> Undefined)
    | pc \<Rightarrow> Returns (pc, st, os))"

lemma store_twice [simp]: "store_lun (store_lun st a l) a l' = store_lun st a l'"
  by (simp add: store_lun_def)

lemma deref_stored [simp]: "deref_lun (store_lun st a l) a = Returns l"
  by (simp add: deref_lun_def store_lun_def)

lemma open_alone_is_open:
  "simpleOSD_lun_open mds ic g (on_path a) (on_oflag a) (on_outs a) st os
     = c_bind (open_alone mds ic g a st os) (\<lambda>(pc, st', os'). case pc of
         Opened r outs \<Rightarrow> Returns (r, outs, st', os') | _ \<Rightarrow> Undefined)"
  by (auto simp: simpleOSD_lun_open_def open_alone_def open_search_def open_take_def open_info_def Let_def
      c_bind_assoc split: prod.split intro!: c_bind_cong_Returns)

section \<open>The table under many opens\<close>

text \<open>A slot that holds a LUN keeps it; only its tag changes.\<close>

definition keeps_luns :: "bs_state \<Rightarrow> bs_state \<Rightarrow> bool" where
  "keeps_luns st st' \<longleftrightarrow> (\<forall>n < length (bs_lun_list st). bs_lun_list st ! n \<noteq> 0 \<longrightarrow>
     bs_lun_list st' ! n \<noteq> 0 \<and> VAL_POINTER (bs_lun_list st' ! n) = VAL_POINTER (bs_lun_list st ! n))"

lemma keeps_luns_same: "bs_lun_list st' = bs_lun_list st \<Longrightarrow> keeps_luns st st'"
  by (simp add: keeps_luns_def)

lemma keeps_luns_retag:
  assumes "bs_lun_list st' = (bs_lun_list st)[n := p]" and "p \<noteq> 0"
    and "n < length (bs_lun_list st) \<Longrightarrow> bs_lun_list st ! n \<noteq> 0 \<Longrightarrow> VAL_POINTER p = VAL_POINTER (bs_lun_list st ! n)"
  shows "keeps_luns st st'"
  unfolding keeps_luns_def using assms by (metis nth_list_update_eq nth_list_update_neq)

lemma lun_list_store [simp]: "bs_lun_list (store_lun st a l) = bs_lun_list st"
  by (simp add: store_lun_def)

text \<open>Taking slot \<open>n\<close>, whatever has become of it since the search.\<close>

lemma open_take_effect:
  assumes inv: "table_inv st" and n: "n < NB_MAX_LUN" and before: "\<forall>j < n. bs_lun_list st ! j \<noteq> 0"
    and run: "open_take g a n st = Returns (pc, st')"
  shows "\<exists>p. pc = Taken n (VAL_POINTER p) \<and> table_inv st' \<and> keeps_luns st st'
    \<and> bs_lun_list st' = (bs_lun_list st)[n := USE_LUN p] \<and> bs_heap st' (VAL_POINTER p) \<noteq> None"
proof -
  have ok: "bs_ok st" and null: "bs_heap st 0 = None" and suf: "vacant_suffix (slots st)"
    using inv by (simp_all add: table_inv_def)
  have len: "length (bs_lun_list st) = NB_MAX_LUN" using ok by (simp add: bs_ok_def)
  obtain p st1 where
    eq: "(if bs_lun_list st ! n = 0 then GET_MEMORY st else (bs_lun_list st ! n, st)) = (p, st1)"
    by (meson surj_pair)
  define st2 where "st2 = set_slot st1 n (USE_LUN p)"
  obtain l l1 where l: "bs_heap st2 (VAL_POINTER p) = Some l" and pc: "pc = Taken n (VAL_POINTER p)"
    and st': "st' = store_lun st2 (VAL_POINTER p) l1"
    using run eq by (auto simp: open_take_def Let_def deref_lun_def st2_def c_bind_eq_Returns_iff
        split: option.splits if_splits)
  have list1: "bs_lun_list st1 = bs_lun_list st"
    using eq by (auto simp: GET_MEMORY_def split: if_splits list.splits prod.splits)
  have st2: "bs_ok st2 \<and> bs_heap st2 0 = None \<and> (bs_lun_list st ! n \<noteq> 0 \<longrightarrow> p = bs_lun_list st ! n)"
  proof (cases "bs_lun_list st ! n = 0")
    case True
    then obtain b lb ms where m: "bs_malloc st = (b, lb) # ms"
      using eq l null by (cases "bs_malloc st")
        (auto simp: GET_MEMORY_def st2_def set_slot_def VAL_POINTER_def)
    then have b: "VAL_POINTER b = b" "b \<noteq> 0" using ok by (simp_all add: bs_ok_def malloc_ok_def)
    then have "bs_ok (set_slot (snd (GET_MEMORY st)) n (USE_LUN b))"
      by (intro bs_ok_alloc [OF ok n True m]) simp_all
    with True m b eq null show ?thesis by (auto simp: st2_def GET_MEMORY_def set_slot_def)
  next
    case False
    then show ?thesis
      using eq null bs_ok_retag [OF ok n False, of "USE_LUN (bs_lun_list st ! n)"]
      by (auto simp: st2_def set_slot_def)
  qed
  have list2: "bs_lun_list st2 = (bs_lun_list st)[n := USE_LUN p]" by (simp add: st2_def set_slot_def list1)
  have "slots st2 = (slots st)[n := In_Use]" by (simp add: slots_def list2 map_update)
  moreover have "\<forall>j < n. slots st ! j \<noteq> Vacant" using before n len by (simp add: slots_def slot_of_def)
  ultimately have "vacant_suffix (slots st2)"
    using suf n len unfolding vacant_suffix_def
    by (auto simp: nth_list_update slots_def split: if_splits)
  then have "table_inv st'"
    using st2 l bs_ok_store [of st2 "VAL_POINTER p" l1] by (auto simp: st' table_inv_def store_lun_def slots_def)
  moreover have "keeps_luns st st'"
    by (rule keeps_luns_retag [where n = n and p = "USE_LUN p"]) (use st2 list2 in \<open>simp_all add: st'\<close>)
  ultimately show ?thesis using pc list2 l by (auto simp: st' store_lun_def)
qed

text \<open>The other steps and calls.\<close>

lemma api_step_keeps_luns:
  assumes "api_step g (st, os) (st', os')" and inv: "table_inv st"
  shows "keeps_luns st st'"
  using assms(1)
proof cases
  case (api_open mds ic path fl outs r outs')
  have ok: "bs_ok st" and null: "bs_heap st 0 = None" using inv by (simp_all add: table_inv_def)
  from open_returns_ready [OF api_open null ok] show ?thesis
  proof
    assume ready: "open_ready st path"
    obtain st2 a lun0 where t: "taken st = (st2, a, lun0)" by (cases "taken st") auto
    obtain l where st': "st' = store_lun st2 a l"
      using api_open unfolding lun_open_taken [OF ready t refl]
      by (auto simp: c_bind_eq_Returns_iff split: if_splits)
    obtain p st1 where
      eq: "(if bs_lun_list st ! open_slot st = 0 then GET_MEMORY st
        else (bs_lun_list st ! open_slot st, st)) = (p, st1)"
      and "bs_lun_list st2 = (bs_lun_list st)[open_slot st := USE_LUN p]"
      by (rule taken_eq [OF t])
    moreover from eq have "bs_lun_list st ! open_slot st \<noteq> 0 \<Longrightarrow> p = bs_lun_list st ! open_slot st"
      by auto
    ultimately show ?thesis
      by (intro keeps_luns_retag [where n = "open_slot st" and p = "USE_LUN p"]) (simp_all add: st')
  qed (simp add: keeps_luns_same)
next
  case (api_close i r)
  from close_cases [OF this] obtain p lun lun1 where "lun_slot st i = Returns p"
    and "st' = store_lun st (VAL_POINTER p) lun1
      \<or> st' = set_slot (store_lun st (VAL_POINTER p) lun1) (nat (sint i)) (FREE_LUN p)"
    and "bs_heap st (VAL_POINTER p) = Some lun" .
  moreover from this(3) have "FREE_LUN p \<noteq> 0"
    using inv tag_simps(1) [of p] by (auto simp: table_inv_def VAL_POINTER_def)
  ultimately show ?thesis
    by (auto simp: lun_slot_def set_slot_def split: if_splits
        intro: keeps_luns_same keeps_luns_retag [where n = "nat (sint i)" and p = "FREE_LUN p"])
next
  case (api_read i buf len off r out)
  then have "st' = st"
    by (auto simp: simpleOSD_read_def Let_def simpleOSD_blk_op_def simpleOSD_blk_read_def
        c_bind_eq_Returns_iff split: prod.splits if_splits)
  then show ?thesis by (simp add: keeps_luns_same)
next
  case (api_write junk i buf len off r)
  then have "bs_lun_list st' = bs_lun_list st"
    by (auto simp: simpleOSD_write_def Let_def simpleOSD_blk_op_def simpleOSD_blk_write_def
        c_bind_eq_Returns_iff deref_lun_def split: prod.splits if_splits option.splits)
  then show ?thesis by (rule keeps_luns_same)
next
  case (api_sync junk i r)
  then show ?thesis
    by (simp add: simpleOSD_datasync_def simpleOSD_blk_op_def simpleOSD_blk_datasync_def keeps_luns_same)
qed (auto simp: simpleOSD_unmap_file_region_def simpleOSD_posix_advise_def keeps_luns_same)

lemma open_info_effect:
  assumes "table_inv st" and "open_info mds ic g a n addr st os = Returns (pc, st', os')"
  shows "table_inv st' \<and> bs_lun_list st' = bs_lun_list st \<and> (\<exists>r outs. pc = Opened r outs
    \<and> (r = BS_IO_SUCCESS \<longrightarrow> snd (snd outs) = of_nat n))"
proof -
  obtain l lun where "bs_heap st addr = Some l" "st' = store_lun st addr lun"
    "\<exists>r outs. pc = Opened r outs \<and> (r = BS_IO_SUCCESS \<longrightarrow> snd (snd outs) = of_nat n)"
    using assms(2) by (cases "on_outs a")
      (auto simp: open_info_def deref_lun_def c_bind_eq_Returns_iff Let_def split: option.splits if_splits)
  then show ?thesis
    using simulated_store [OF simulated_refl [OF assms(1)], of addr l lun] by (simp add: simulated_def)
qed

text \<open>What a thread relies on: the slots before its own stay filled, and its slot keeps its LUN.\<close>

fun open_pc_ok :: "bs_state \<Rightarrow> open_pc \<Rightarrow> bool" where
  "open_pc_ok st Searching \<longleftrightarrow> True"
| "open_pc_ok st (Slot n) \<longleftrightarrow> n < NB_MAX_LUN \<and> (\<forall>j < n. bs_lun_list st ! j \<noteq> 0)"
| "open_pc_ok st (Taken n addr) \<longleftrightarrow> n < NB_MAX_LUN \<and> bs_lun_list st ! n \<noteq> 0
     \<and> VAL_POINTER (bs_lun_list st ! n) = addr"
| "open_pc_ok st (Opened r outs) \<longleftrightarrow> (r = BS_IO_SUCCESS \<longrightarrow>
     (\<exists>n < NB_MAX_LUN. snd (snd outs) = of_nat n \<and> bs_lun_list st ! n \<noteq> 0))"

lemma open_pc_ok_keeps:
  assumes "open_pc_ok st pc" and "keeps_luns st st'" and "length (bs_lun_list st) = NB_MAX_LUN"
  shows "open_pc_ok st' pc"
  using assms by (cases pc) (auto simp: keeps_luns_def)

definition opens_inv :: "('t \<Rightarrow> open_pc) \<times> bs_state \<times> os \<Rightarrow> bool" where
  "opens_inv s \<longleftrightarrow> (case s of (pcs, st, os) \<Rightarrow> table_inv st \<and> (\<forall>t. open_pc_ok st (pcs t)))"

lemma open_step_effect:
  assumes inv: "table_inv st" and pc: "open_pc_ok st pc"
    and run: "open_step mds ic g a pc st os = Some (Returns (pc', st', os'))"
  shows "table_inv st' \<and> keeps_luns st st' \<and> open_pc_ok st' pc'"
proof (cases pc)
  case Searching
  then have "pc' = open_search a st" "st' = st" using run by auto
  moreover have "length (bs_lun_list st) = NB_MAX_LUN" using inv by (simp add: table_inv_def bs_ok_def)
  ultimately show ?thesis
    using inv next_free_lun_less [of _ "bs_lun_list st"]
    by (auto simp: open_search_def Let_def keeps_luns_same slot_of_In_Use_iff)
next
  case (Slot n)
  obtain st1 where take: "open_take g a n st = Returns (pc', st')"
    using run Slot by (auto simp: c_bind_eq_Returns_iff)
  have len: "n < length (bs_lun_list st)" using pc Slot inv by (simp add: table_inv_def bs_ok_def)
  from open_take_effect [OF inv _ _ take] pc Slot obtain p where
    "pc' = Taken n (VAL_POINTER p)" "table_inv st'" "keeps_luns st st'"
    "bs_lun_list st' = (bs_lun_list st)[n := USE_LUN p]" by auto
  then show ?thesis using pc Slot len by simp
next
  case (Taken n addr)
  then have "open_info mds ic g a n addr st os = Returns (pc', st', os')" using run by simp
  from open_info_effect [OF inv this] pc Taken show ?thesis by (auto simp: keeps_luns_same)
qed (use run in simp)

lemma opens_inv_step:
  assumes "open_race mds ic g a s s'" and "opens_inv s"
  shows "opens_inv s'"
  using assms(1)
proof cases
  case (thread t pcs st os pc st' os')
  have inv: "table_inv st" "\<And>u. open_pc_ok st (pcs u)" using assms(2) thread(1) by (simp_all add: opens_inv_def)
  from open_step_effect [OF inv thread(3)]
  show ?thesis
    using inv thread(2) open_pc_ok_keeps [OF inv(2)] by (auto simp: opens_inv_def table_inv_def bs_ok_def)
next
  case (call st os st' os' pcs)
  have inv: "table_inv st" "\<And>u. open_pc_ok st (pcs u)" using assms(2) call(1) by (simp_all add: opens_inv_def)
  then show ?thesis
    using api_step_simulated [OF call(3)] api_step_keeps_luns [OF call(3)] open_pc_ok_keeps [OF inv(2)] call(2)
    by (auto simp: opens_inv_def simulated_def table_inv_def bs_ok_def)
qed

lemma opens_inv_reachable:
  assumes "(open_race mds ic g a)\<^sup>*\<^sup>* (\<lambda>_. Searching, st0, os0) s" and "table_inv st0"
  shows "opens_inv s"
  using assms(1)
proof (induction rule: rtranclp_induct)
  case base
  then show ?case using assms(2) by (simp add: opens_inv_def)
next
  case (step s s')
  then show ?case by (blast intro: opens_inv_step)
qed


section \<open>Two opens of one slot\<close>

lemma open_take_ready:
  assumes "open_ready st (on_path a)" and "taken st = (st2, addr, lun0)" and n: "open_slot st = n"
  shows "open_take g a n st = Returns (Taken n addr,
    store_lun st2 addr (lun_opening g (on_path a) (on_oflag a) n lun0))"
proof -
  obtain p st1 where
    eq: "(if bs_lun_list st ! n = 0 then GET_MEMORY st else (bs_lun_list st ! n, st)) = (p, st1)"
    and st2: "st2 = set_slot st1 n (USE_LUN p)" and addr: "addr = VAL_POINTER p"
    using taken_eq [OF assms(2)] n by metis
  have "deref_lun (set_slot st1 n (USE_LUN p)) (VAL_POINTER p) = Returns lun0"
    using taken_ok [OF assms(1,2)] by (simp add: deref_lun_def st2 addr)
  then show ?thesis
    using assms(1) by (simp add: open_take_def eq addr st2 Let_def open_ready_def lun_opening_def cong: if_cong)
qed

text \<open>A slot that another thread has taken since the search is taken again, with its LUN.\<close>

lemma open_take_again:
  assumes "bs_ok st" and n: "n < NB_MAX_LUN" and "bs_lun_list st ! n \<noteq> 0" and "length (on_path a) < MAXNAMESIZE"
  obtains l st2 addr where
    "open_take g a n st = Returns (Taken n addr, store_lun st2 addr (lun_opening g (on_path a) (on_oflag a) n l))"
    "\<And>l'. lun_at (store_lun st2 addr l') (of_nat n) = Some l'"
proof -
  define p where "p = bs_lun_list st ! n"
  have "slot_ok (bs_heap st) p" using assms by (simp add: bs_ok_def p_def)
  then obtain l where l: "VAL_POINTER p \<noteq> 0" "bs_heap st (VAL_POINTER p) = Some l"
    using assms(3) by (auto simp: slot_ok_def p_def)
  show thesis
  proof (rule that [of "VAL_POINTER p" "set_slot st n (USE_LUN p)" l])
    show "open_take g a n st = Returns (Taken n (VAL_POINTER p), store_lun (set_slot st n (USE_LUN p)) (VAL_POINTER p)
        (lun_opening g (on_path a) (on_oflag a) n l))"
      using assms l by (simp add: open_take_def Let_def deref_lun_def set_slot_def lun_opening_def flip: p_def)
    show "lun_at (store_lun (set_slot st n (USE_LUN p)) (VAL_POINTER p) l') (of_nat n) = Some l'" for l'
      using assms l by (simp add: lun_at_def lun_slot_def sint_slot_index store_lun_def set_slot_def bs_ok_def)
  qed
qed

lemma open_info_stored:
  "open_info True False g a n addr (store_lun st addr l) os
     = Returns (Opened BS_IO_SUCCESS (104857600, 4096, of_nat n), store_lun st addr (test_lun (os_time os) l), os)"
  by (simp add: open_info_def get_lun_info_test) (simp add: test_lun_def)

text \<open>What a thread in turn finds: the slot of an open that succeeded before it is in use.\<close>

lemma open_success_index:
  assumes "simpleOSD_lun_open mds ic g path fl outs st os = Returns (BS_IO_SUCCESS, outs', st', os')"
    and ok: "bs_ok st"
  shows "open_slot st < NB_MAX_LUN \<and> snd (snd outs') = of_nat (open_slot st)
    \<and> open_slot st' \<noteq> open_slot st"
proof -
  have len: "length (bs_lun_list st) = NB_MAX_LUN" using ok by (simp add: bs_ok_def)
  have "bs_lun_list (snd (GET_MEMORY st)) = bs_lun_list st"
    by (simp add: GET_MEMORY_def split: list.split prod.split)
  then have "\<exists>p. bs_lun_list st' = (bs_lun_list st)[open_slot st := USE_LUN p]
      \<and> open_slot st < NB_MAX_LUN \<and> snd (snd outs') = of_nat (open_slot st)"
    using assms(1)
    by (auto simp: simpleOSD_lun_open_def Let_def c_bind_eq_Returns_iff set_slot_def split: prod.splits if_splits)
  moreover have "open_slot st' \<noteq> n" if "bs_lun_list st' ! n = USE_LUN p" "n < length (bs_lun_list st')" for n p
    using next_free_lun_free [of "bs_lun_list st'"] that by (auto simp: slot_of_def)
  ultimately show ?thesis using len by auto
qed

lemma opens_in_turn_differ:
  assumes "simpleOSD_lun_open mds ic g path fl outs st os = Returns (BS_IO_SUCCESS, outs1, st1, os1)"
    and "simpleOSD_lun_open mds ic g path' fl' outs' st1 os1 = Returns (BS_IO_SUCCESS, outs2, st2, os2)"
    and "table_inv st"
  shows "snd (snd outs1) \<noteq> snd (snd outs2)"
proof -
  have "bs_ok st" "bs_ok st1"
    using assms(3) open_simulated [OF assms(1,3)] by (simp_all add: table_inv_def simulated_def)
  then have "open_slot st < NB_MAX_LUN" "open_slot st1 < NB_MAX_LUN" "open_slot st1 \<noteq> open_slot st"
    "snd (snd outs1) = of_nat (open_slot st)" "snd (snd outs2) = of_nat (open_slot st1)"
    using open_success_index [OF assms(1)] open_success_index [OF assms(2)] by simp_all
  then show ?thesis by (metis sint_slot_index of_nat_eq_iff)
qed

text \<open>The interleaving: both search, then one thread opens, then the other.\<close>

lemma open_race_step:
  assumes "(open_race mds ic g a)\<^sup>*\<^sup>* (pcs', st', os') s" and "pcs' = pcs(t := pc)"
    and "open_step mds ic g (a t) (pcs t) st os = Some (Returns (pc, st', os'))"
  shows "(open_race mds ic g a)\<^sup>*\<^sup>* (pcs, st, os) s"
  using assms by (blast intro: converse_rtranclp_into_rtranclp open_race.thread)

lemma both_open_one_slot:
  assumes ready: "open_ready st (on_path (a t))" and len: "length (on_path (a u)) < MAXNAMESIZE"
    and tu: "t \<noteq> u" and n: "n = open_slot st" and o: "out = (104857600, 4096, of_nat n)"
  shows "\<exists>st' l. (open_race True False g a)\<^sup>*\<^sup>* (\<lambda>_. Searching, st, os)
        ((\<lambda>_. Searching)(t := Opened BS_IO_SUCCESS out, u := Opened BS_IO_SUCCESS out), st', os)
      \<and> lun_at st' (of_nat n) = Some (test_lun (os_time os) (lun_opening g (on_path (a u)) (on_oflag (a u)) n l))"
proof -
  let ?lun = "\<lambda>v. lun_opening g (on_path (a v)) (on_oflag (a v)) n"
  obtain st2 addr lun0 where tk: "taken st = (st2, addr, lun0)" by (cases "taken st") auto
  have nb: "n < NB_MAX_LUN" using ready by (simp add: open_ready_def n)
  have search: "open_search (a v) st = Slot n" for v using nb by (simp add: open_search_def n)
  define sa where "sa = store_lun st2 addr (test_lun (os_time os) (?lun t lun0))"
  have sa: "bs_ok sa" "bs_lun_list sa ! n \<noteq> 0"
    using taken_ok [OF ready tk] taken_slots [OF ready tk]
    by (auto simp: sa_def n store_lun_def intro: bs_ok_store [unfolded store_lun_def])
      (auto simp: VAL_POINTER_def)
  obtain l st3 ad where
    tu2: "open_take g (a u) n sa = Returns (Taken n ad, store_lun st3 ad (?lun u l))"
    and at: "\<And>l'. lun_at (store_lun st3 ad l') (of_nat n) = Some l'"
    by (rule open_take_again [OF sa(1) nb sa(2) len]) blast
  define sb where "sb = store_lun st3 ad (test_lun (os_time os) (?lun u l))"
  let ?fin = "((\<lambda>_. Searching)(t := Opened BS_IO_SUCCESS out, u := Opened BS_IO_SUCCESS out), sb, os)"
  note take = open_take_ready [OF ready tk n [symmetric]]
  have "(open_race True False g a)\<^sup>*\<^sup>*
      ((\<lambda>_. Searching)(t := Opened BS_IO_SUCCESS out, u := Taken n ad), store_lun st3 ad (?lun u l), os) ?fin"
    by (rule open_race_step [OF rtranclp.rtrancl_refl, where t = u and pc = "Opened BS_IO_SUCCESS out"])
       (use tu in \<open>simp_all add: open_info_stored o sb_def\<close>)
  then have "(open_race True False g a)\<^sup>*\<^sup>*
      ((\<lambda>_. Searching)(t := Opened BS_IO_SUCCESS out, u := Slot n), sa, os) ?fin"
    by (rule open_race_step [where t = u and pc = "Taken n ad"]) (use tu in \<open>simp_all add: tu2\<close>)
  then have "(open_race True False g a)\<^sup>*\<^sup>*
      ((\<lambda>_. Searching)(t := Taken n addr, u := Slot n), store_lun st2 addr (?lun t lun0), os) ?fin"
    by (rule open_race_step [where t = t and pc = "Opened BS_IO_SUCCESS out"])
       (use tu in \<open>simp_all add: open_info_stored o sa_def fun_eq_iff\<close>)
  then have "(open_race True False g a)\<^sup>*\<^sup>* ((\<lambda>_. Searching)(t := Slot n, u := Slot n), st, os) ?fin"
    by (rule open_race_step [where t = t and pc = "Taken n addr"])
       (use tu in \<open>simp_all add: take fun_eq_iff\<close>)
  then have "(open_race True False g a)\<^sup>*\<^sup>* ((\<lambda>_. Searching)(t := Slot n), st, os) ?fin"
    by (rule open_race_step [where t = u and pc = "Slot n"]) (use tu in \<open>simp_all add: search\<close>)
  then have "(open_race True False g a)\<^sup>*\<^sup>* (\<lambda>_. Searching, st, os) ?fin"
    by (rule open_race_step [where t = t and pc = "Slot n"]) (simp_all add: search)
  then show ?thesis using at [of "test_lun (os_time os) (?lun u l)"] unfolding sb_def by blast
qed

section \<open>Properties\<close>

text \<open>
  Whatever the order of the three steps and of other calls: the table keeps its invariant, and the
  index an open has returned with success leads to a LUN in memory.
\<close>

theorem opens_keep_table:
  assumes "(open_race mds ic g a)\<^sup>*\<^sup>* (\<lambda>_. Searching, st0, os0) (pcs, st, os)" and "table_inv st0"
  shows "table_inv st
      \<and> (\<forall>t outs. pcs t = Opened BS_IO_SUCCESS outs \<longrightarrow> lun_at st (snd (snd outs)) \<noteq> None)"
proof -
  have inv: "table_inv st" "\<And>t. open_pc_ok st (pcs t)"
    using opens_inv_reachable [OF assms] by (simp_all add: opens_inv_def)
  have "lun_at st (snd (snd outs)) \<noteq> None" if t: "pcs t = Opened BS_IO_SUCCESS outs" for t outs
  proof -
    obtain n where n: "n < NB_MAX_LUN" "snd (snd outs) = of_nat n" "bs_lun_list st ! n \<noteq> 0"
      using inv(2) [of t] t by auto
    moreover have "bs_ok st" using inv(1) by (simp add: table_inv_def)
    ultimately show ?thesis
      using slot_holds_lun [of st n] by (simp add: slots_def slot_of_def bs_ok_def)
  qed
  with inv show ?thesis by blast
qed

text \<open>
  C14: Opens are not exclusive. Two threads that search for a free slot before either has marked one
  find the same slot; both opens succeed and return the same index, and the LUN behind it is the
  volume of the thread that came second, so the first thread's requests go to the wrong volume. Of
  two opens that succeed one after the other, the second never gets the index of the first.
\<close>

theorem lun_open_race:
  assumes "table_inv st" and "open_ready st (on_path (a t))"
    and "length (on_path (a u)) < MAXNAMESIZE" and "t \<noteq> u"
  shows "(\<exists>pcs st' i lun. (open_race True False g a)\<^sup>*\<^sup>* (\<lambda>_. Searching, st, os) (pcs, st', os)
        \<and> pcs t = Opened BS_IO_SUCCESS (104857600, 4096, i)
        \<and> pcs u = Opened BS_IO_SUCCESS (104857600, 4096, i)
        \<and> lun_at st' i = Some lun \<and> ol_lun_vol lun = on_path (a u))
      \<and> (\<forall>out1 st1 os1 out2 st2 os2.
          simpleOSD_lun_open True False g (on_path (a t)) (on_oflag (a t)) (on_outs (a t)) st os
            = Returns (BS_IO_SUCCESS, out1, st1, os1) \<and>
          simpleOSD_lun_open True False g (on_path (a u)) (on_oflag (a u)) (on_outs (a u)) st1 os1
            = Returns (BS_IO_SUCCESS, out2, st2, os2) \<longrightarrow> snd (snd out1) \<noteq> snd (snd out2))"
proof (intro conjI)
  let ?i = "of_nat (open_slot st)" and ?out = "(104857600, 4096, of_nat (open_slot st))"
  obtain st' l where
    run: "(open_race True False g a)\<^sup>*\<^sup>* (\<lambda>_. Searching, st, os)
      ((\<lambda>_. Searching)(t := Opened BS_IO_SUCCESS ?out, u := Opened BS_IO_SUCCESS ?out), st', os)"
    and at: "lun_at st' ?i = Some (test_lun (os_time os)
      (lun_opening g (on_path (a u)) (on_oflag (a u)) (open_slot st) l))"
    using both_open_one_slot [OF assms(2-4) refl refl] by blast
  have vol: "ol_lun_vol (test_lun now (lun_opening g p fl n l)) = p" for now p fl n
    by (simp add: test_lun_def lun_opening_def)
  show "\<exists>pcs st' i lun. (open_race True False g a)\<^sup>*\<^sup>* (\<lambda>_. Searching, st, os) (pcs, st', os)
      \<and> pcs t = Opened BS_IO_SUCCESS (104857600, 4096, i)
      \<and> pcs u = Opened BS_IO_SUCCESS (104857600, 4096, i)
      \<and> lun_at st' i = Some lun \<and> ol_lun_vol lun = on_path (a u)"
    by (intro exI conjI, rule run) (use assms(4) at vol in auto)
qed (use opens_in_turn_differ assms(1) in blast)

text \<open>Two threads, \<open>False\<close> and \<open>True\<close>, on the empty table.\<close>

theorem lun_open_race_witness:
  "\<exists>pcs st' i lun.
      (open_race True False ex_params
         (\<lambda>t. \<lparr>on_path = if t then ''wol'' else ''vol'', on_oflag = O_RDWR, on_outs = (0, 0, 0)\<rparr>))\<^sup>*\<^sup>*
        (\<lambda>_. Searching, ex_empty_table ex_lun, ex_os) (pcs, st', ex_os)
      \<and> pcs False = Opened BS_IO_SUCCESS (104857600, 4096, i)
      \<and> pcs True = Opened BS_IO_SUCCESS (104857600, 4096, i)
      \<and> lun_at st' i = Some lun \<and> ol_lun_vol lun = ''wol''"
proof -
  let ?a = "\<lambda>t. \<lparr>on_path = if t then ''wol'' else ''vol'', on_oflag = O_RDWR, on_outs = (0, 0, 0) :: lun_out\<rparr>"
  have "open_ready (ex_empty_table ex_lun) (on_path (?a False))"
    by (rule ex_empty_table_ready) (simp add: MAXNAMESIZE_def)
  moreover have "length (on_path (?a True)) < MAXNAMESIZE" by (simp add: MAXNAMESIZE_def)
  ultimately show ?thesis
    using lun_open_race [OF fresh_table_inv [OF ex_fresh_table], of ?a False True ex_params ex_os]
    by simp
qed

end
