(* ===== verification/Fetch_Race.thy ===== *)
theory Fetch_Race
  imports Fetch
begin

text \<open>
  Several threads in \<open>simpleOSD_get_object_to_dc\<close> at once. The function is cut into the steps
  between which another thread may run: the lock, each system call, the unlock. A thread is a
  program counter with the local variables; the interleaving of the threads, and of anything else
  the process does to the files, is a step relation.
\<close>

section \<open>One thread, step by step\<close>

datatype fetch_pc =
    Entry
  | Locked string              \<comment> \<open>holds the mutex; the object's path\<close>
  | Absent string              \<comment> \<open>\<open>stat\<close> did not find the object\<close>
  | Opened string int          \<comment> \<open>\<open>open\<close> has returned this descriptor\<close>
  | Leaving string BLK_OBJ_FETCH_RET   \<comment> \<open>at the label \<open>unlock\<close>\<close>
  | Finished BLK_OBJ_FETCH_RET

text \<open>\<open>None\<close>: the thread cannot move, because it waits for the mutex or has returned.\<close>

fun fetch_step ::
    "blk_frontend_parameters \<Rightarrow> blk_obj_fetch_arg \<Rightarrow> fetch_pc \<Rightarrow> os \<Rightarrow> (fetch_pc \<times> os) option" where
  "fetch_step g arg Entry os =
     (if fa_oid_str arg \<noteq> None then Some (Finished BLK_OBJ_FETCH_SUCCESS, os)
      else case osd_object_to_dc_path g (Some (fa_volume_name arg)) (Some (fa_oid arg)) (Some []) of
          (OSD_SUCCESS, Some p) \<Rightarrow>
            map_option (Pair (Locked p)) (pthread_mutex_lock (fetch_lock (fa_object_index arg)) os)
        | _ \<Rightarrow> Some (Finished BLK_OBJ_FETCH_ERROR, os))"
| "fetch_step g arg (Locked p) os =
     (case sys_stat p os of
        (st, os1) \<Rightarrow> Some (if st \<noteq> 0 then Absent p else Leaving p BLK_OBJ_FETCH_SUCCESS, os1))"
| "fetch_step g arg (Absent p) os =
     (case sys_open p create_flags os of (fd, os1) \<Rightarrow> Some (Opened p fd, os1))"
| "fetch_step g arg (Opened p fd) os =
     (case sys_fallocate fd (fa_object_size arg) os of
        (r, os1) \<Rightarrow> Some (Leaving p (if r \<noteq> 0 then BLK_OBJ_FETCH_ERROR
                                      else BLK_OBJ_FETCH_SUCCESS), os1))"
| "fetch_step g arg (Leaving p r) os =
     Some (Finished r, pthread_mutex_unlock (fetch_lock (fa_object_index arg)) os)"
| "fetch_step g arg (Finished r) os = None"

fun_cases fetch_step_EntryE: "fetch_step g arg Entry os = Some (pc', os')"

text \<open>A thread that runs alone; \<open>n\<close> bounds the number of steps.\<close>

fun fetch_run ::
    "nat \<Rightarrow> blk_frontend_parameters \<Rightarrow> blk_obj_fetch_arg \<Rightarrow> fetch_pc \<Rightarrow> os \<Rightarrow> (fetch_pc \<times> os) option"
  where
  "fetch_run 0 g arg pc os = Some (pc, os)"
| "fetch_run (Suc n) g arg pc os =
     (case pc of Finished r \<Rightarrow> Some (pc, os)
      | _ \<Rightarrow> Option.bind (fetch_step g arg pc os) (\<lambda>(pc', os'). fetch_run n g arg pc' os'))"

lemma fetch_run_Finished [simp]: "fetch_run n g arg (Finished r) os = Some (Finished r, os)"
  by (cases n) simp_all

section \<open>Many threads\<close>

text \<open>
  What the rest of the process does meanwhile: it takes no fetch mutex, creates no file and
  shortens none, and leaves alone the descriptors the threads have just opened.
\<close>

definition rely :: "(nat \<Rightarrow> fetch_pc) \<Rightarrow> os \<Rightarrow> os \<Rightarrow> bool" where
  "rely pcs os os' \<longleftrightarrow> os_mutex os' = os_mutex os
     \<and> (\<forall>p. os_files os p = None \<longrightarrow> os_files os' p = None)
     \<and> (\<forall>p b. os_files os p = Some b \<longrightarrow> (\<exists>b'. os_files os' p = Some b' \<and> length b \<le> length b'))
     \<and> (\<forall>t p fd. pcs t = Opened p fd \<longrightarrow> fd_file os' fd = fd_file os fd)
     \<and> set (os_env os') \<subseteq> set (os_env os)"

inductive race_step ::
    "blk_frontend_parameters \<Rightarrow> (nat \<Rightarrow> blk_obj_fetch_arg) \<Rightarrow>
     (nat \<Rightarrow> fetch_pc) \<times> os \<Rightarrow> (nat \<Rightarrow> fetch_pc) \<times> os \<Rightarrow> bool" for g a where
  thread: "fetch_step g (a t) (pcs t) os = Some (pc', os') \<Longrightarrow>
    race_step g a (pcs, os) (pcs(t := pc'), os')"
| other: "rely pcs os os' \<Longrightarrow> race_step g a (pcs, os) (pcs, os')"

section \<open>Mutual exclusion\<close>

fun pc_path :: "fetch_pc \<Rightarrow> string option" where
  "pc_path (Locked p) = Some p"
| "pc_path (Absent p) = Some p"
| "pc_path (Opened p fd) = Some p"
| "pc_path (Leaving p r) = Some p"
| "pc_path _ = None"

abbreviation critical :: "fetch_pc \<Rightarrow> bool" where
  "critical pc \<equiv> pc_path pc \<noteq> None"

definition arg_path :: "blk_frontend_parameters \<Rightarrow> blk_obj_fetch_arg \<Rightarrow> string \<Rightarrow> bool" where
  "arg_path g arg p \<longleftrightarrow> osd_object_to_dc_path g (Some (fa_volume_name arg)) (Some (fa_oid arg))
     (Some []) = (OSD_SUCCESS, Some p)"

abbreviation lock_of :: "blk_obj_fetch_arg \<Rightarrow> nat" where
  "lock_of arg \<equiv> fetch_lock (fa_object_index arg)"

lemma sys_mutex:
  "os_mutex (snd (sys_stat p os)) = os_mutex os"
  "os_mutex (snd (sys_open p create_flags os)) = os_mutex os"
  "os_mutex (snd (sys_fallocate fd sz os)) = os_mutex os"
  by (simp_all add: sys_stat_eq sys_open_create sys_fallocate_def next_choice_eq
      split: option.split)

lemma fetch_step_inside:
  assumes "fetch_step g arg pc os = Some (pc', os')" and "pc_path pc = Some p"
    and "\<And>r. pc \<noteq> Leaving p r"
  shows "pc_path pc' = Some p" "os_mutex os' = os_mutex os"
proof -
  have "pc_path pc' = Some p \<and> os_mutex os' = os_mutex os"
    using assms by (cases pc) (auto simp: case_prod_beta sys_mutex)
  then show "pc_path pc' = Some p" "os_mutex os' = os_mutex os" by simp_all
qed

text \<open>The four ways a thread moves.\<close>

lemma fetch_step_cases:
  assumes "fetch_step g arg pc os = Some (pc', os')"
  obtains (finish) r where "pc = Entry" "pc' = Finished r" "os' = os"
      "r = BLK_OBJ_FETCH_SUCCESS \<Longrightarrow> fa_oid_str arg \<noteq> None"
  | (lock) p where "pc = Entry" "pc' = Locked p" "arg_path g arg p" "\<not> os_mutex os (lock_of arg)"
      "os' = os\<lparr>os_mutex := (os_mutex os)(lock_of arg := True)\<rparr>"
  | (inside) p where "pc_path pc = Some p" "pc_path pc' = Some p" "os_mutex os' = os_mutex os"
  | (leave) p r where "pc = Leaving p r" "pc' = Finished r"
      "os' = os\<lparr>os_mutex := (os_mutex os)(lock_of arg := False)\<rparr>"
proof (cases "pc_path pc")
  case None
  show ?thesis
  proof (cases "\<exists>p. pc' = Locked p")
    case True
    then show ?thesis
      using assms None lock
      by (cases pc) (auto simp: pthread_mutex_lock_def arg_path_def
          split: if_splits prod.splits option.splits OSD_RETURN.splits)
  next
    case False
    then show ?thesis
      using assms None finish
      by (cases pc) (auto split: if_splits prod.splits option.splits OSD_RETURN.splits)
  qed
next
  case (Some p)
  show ?thesis
  proof (cases "\<exists>r. pc = Leaving p r")
    case True
    then show ?thesis using assms leave by (auto simp: pthread_mutex_unlock_def)
  next
    case False
    then show ?thesis using fetch_step_inside [OF assms Some] inside Some by blast
  qed
qed

text \<open>A mutex is held exactly when a thread that uses it is between lock and unlock.\<close>

definition lock_inv :: "(nat \<Rightarrow> blk_obj_fetch_arg) \<Rightarrow> (nat \<Rightarrow> fetch_pc) \<Rightarrow> os \<Rightarrow> bool" where
  "lock_inv a pcs os \<longleftrightarrow>
     (\<forall>k. os_mutex os k \<longleftrightarrow> (\<exists>t. critical (pcs t) \<and> lock_of (a t) = k))
     \<and> (\<forall>t u. critical (pcs t) \<and> critical (pcs u) \<and> lock_of (a t) = lock_of (a u) \<longrightarrow> t = u)"

lemma lock_inv_step:
  assumes "race_step g a (pcs, os) (pcs', os')" and inv: "lock_inv a pcs os"
  shows "lock_inv a pcs' os'"
  using assms(1)
proof cases
  case (thread t pc')
  from thread(2) show ?thesis
  proof (cases rule: fetch_step_cases)
    case (finish r)
    then have "critical (pcs' u) \<longleftrightarrow> critical (pcs u)" for u by (simp add: thread(1))
    then show ?thesis using inv finish unfolding lock_inv_def by simp
  next
    case (lock p)
    then have "critical (pcs' u) \<longleftrightarrow> critical (pcs u) \<or> u = t" for u by (simp add: thread(1))
    moreover have "os_mutex os' k \<longleftrightarrow> os_mutex os k \<or> k = lock_of (a t)" for k by (simp add: lock)
    ultimately show ?thesis using inv lock(4) unfolding lock_inv_def by metis
  next
    case (inside p)
    then have "critical (pcs' u) \<longleftrightarrow> critical (pcs u)" for u by (simp add: thread(1))
    then show ?thesis using inv inside unfolding lock_inv_def by simp
  next
    case (leave p r)
    then have "critical (pcs' u) \<longleftrightarrow> critical (pcs u) \<and> u \<noteq> t" for u by (simp add: thread(1))
    moreover have "os_mutex os' k \<longleftrightarrow> os_mutex os k \<and> k \<noteq> lock_of (a t)" for k by (simp add: leave)
    moreover have "critical (pcs t)" by (simp add: leave)
    ultimately show ?thesis using inv unfolding lock_inv_def by metis
  qed
next
  case other
  then show ?thesis using inv by (simp add: lock_inv_def rely_def)
qed


section \<open>The files\<close>

definition full :: "os \<Rightarrow> blk_obj_fetch_arg \<Rightarrow> string \<Rightarrow> bool" where
  "full os arg p \<longleftrightarrow> (\<exists>b. os_files os p = Some b \<and> unat (fa_object_size arg) \<le> length b)"

definition grows :: "os \<Rightarrow> os \<Rightarrow> bool" where
  "grows os os' \<longleftrightarrow> set (os_env os') \<subseteq> set (os_env os)
     \<and> (\<forall>p b. os_files os p = Some b \<longrightarrow> (\<exists>b'. os_files os' p = Some b' \<and> length b \<le> length b'))"

lemma grows_full: "grows os os' \<Longrightarrow> full os arg p \<Longrightarrow> full os' arg p"
  unfolding grows_def full_def by (meson le_trans)

lemma grows_no_faults: "grows os os' \<Longrightarrow> no_faults os \<Longrightarrow> no_faults os'"
  by (auto simp: grows_def no_faults_def)

lemma full_adv [simp]: "full (adv os) = full os"
  by (simp add: full_def fun_eq_iff)

lemma os_frame_grows: "os_frame os os' \<Longrightarrow> os_files os' = os_files os \<Longrightarrow> grows os os'"
  by (simp add: grows_def os_frame_def)

text \<open>What a thread relies on at each point.\<close>

fun pc_ok :: "blk_frontend_parameters \<Rightarrow> blk_obj_fetch_arg \<Rightarrow> fetch_pc \<Rightarrow> os \<Rightarrow> bool" where
  "pc_ok g arg Entry os \<longleftrightarrow> True"
| "pc_ok g arg (Locked p) os \<longleftrightarrow> arg_path g arg p"
| "pc_ok g arg (Absent p) os \<longleftrightarrow> arg_path g arg p"
| "pc_ok g arg (Opened p fd) os \<longleftrightarrow> arg_path g arg p \<and> (0 \<le> fd \<longrightarrow> os_files os p \<noteq> None
     \<and> fd_file os fd = Some \<lparr>of_path = p, of_flags = create_flags\<rparr>)"
| "pc_ok g arg (Leaving p r) os \<longleftrightarrow> arg_path g arg p \<and> (r = BLK_OBJ_FETCH_SUCCESS \<longrightarrow> full os arg p)"
| "pc_ok g arg (Finished r) os \<longleftrightarrow> (r = BLK_OBJ_FETCH_SUCCESS \<and> fa_oid_str arg = None \<longrightarrow>
     (\<exists>p. arg_path g arg p \<and> full os arg p))"

lemma pc_ok_path: "pc_ok g arg pc os \<Longrightarrow> pc_path pc = Some p \<Longrightarrow> arg_path g arg p"
  by (cases pc) simp_all

lemma pc_ok_grows:
  assumes "pc_ok g arg pc os" and "grows os os'"
    and "\<And>p fd. pc = Opened p fd \<Longrightarrow> 0 \<le> fd \<Longrightarrow> fd_file os' fd = fd_file os fd"
  shows "pc_ok g arg pc os'"
proof (cases pc)
  case (Opened p fd)
  then show ?thesis using assms by (fastforce simp: grows_def)
qed (use assms grows_full in auto)

text \<open>An object file shorter than the object has a thread that is about to allocate it.\<close>

definition short_ok ::
    "blk_frontend_parameters \<Rightarrow> (nat \<Rightarrow> blk_obj_fetch_arg) \<Rightarrow> (nat \<Rightarrow> fetch_pc) \<Rightarrow> os \<Rightarrow> bool" where
  "short_ok g a pcs os \<longleftrightarrow> (\<forall>u p. arg_path g (a u) p \<and> os_files os p \<noteq> None \<and> \<not> full os (a u) p \<longrightarrow>
     (\<exists>t fd. pcs t = Opened p fd \<and> 0 \<le> fd))"

definition file_inv ::
    "blk_frontend_parameters \<Rightarrow> (nat \<Rightarrow> blk_obj_fetch_arg) \<Rightarrow> (nat \<Rightarrow> fetch_pc) \<Rightarrow> os \<Rightarrow> bool" where
  "file_inv g a pcs os \<longleftrightarrow> no_faults os \<and> (\<forall>t. pc_ok g (a t) (pcs t) os) \<and> short_ok g a pcs os"

text \<open>The calls of one process about one object: same path, same mutex and size.\<close>

definition args_ok :: "blk_frontend_parameters \<Rightarrow> (nat \<Rightarrow> blk_obj_fetch_arg) \<Rightarrow> bool" where
  "args_ok g a \<longleftrightarrow> (\<forall>t. 0 < sint (fa_object_size (a t)))
     \<and> (\<forall>t u p. arg_path g (a t) p \<and> arg_path g (a u) p \<longrightarrow>
          lock_of (a t) = lock_of (a u) \<and> fa_object_size (a t) = fa_object_size (a u))"

text \<open>The effect of a thread's own step.\<close>

definition step_effect :: "blk_frontend_parameters \<Rightarrow> blk_obj_fetch_arg \<Rightarrow> fetch_pc \<Rightarrow> os
    \<Rightarrow> fetch_pc \<Rightarrow> os \<Rightarrow> bool" where
  "step_effect g arg pc os pc' os' \<longleftrightarrow> pc_ok g arg pc' os' \<and> grows os os'
     \<and> (\<forall>fd f. fd_file os fd = Some f \<longrightarrow> fd_file os' fd = Some f)
     \<and> (\<forall>p. os_files os p = None \<and> os_files os' p \<noteq> None \<longrightarrow> (\<exists>fd. pc' = Opened p fd \<and> 0 \<le> fd))
     \<and> (\<forall>p fd. pc = Opened p fd \<and> 0 \<le> fd \<longrightarrow> full os' arg p)"

lemma fd_file_free:
  "free_fd os = Some fd \<Longrightarrow> fd_file os k = Some f \<Longrightarrow> fd_file (os1\<lparr>os_fds := (os_fds os)(fd \<mapsto> x)\<rparr>) k = Some f"
  by (auto simp: fd_file_def dest!: free_fd_Some split: if_splits)

lemma absent_step_effect:
  assumes "fetch_step g arg (Absent p) os = Some (pc', os')" and "pc_ok g arg (Absent p) os"
  shows "step_effect g arg (Absent p) os pc' os'"
proof (cases "choice os = Fail \<or> free_fd os = None \<or> os_files os p = None \<and> \<not> os_creatable os p")
  case True
  then have "sys_open p create_flags os = (-1, adv os)" by (auto simp: sys_open_create split: option.split)
  then show ?thesis
    using assms by (auto simp: step_effect_def os_frame_grows fd_file_def)
next
  case False
  then obtain fd where fd: "free_fd os = Some fd" by auto
  define os1 where "os1 = (adv os)\<lparr>os_files := (if os_files os p = None then (os_files os)(p \<mapsto> [])
      else os_files os), os_fds := (os_fds os)(fd \<mapsto> \<lparr>of_path = p, of_flags = create_flags\<rparr>)\<rparr>"
  have "sys_open p create_flags os = (int fd, os1)"
    using False fd by (simp add: sys_open_create os1_def)
  then have pc': "pc' = Opened p (int fd)" and os': "os' = os1" using assms(1) by simp_all
  have "set (os_env (adv os)) \<subseteq> set (os_env os)" using os_frame_adv [of os] by (simp add: os_frame_def)
  then show ?thesis
    using assms(2) fd_file_free [OF fd]
    by (auto simp: step_effect_def pc' os' os1_def grows_def)
qed

lemma opened_step_effect:
  assumes step: "fetch_step g arg (Opened p fd) os = Some (pc', os')"
    and ok: "pc_ok g arg (Opened p fd) os" and "no_faults os" and "0 < sint (fa_object_size arg)"
  shows "step_effect g arg (Opened p fd) os pc' os'"
proof (cases "0 \<le> fd")
  case True
  with ok obtain b where fd: "fd_file os fd = Some \<lparr>of_path = p, of_flags = create_flags\<rparr>"
    and b: "os_files os p = Some b" by auto
  then have os': "pc' = Leaving p BLK_OBJ_FETCH_SUCCESS"
    "os' = (adv os)\<lparr>os_files := (os_files os)(p \<mapsto> b @ zeros (unat (fa_object_size arg) - length b))\<rparr>"
    using step assms(3,4) by (auto simp: sys_fallocate_def next_choice_eq)
  have "set (os_env (adv os)) \<subseteq> set (os_env os)" using os_frame_adv [of os] by (simp add: os_frame_def)
  then show ?thesis
    using ok b by (auto simp: step_effect_def os' grows_def full_def fd_file_def)
next
  case False
  then have "pc' = Leaving p BLK_OBJ_FETCH_ERROR" "os' = adv os"
    using step by (auto simp: sys_fallocate_def next_choice_eq fd_file_def)
  then show ?thesis using ok False by (auto simp: step_effect_def os_frame_grows)
qed

lemma step_effect:
  assumes step: "fetch_step g arg pc os = Some (pc', os')" and ok: "pc_ok g arg pc os"
    and "no_faults os" and "0 < sint (fa_object_size arg)"
    and whole: "\<And>p. pc = Locked p \<Longrightarrow> os_files os p \<noteq> None \<Longrightarrow> full os arg p"
  shows "step_effect g arg pc os pc' os'"
proof (cases pc)
  case Entry
  with step show ?thesis
    by (auto simp: step_effect_def arg_path_def pthread_mutex_lock_def grows_def fd_file_def
        split: if_splits prod.splits option.splits OSD_RETURN.splits)
next
  case (Locked p)
  with step ok whole show ?thesis
    by (auto simp: step_effect_def sys_stat_eq os_frame_grows)
next
  case (Leaving p r)
  with step ok show ?thesis
    by (auto simp: step_effect_def pthread_mutex_unlock_def grows_def fd_file_def full_def; blast)
qed (use step ok absent_step_effect opened_step_effect assms(3,4) in simp_all)


lemma short_ok_thread:
  assumes eff: "step_effect g (a t) (pcs t) os pc' os'" and short: "short_ok g a pcs os"
    and ok: "pc_ok g (a t) (pcs t) os" and args: "args_ok g a"
  shows "short_ok g a (pcs(t := pc')) os'"
  unfolding short_ok_def
proof (intro allI impI)
  fix u p
  assume h: "arg_path g (a u) p \<and> os_files os' p \<noteq> None \<and> \<not> full os' (a u) p"
  show "\<exists>v fd. (pcs(t := pc')) v = Opened p fd \<and> 0 \<le> fd"
  proof (cases "os_files os p = None")
    case True
    then show ?thesis using eff h unfolding step_effect_def by (metis fun_upd_same)
  next
    case False
    have "grows os os'" using eff by (simp add: step_effect_def)
    with h False short obtain v fd where v: "pcs v = Opened p fd" "0 \<le> fd"
      unfolding short_ok_def using grows_full by blast
    have "v \<noteq> t"
    proof
      assume "v = t"
      with eff v have "full os' (a t) p" by (auto simp: step_effect_def)
      moreover have "arg_path g (a t) p" using ok v \<open>v = t\<close> by simp
      ultimately show False using h args unfolding args_ok_def full_def by metis
    qed
    with v show ?thesis by auto
  qed
qed

lemma file_inv_thread:
  assumes step: "fetch_step g (a t) (pcs t) os = Some (pc', os')"
    and inv: "file_inv g a pcs os" and lock: "lock_inv a pcs os" and args: "args_ok g a"
  shows "file_inv g a (pcs(t := pc')) os'"
proof -
  have nf: "no_faults os" and ok: "\<And>u. pc_ok g (a u) (pcs u) os" and short: "short_ok g a pcs os"
    using inv by (simp_all add: file_inv_def)
  have same: "u = t" if "arg_path g (a t) p" "pcs u = Opened p fd" "critical (pcs t)" for u p fd
  proof -
    have "arg_path g (a u) p" using ok [of u] that(2) by simp
    then have "lock_of (a u) = lock_of (a t)" using args that(1) by (auto simp: args_ok_def)
    then show ?thesis using lock that unfolding lock_inv_def by (metis option.distinct(1) pc_path.simps(3))
  qed
  have whole: "full os (a t) p" if lk: "pcs t = Locked p" and ex: "os_files os p \<noteq> None" for p
  proof (rule ccontr)
    assume "\<not> full os (a t) p"
    moreover have p: "arg_path g (a t) p" using ok [of t] lk by simp
    ultimately obtain u fd where "pcs u = Opened p fd"
      using short ex unfolding short_ok_def by blast
    with same [OF p this] lk show False by simp
  qed
  have eff: "step_effect g (a t) (pcs t) os pc' os'"
    using step_effect [OF step ok nf _ whole] args by (auto simp: args_ok_def)
  then have gr: "grows os os'" and fds: "\<And>fd f. fd_file os fd = Some f \<Longrightarrow> fd_file os' fd = Some f"
    by (simp_all add: step_effect_def)
  have "pc_ok g (a u) ((pcs(t := pc')) u) os'" for u
  proof (cases "u = t")
    case False
    have "fd_file os' fd = fd_file os fd" if "pcs u = Opened p fd" "0 \<le> fd" for p fd
      using ok [of u] that fds by simp
    with False show ?thesis using pc_ok_grows [OF ok [of u] gr] by simp
  qed (use eff in \<open>simp add: step_effect_def\<close>)
  moreover have "short_ok g a (pcs(t := pc')) os'"
    by (rule short_ok_thread [OF eff short ok args])
  ultimately show ?thesis using grows_no_faults [OF gr nf] by (simp add: file_inv_def)
qed

lemma file_inv_other:
  assumes "rely pcs os os'" and inv: "file_inv g a pcs os"
  shows "file_inv g a pcs os'"
proof -
  have gr: "grows os os'" using assms(1) by (auto simp: rely_def grows_def)
  have "pc_ok g (a u) (pcs u) os'" for u
    using pc_ok_grows [OF _ gr] inv assms(1) by (simp add: file_inv_def rely_def)
  moreover have "short_ok g a pcs os'"
    using inv assms(1) grows_full [OF gr] unfolding short_ok_def file_inv_def rely_def by metis
  ultimately show ?thesis using grows_no_faults [OF gr] inv by (simp add: file_inv_def)
qed

section \<open>Reachable states\<close>

text \<open>All threads at the entry, no mutex held.\<close>

lemma lock_inv_start: "(\<And>k. \<not> os_mutex os k) \<Longrightarrow> lock_inv a (\<lambda>_. Entry) os"
  by (simp add: lock_inv_def)

lemma race_reach_lock:
  assumes "(race_step g a)\<^sup>*\<^sup>* (\<lambda>_. Entry, os0) (pcs, os)" and "\<And>k. \<not> os_mutex os0 k"
  shows "lock_inv a pcs os"
  using assms(1)
proof (induction "(pcs, os)" arbitrary: pcs os rule: rtranclp_induct)
  case (step y)
  then show ?case using lock_inv_step by (cases y) blast
qed (simp add: lock_inv_start assms(2))

lemma race_reach_files:
  assumes "(race_step g a)\<^sup>*\<^sup>* (\<lambda>_. Entry, os0) (pcs, os)" and "\<And>k. \<not> os_mutex os0 k"
    and "args_ok g a" and start: "file_inv g a (\<lambda>_. Entry) os0"
  shows "file_inv g a pcs os"
  using assms(1)
proof (induction "(pcs, os)" arbitrary: pcs os rule: rtranclp_induct)
  case (step y)
  obtain pcs1 os1 where y: "y = (pcs1, os1)" by (cases y)
  then have inv: "file_inv g a pcs1 os1" and "lock_inv a pcs1 os1"
    using step race_reach_lock [OF _ assms(2)] by blast+
  from step.hyps(2) show ?case
    unfolding y using file_inv_thread [OF _ inv \<open>lock_inv a pcs1 os1\<close> assms(3)] file_inv_other inv
    by cases auto
qed (rule start)


section \<open>Runs\<close>

lemma fetch_run_eq:
  "fetch_run 5 g arg Entry os = map_option (\<lambda>(r, os'). (Finished r, os'))
     (simpleOSD_get_object_to_dc g (Some arg) os)"
proof (cases "fa_oid_str arg = None")
  case True
  obtain r s where p: "osd_object_to_dc_path g (Some (fa_volume_name arg)) (Some (fa_oid arg))
      (Some []) = (r, s)" by (cases "osd_object_to_dc_path g (Some (fa_volume_name arg))
      (Some (fa_oid arg)) (Some [])")
  then show ?thesis
    using True
    by (cases r; cases s)
       (simp_all add: simpleOSD_get_object_to_dc_def pthread_mutex_lock_def eval_nat_numeral
         case_prod_beta Let_def)
qed (simp add: simpleOSD_get_object_to_dc_def eval_nat_numeral)

text \<open>Running one thread alone is a run of the machine.\<close>

lemma fetch_run_race:
  "fetch_run n g (a t) (pcs t) os = Some (pc', os') \<Longrightarrow>
     (race_step g a)\<^sup>*\<^sup>* (pcs, os) (pcs(t := pc'), os')"
proof (induction n arbitrary: pcs os)
  case (Suc n)
  show ?case
  proof (cases "\<exists>r. pcs t = Finished r")
    case True
    with Suc.prems have "pcs(t := pc') = pcs" "os' = os" by (auto simp: fun_eq_iff)
    then show ?thesis by simp
  next
    case False
    with Suc.prems obtain pc1 os1 where step: "fetch_step g (a t) (pcs t) os = Some (pc1, os1)"
      and rest: "fetch_run n g (a t) pc1 os1 = Some (pc', os')"
      by (auto simp: bind_eq_Some_conv split: fetch_pc.splits)
    have "(race_step g a)\<^sup>*\<^sup>* (pcs(t := pc1), os1) ((pcs(t := pc1))(t := pc'), os')"
      by (rule Suc.IH) (simp add: rest)
    then have "(race_step g a)\<^sup>*\<^sup>* (pcs(t := pc1), os1) (pcs(t := pc'), os')"
      by (simp only: fun_upd_upd)
    moreover have "race_step g a (pcs, os) (pcs(t := pc1), os1)"
      by (rule race_step.thread) (rule step)
    ultimately show ?thesis by (rule converse_rtranclp_into_rtranclp [rotated])
  qed
qed auto

text \<open>Two threads that want the same absent object; the first has run, the second not yet.\<close>

abbreviation ex_args :: "nat \<Rightarrow> blk_obj_fetch_arg" where
  "ex_args \<equiv> \<lambda>_. ex_fetch_arg"

lemma ex_args_ok: "args_ok ex_params ex_args"
  by (simp add: args_ok_def ex_fetch_arg_def)

lemma ex_race:
  "\<exists>os. (race_step ex_params ex_args)\<^sup>*\<^sup>* (\<lambda>_. Entry, ex_os)
     ((\<lambda>_. Entry)(0 := Finished BLK_OBJ_FETCH_SUCCESS), os)"
proof -
  obtain os where "simpleOSD_get_object_to_dc ex_params (Some ex_fetch_arg) ex_os
      = Some (BLK_OBJ_FETCH_SUCCESS, os)" using ex_fetch_succeeds by blast
  then have "fetch_run 5 ex_params (ex_args 0) Entry ex_os = Some (Finished BLK_OBJ_FETCH_SUCCESS, os)"
    by (simp add: fetch_run_eq)
  then show ?thesis using fetch_run_race [of 5 ex_params ex_args 0 "\<lambda>_. Entry"] by blast
qed

text \<open>A thread that waits for a mutex waits for one that can move.\<close>

lemma fetch_some_moves:
  assumes inv: "lock_inv a pcs os" and nf: "\<forall>r. pcs t \<noteq> Finished r"
  shows "\<exists>u. (u = t \<or> critical (pcs u)) \<and> fetch_step g (a u) (pcs u) os \<noteq> None"
proof -
  have moves: "fetch_step g (a u) (pcs u) os \<noteq> None" if "critical (pcs u)" for u
    using that by (cases "pcs u") (simp_all add: case_prod_beta)
  consider (waits) "pcs t = Entry" "os_mutex os (lock_of (a t))"
    | (free) "pcs t = Entry" "\<not> os_mutex os (lock_of (a t))" | (inside) "pcs t \<noteq> Entry" by blast
  then show ?thesis
  proof cases
    case waits
    then show ?thesis using inv moves unfolding lock_inv_def by blast
  next
    case free
    then have "fetch_step g (a t) (pcs t) os \<noteq> None"
      by (auto simp: pthread_mutex_lock_def split: prod.splits option.splits OSD_RETURN.splits)
    then show ?thesis by blast
  next
    case inside
    with nf have "critical (pcs t)" by (cases "pcs t") simp_all
    then show ?thesis using moves by blast
  qed
qed

section \<open>Properties\<close>

text \<open>
  The steps are the function: a thread that runs alone from the entry goes through exactly the
  states of \<open>simpleOSD_get_object_to_dc\<close> and ends with its result and its final state; it is stuck
  at the mutex exactly when the call does not return.
\<close>

theorem fetch_run_is_fetch:
  "fetch_run 5 g arg Entry os = map_option (\<lambda>(r, os'). (Finished r, os'))
     (simpleOSD_get_object_to_dc g (Some arg) os)"
  by (rule fetch_run_eq)

text \<open>
  C16: Mutual exclusion and no deadlock. In every state the threads can reach, whatever the
  environment fails and whatever the rest of the process does, a mutex is held exactly when one of
  its threads is between lock and unlock, no two threads of one mutex are there at once, and as
  long as some thread has not returned, some thread can move.
\<close>

theorem fetch_race_exclusion:
  assumes "(race_step g a)\<^sup>*\<^sup>* (\<lambda>_. Entry, os0) (pcs, os)" and "\<And>k. \<not> os_mutex os0 k"
  shows "(\<forall>k. os_mutex os k \<longleftrightarrow> (\<exists>t. critical (pcs t) \<and> lock_of (a t) = k))
      \<and> (\<forall>t u. critical (pcs t) \<and> critical (pcs u) \<and> lock_of (a t) = lock_of (a u) \<longrightarrow> t = u)
      \<and> ((\<exists>t. \<forall>r. pcs t \<noteq> Finished r) \<longrightarrow> (\<exists>u. fetch_step g (a u) (pcs u) os \<noteq> None))"
proof -
  have inv: "lock_inv a pcs os" by (rule race_reach_lock [OF assms])
  then show ?thesis using fetch_some_moves [OF inv] unfolding lock_inv_def by blast
qed

theorem fetch_race_exclusion_witness:
  "\<exists>os. os_mutex os = (\<lambda>_. False) \<and> fetch_step ex_params ex_fetch_arg Entry os \<noteq> None"
proof -
  let ?pcs = "(\<lambda>_. Entry)(0 :: nat := Finished BLK_OBJ_FETCH_SUCCESS)"
  obtain os where "(race_step ex_params ex_args)\<^sup>*\<^sup>* (\<lambda>_. Entry, ex_os) (?pcs, os)"
    using ex_race by blast
  note race = fetch_race_exclusion [OF this ex_os_simps(3)]
  note mutex = race [THEN conjunct1] and move = race [THEN conjunct2, THEN conjunct2]
  have "\<exists>t. \<forall>r. ?pcs t \<noteq> Finished r" by (intro exI [of _ 1]) simp
  with move obtain u where "fetch_step ex_params ex_fetch_arg (?pcs u) os \<noteq> None" by blast
  moreover from this have "?pcs u = Entry" by (auto split: if_splits)
  ultimately show ?thesis using mutex by (auto simp: fun_eq_iff split: if_splits)
qed

text \<open>
  However the threads interleave, when nothing fails a fetch that has returned success leaves
  the whole object allocated, and no object is ever seen short by a thread inside the fetch: a file
  shorter than the object belongs to the one thread that has created it and not yet allocated it.
\<close>

theorem fetch_race_allocates:
  assumes "(race_step g a)\<^sup>*\<^sup>* (\<lambda>_. Entry, os0) (pcs, os)" and "\<And>k. \<not> os_mutex os0 k"
    and "args_ok g a" and "no_faults os0"
    and "\<And>t p. arg_path g (a t) p \<Longrightarrow> os_files os0 p \<noteq> None \<Longrightarrow> full os0 (a t) p"
  shows "(\<forall>t. pcs t = Finished BLK_OBJ_FETCH_SUCCESS \<and> fa_oid_str (a t) = None \<longrightarrow>
           (\<exists>p. arg_path g (a t) p \<and> full os (a t) p))
      \<and> (\<forall>t p. arg_path g (a t) p \<and> os_files os p \<noteq> None \<and> \<not> full os (a t) p \<longrightarrow>
           (\<exists>u fd. pcs u = Opened p fd))"
proof -
  have "file_inv g a (\<lambda>_. Entry) os0"
    using assms(4,5) unfolding file_inv_def short_ok_def by (metis pc_ok.simps(1))
  from race_reach_files [OF assms(1-3) this] show ?thesis
    unfolding file_inv_def short_ok_def by (metis pc_ok.simps(6))
qed


theorem fetch_race_allocates_witness:
  "\<exists>os p. arg_path ex_params ex_fetch_arg p \<and> full os ex_fetch_arg p"
proof -
  obtain os where "(race_step ex_params ex_args)\<^sup>*\<^sup>* (\<lambda>_. Entry, ex_os)
      ((\<lambda>_. Entry)(0 := Finished BLK_OBJ_FETCH_SUCCESS), os)"
    using ex_race by blast
  from fetch_race_allocates [OF this _ ex_args_ok] show ?thesis
    by (force simp: ex_os_simps ex_fetch_arg_def)
qed

end
