(* ===== verification/Volume_Race.thy ===== *)
theory Volume_Race
  imports Volume Fetch_Race
begin

text \<open>
  The object layer and the fetch together: several threads open objects of one volume at once, so
  that several of them may find the same object missing and fetch it.
\<close>

text \<open>The argument block the object layer fills in for an object of the volume.\<close>

definition object_fetch_arg :: "osd_collection \<Rightarrow> i32 \<Rightarrow> IP \<Rightarrow> blk_obj_fetch_arg" where
  "object_fetch_arg col index ip =
     \<lparr>fa_volume_name = take MAXNAMESIZE (oc_name col),
      fa_oid = oid_of_index (oc_start_object col) index, fa_oid_str = None,
      fa_object_index = scast index, fa_object_size = oc_object_size col, fa_dp_ip = ip\<rparr>"

lemma recache_fetch_arg:
  assumes "oa_oid obj = oid_of_index (oc_start_object col) index" and "oa_size obj = oc_object_size col"
    and "get_dpnode_ip_from_index (Some (oc_dp_data col)) index (Some zero_ip)
      = (MDS_HELPER_SUCCESS, Some ip)"
  shows "recache_fetch g col obj index os =
     Option.bind (simpleOSD_get_object_to_dc g (Some (object_fetch_arg col index ip)) os)
       (\<lambda>(r, os1). Some (if r = BLK_OBJ_FETCH_SUCCESS then OSD_SUCCESS else OSD_ERROR, os1))"
  using assms by (simp add: recache_fetch_def object_fetch_arg_def)

lemma arg_path_object:
  assumes "geometry_ok g col"
  shows "arg_path g (object_fetch_arg col (of_nat i) ip) p \<longleftrightarrow> p = obj_file g col i"
proof -
  have "length (oid_of_index (oc_start_object col) (of_nat i)) = MAXOIDLEN"
    using assms by (simp add: geometry_ok_def)
  then show ?thesis
    using assms osd_object_to_dc_path_fits
    by (auto simp: arg_path_def object_fetch_arg_def geometry_ok_def obj_file_def)
qed

lemma volume_args_ok:
  assumes geo: "geometry_ok g col" and idx: "\<And>t. idx t < onb col"
  shows "args_ok g (\<lambda>t. object_fetch_arg col (of_nat (idx t)) (ip t))"
proof -
  have "sint (oc_object_size col) = int (osz col)" "0 < osz col"
    using geo sint_unat_small64 [of "oc_object_size col"] by (simp_all only: geometry_ok_def)
  then have "0 < sint (oc_object_size col)" by linarith
  moreover have "idx t < 4294967296" for t
    using idx [of t] geo by (simp add: geometry_ok_def)
  then have "idx t = idx u" if "obj_file g col (idx t) = obj_file g col (idx u)" for t u
    using that obj_file_inject [OF geo] by blast
  ultimately show ?thesis
    using arg_path_object [OF geo] unfolding args_ok_def
    by (auto simp: object_fetch_arg_def) metis+
qed

lemma ex_volume_race:
  "\<exists>os. (race_step ex_params (\<lambda>t. object_fetch_arg ex_collection (of_nat ((\<lambda>_. 1) t)) zero_ip))\<^sup>*\<^sup>*
     (\<lambda>_. Entry, ex_os) ((\<lambda>_. Entry)(0 := Finished BLK_OBJ_FETCH_SUCCESS), os)"
proof -
  let ?a = "object_fetch_arg ex_collection (of_nat 1) zero_ip"
  have "path_fits ex_params ''vol''" "length ''vol'' < MAXNAMESIZE"
    using ex_collection_geometry by (simp_all add: geometry_ok_def ex_collection_def)
  then have "fetch_ready ex_params ?a ex_os" "0 < sint (fa_object_size ?a)"
    by (simp_all add: fetch_ready_def object_fetch_arg_def ex_collection_def ex_os_simps ex_start_def
        MAXOIDLEN_def)
  then obtain os where "simpleOSD_get_object_to_dc ex_params (Some ?a) ex_os
      = Some (BLK_OBJ_FETCH_SUCCESS, os)"
    using fetch_creates_zeroed_object [of ex_params ?a ex_os] by (auto simp: ex_os_simps)
  then have "fetch_run 5 ex_params ((\<lambda>_. ?a) 0) Entry ex_os = Some (Finished BLK_OBJ_FETCH_SUCCESS, os)"
    by (simp add: fetch_run_eq)
  then show ?thesis using fetch_run_race [of 5 ex_params "\<lambda>_. ?a" 0 "\<lambda>_. Entry"] by auto
qed

section \<open>Properties\<close>



end
