(* ===== verification/Osd_Cached.thy ===== *)
theory Osd_Cached
  imports Volume
begin

text \<open>
  The object layer with \<open>RECACHE_FD_ENABLED\<close>, the configuration parameter of simpleOSD_bs.h that is
  \<open>FALSE\<close> in the default build: the descriptors of a volume's objects stay open in its
  \<open>p_object_attr_cache\<close>, slot \<open>index % NBMAXOBJECTS\<close> for object \<open>index\<close>, and are replaced when another
  object comes to the same slot or when the file is gone. The collection is part of the state here.
\<close>

section \<open>The loops with the cache\<close>

definition current_index :: "i32 \<Rightarrow> nat" where
  "current_index traverse_index = nat (sint traverse_index) mod NBMAXOBJECTS"

text \<open>The attributes of an object in its slot, recached if they are another object's or the path
  they name is gone. \<open>stat\<close> is only called when the index agrees.\<close>

definition cached_object ::
    "blk_frontend_parameters \<Rightarrow> osd_collection \<Rightarrow> i32 \<Rightarrow> os \<Rightarrow> (OSD_RETURN \<times> osd_collection \<times> os) option" where
  "cached_object g col traverse_index os =
     (let n = current_index traverse_index; p_current_obj = oc_object_attr_cache col n in
      case osd_object_to_dc_path g (Some (oc_name col)) (Some (oa_oid p_current_obj)) (Some []) of
        (OSD_SUCCESS, Some object_path) \<Rightarrow>
          (case (if traverse_index \<noteq> oa_object_index p_current_obj then (-1, os)
                 else sys_stat object_path os) of
             (st, os1) \<Rightarrow>
               if st \<noteq> 0
               then map_option (\<lambda>(r, obj, os2). (r, cache_entry col n obj, os2))
                      (osd_recache_object g col p_current_obj traverse_index os1)
               else Some (OSD_SUCCESS, col, os1))
      | _ \<Rightarrow> Some (OSD_ERROR, col, os))"

text \<open>One round of a loop. Only a failed transfer resets the slot.\<close>

definition cached_read_piece ::
    "obj_op_func \<Rightarrow> blk_frontend_parameters \<Rightarrow> bytes \<Rightarrow> nat \<Rightarrow> u64 \<Rightarrow> i32 \<Rightarrow> u64
       \<Rightarrow> osd_collection \<times> os \<Rightarrow> (OSD_RETURN \<times> bytes \<times> osd_collection \<times> os) option" where
  "cached_read_piece ops g mem bp len idx off s =
     (case s of (col, os) \<Rightarrow>
        Option.bind (cached_object g col idx os)
          (\<lambda>(r, col1, os1).
             if r \<noteq> OSD_SUCCESS then Some (OSD_ERROR, mem, col1, os1)
             else Option.bind
               (obj_pfn_offset_read ops (oc_object_attr_cache col1 (current_index idx)) mem bp len off os1)
               (\<lambda>(r2, obj2, mem2, os2).
                  if r2 \<noteq> OBJ_SUCCESS
                  then (case osd_reset_cache_object obj2 os2 of (_, obj3, os3) \<Rightarrow>
                         Some (OSD_ERROR, mem2, cache_entry col1 (current_index idx) obj3, os3))
                  else Some (OSD_SUCCESS, mem2, cache_entry col1 (current_index idx) obj2, os2))))"

definition cached_write_piece ::
    "obj_op_func \<Rightarrow> blk_frontend_parameters \<Rightarrow> bytes \<Rightarrow> nat \<Rightarrow> u64 \<Rightarrow> i32 \<Rightarrow> u64
       \<Rightarrow> osd_collection \<times> os \<Rightarrow> (OSD_RETURN \<times> osd_collection \<times> os) option" where
  "cached_write_piece ops g mem bp len idx off s =
     (case s of (col, os) \<Rightarrow>
        Option.bind (cached_object g col idx os)
          (\<lambda>(r, col1, os1).
             if r \<noteq> OSD_SUCCESS then Some (OSD_ERROR, col1, os1)
             else Option.bind
               (obj_pfn_offset_write ops (oc_object_attr_cache col1 (current_index idx)) mem bp len off os1)
               (\<lambda>(r2, obj2, os2).
                  if r2 \<noteq> OBJ_SUCCESS
                  then (case osd_reset_cache_object obj2 os2 of (_, obj3, os3) \<Rightarrow>
                         Some (OSD_ERROR, cache_entry col1 (current_index idx) obj3, os3))
                  else Some (OSD_SUCCESS, cache_entry col1 (current_index idx) obj2, os2))))"

partial_function (option) cached_read_loop ::
    "obj_op_func \<Rightarrow> blk_frontend_parameters \<Rightarrow> bytes \<Rightarrow> u64 \<Rightarrow> u64 \<Rightarrow> i32 \<Rightarrow> u64
       \<Rightarrow> osd_collection \<times> os \<Rightarrow> (OSD_RETURN \<times> bytes \<times> osd_collection \<times> os) option" where
  "cached_read_loop ops g mem buf_len buf_read traverse_index osd_offset s =
     (if buf_read = buf_len then Some (OSD_SUCCESS, mem, s)
      else let n = piece_len (oc_object_size (fst s)) buf_len buf_read osd_offset in
        Option.bind (cached_read_piece ops g mem (unat buf_read) n traverse_index osd_offset s)
          (\<lambda>(r, mem2, s2). if r \<noteq> OSD_SUCCESS then Some (OSD_ERROR, mem2, s2)
             else cached_read_loop ops g mem2 buf_len (buf_read + n) (traverse_index + 1) 0 s2))"

partial_function (option) cached_write_loop ::
    "obj_op_func \<Rightarrow> blk_frontend_parameters \<Rightarrow> bytes \<Rightarrow> u64 \<Rightarrow> u64 \<Rightarrow> i32 \<Rightarrow> u64
       \<Rightarrow> osd_collection \<times> os \<Rightarrow> (OSD_RETURN \<times> osd_collection \<times> os) option" where
  "cached_write_loop ops g mem buf_len buf_written traverse_index osd_offset s =
     (if buf_written = buf_len then Some (OSD_SUCCESS, s)
      else let n = piece_len (oc_object_size (fst s)) buf_len buf_written osd_offset in
        Option.bind (cached_write_piece ops g mem (unat buf_written) n traverse_index osd_offset s)
          (\<lambda>(r, s2). if r \<noteq> OSD_SUCCESS then Some (OSD_ERROR, s2)
             else cached_write_loop ops g mem buf_len (buf_written + n) (traverse_index + 1) 0 s2))"

definition osd_op_read_cached ::
    "obj_op_func \<Rightarrow> blk_frontend_parameters \<Rightarrow> osd_collection \<Rightarrow> bytes \<Rightarrow> u64 \<Rightarrow> u64 \<Rightarrow> os
       \<Rightarrow> (OSD_RETURN \<times> bytes \<times> osd_collection \<times> os) option" where
  "osd_op_read_cached ops g col buf buf_len offset os =
     (case osd_offset_to_object col offset 0 0 of
        (OSD_ERROR, _, _) \<Rightarrow> Some (OSD_ERROR, buf, col, os)
      | (OSD_SUCCESS, start_object_index, start_local_offset) \<Rightarrow>
          if oc_object_size col \<noteq> 0 then
            if start_local_offset + buf_len > oc_object_size col
               \<and> fst (osd_offset_to_object col (offset + buf_len) 0 0) \<noteq> OSD_SUCCESS
            then Some (OSD_ERROR, buf, col, os)
            else cached_read_loop ops g buf buf_len 0 start_object_index start_local_offset (col, os)
          else Some (OSD_SUCCESS, buf, col, os))"

definition osd_op_write_cached ::
    "obj_op_func \<Rightarrow> blk_frontend_parameters \<Rightarrow> osd_collection \<Rightarrow> bytes \<Rightarrow> u64 \<Rightarrow> u64 \<Rightarrow> os
       \<Rightarrow> (OSD_RETURN \<times> osd_collection \<times> os) option" where
  "osd_op_write_cached ops g col buf buf_len offset os =
     (case osd_offset_to_object col offset 0 0 of
        (OSD_ERROR, _, _) \<Rightarrow> Some (OSD_ERROR, col, os)
      | (OSD_SUCCESS, start_object_index, start_local_offset) \<Rightarrow>
          if oc_object_size col \<noteq> 0 then
            if start_local_offset + buf_len > oc_object_size col
               \<and> fst (osd_offset_to_object col (offset + buf_len) 0 0) \<noteq> OSD_SUCCESS
            then Some (OSD_ERROR, col, os)
            else cached_write_loop ops g buf buf_len 0 start_object_index start_local_offset (col, os)
          else Some (OSD_SUCCESS, col, os))"

section \<open>The cache of a volume\<close>

text \<open>Changing the cache of a collection changes nothing else of it.\<close>

lemma cache_entry_fields [simp]:
  "oc_object_size (cache_entry col n e) = oc_object_size col"
  "oc_nb_objects (cache_entry col n e) = oc_nb_objects col"
  "oc_name (cache_entry col n e) = oc_name col"
  "oc_io_flag (cache_entry col n e) = oc_io_flag col"
  "oc_start_object (cache_entry col n e) = oc_start_object col"
  "oc_dp_data (cache_entry col n e) = oc_dp_data col"
  "cached_entries (cache_entry col n e) = cached_entries col"
  "oc_object_attr_cache (cache_entry col n e) = (oc_object_attr_cache col)(n := e)"
  by (simp_all add: cache_entry_def cached_entries_def)

lemma cache_update_volume [simp]:
  "cached_entries (col\<lparr>oc_object_attr_cache := c\<rparr>) = cached_entries col"
  "capacity (col\<lparr>oc_object_attr_cache := c\<rparr>) = capacity col"
  "geometry_ok g (col\<lparr>oc_object_attr_cache := c\<rparr>) = geometry_ok g col"
  "obj_file g (col\<lparr>oc_object_attr_cache := c\<rparr>) = obj_file g col"
  "objects_ok g (col\<lparr>oc_object_attr_cache := c\<rparr>) = objects_ok g col"
  "flat g (col\<lparr>oc_object_attr_cache := c\<rparr>) = flat g col"
  "volume_ready g (col\<lparr>oc_object_attr_cache := c\<rparr>) = volume_ready g col"
  by (simp_all add: cached_entries_def capacity_def geometry_ok_def obj_file_def objects_ok_def flat_def volume_ready_def fun_eq_iff)

lemma cache_entry_same [simp]: "cache_entry col n (oc_object_attr_cache col n) = col"
  by (simp add: cache_entry_def)

text \<open>A slot holds the open descriptor of some object, or nothing a lookup could take for one.\<close>

definition entry_open :: "blk_frontend_parameters \<Rightarrow> osd_collection \<Rightarrow> os \<Rightarrow> object_attr \<Rightarrow> nat \<Rightarrow> bool" where
  "entry_open g col os e i \<longleftrightarrow> i < onb col \<and> oa_object_index e = of_nat i
     \<and> oa_oid e = oid_of_index (oc_start_object col) (of_nat i)
     \<and> fd_file os (oa_file_fd e) = Some \<lparr>of_path = obj_file g col i, of_flags = oc_io_flag col\<rparr>"

definition entry_idle :: "object_attr \<Rightarrow> bool" where
  "entry_idle e \<longleftrightarrow> oa_object_index e = -1 \<and> oa_file_fd e \<le> RESERVED_FDS"

definition entry_ok :: "blk_frontend_parameters \<Rightarrow> osd_collection \<Rightarrow> os \<Rightarrow> object_attr \<Rightarrow> bool" where
  "entry_ok g col os e \<longleftrightarrow> length (oa_oid e) = MAXOIDLEN \<and> (entry_idle e \<or> (\<exists>i. entry_open g col os e i))"

text \<open>The slots \<open>S\<close>: each is in order, and no two would close the same descriptor.\<close>

definition slots_ok :: "blk_frontend_parameters \<Rightarrow> osd_collection \<Rightarrow> nat set \<Rightarrow> os \<Rightarrow> bool" where
  "slots_ok g col S os \<longleftrightarrow> (\<forall>m\<in>S. entry_ok g col os (oc_object_attr_cache col m))
     \<and> (\<forall>m\<in>S. \<forall>n\<in>S. m \<noteq> n \<and> oa_file_fd (oc_object_attr_cache col m) > RESERVED_FDS \<longrightarrow>
          oa_file_fd (oc_object_attr_cache col m) \<noteq> oa_file_fd (oc_object_attr_cache col n))"

text \<open>Only the slots of existing objects are used; the others may hold anything.\<close>

definition cache_ok :: "blk_frontend_parameters \<Rightarrow> osd_collection \<Rightarrow> os \<Rightarrow> bool" where
  "cache_ok g col os \<longleftrightarrow> slots_ok g col {..<cached_entries col} os"

lemma entry_cache_entry [simp]:
  "entry_open g (cache_entry col n e) = entry_open g col" "entry_ok g (cache_entry col n e) = entry_ok g col"
  by (simp_all add: fun_eq_iff entry_open_def entry_ok_def cache_entry_def)

lemma slots_ok_subset: "slots_ok g col S os \<Longrightarrow> T \<subseteq> S \<Longrightarrow> slots_ok g col T os"
  unfolding slots_ok_def by blast

lemma slots_ok_fds:
  assumes "slots_ok g col S os"
    and "\<And>m fd f. m \<in> S \<Longrightarrow> oa_file_fd (oc_object_attr_cache col m) = int fd \<Longrightarrow> os_fds os fd = Some f
      \<Longrightarrow> os_fds os' fd = Some f"
  shows "slots_ok g col S os'"
proof -
  have "entry_ok g col os' (oc_object_attr_cache col m)" if m: "m \<in> S" for m
  proof -
    have "entry_ok g col os (oc_object_attr_cache col m)" using assms(1) m by (simp add: slots_ok_def)
    moreover have "fd_file os' (oa_file_fd (oc_object_attr_cache col m)) = Some f"
      if "fd_file os (oa_file_fd (oc_object_attr_cache col m)) = Some f" for f
      using that assms(2) [OF m, of "nat (oa_file_fd (oc_object_attr_cache col m))" f]
      by (auto simp: fd_file_def split: if_splits)
    ultimately show ?thesis by (auto simp: entry_ok_def entry_open_def)
  qed
  then show ?thesis using assms(1) by (simp add: slots_ok_def)
qed

lemma slots_ok_insert:
  assumes "slots_ok g col S os" and "n \<notin> S" and "entry_ok g col os e"
    and "oa_file_fd e > RESERVED_FDS \<Longrightarrow> \<forall>m\<in>S. oa_file_fd (oc_object_attr_cache col m) \<noteq> oa_file_fd e"
  shows "slots_ok g (cache_entry col n e) (insert n S) os"
  using assms unfolding slots_ok_def by (auto split: if_splits)

lemma same_volume [simp]: "\<exists>c. col = col\<lparr>oc_object_attr_cache := c\<rparr>"
  by (rule exI [of _ "oc_object_attr_cache col"]) simp

text \<open>What a transfer through the cache may do outside the volume's bytes.\<close>

definition cached_result ::
    "blk_frontend_parameters \<Rightarrow> osd_collection \<times> os \<Rightarrow> OSD_RETURN \<Rightarrow> osd_collection \<times> os \<Rightarrow> bool" where
  "cached_result g s r s' \<longleftrightarrow> (case (s, s') of ((col, os), (col', os')) \<Rightarrow>
     (\<exists>c. col' = col\<lparr>oc_object_attr_cache := c\<rparr>) \<and> os_frame os os' \<and> os_mutex os' = os_mutex os
     \<and> (\<forall>p. p \<notin> range (obj_file g col) \<longrightarrow> os_files os' p = os_files os p)
     \<and> (r = OSD_SUCCESS \<longrightarrow> objects_ok g col os' \<and> cache_ok g col' os'))"

lemma cached_result_refl:
  "objects_ok g col os \<Longrightarrow> cache_ok g col os \<Longrightarrow> cached_result g (col, os) OSD_SUCCESS (col, os)"
  by (simp add: cached_result_def)

lemma cached_result_trans:
  "cached_result g s OSD_SUCCESS s1 \<Longrightarrow> cached_result g s1 r s2 \<Longrightarrow> cached_result g s r s2"
  by (cases s; cases s1; cases s2) (auto simp: cached_result_def intro: os_frame_trans)

section \<open>A lookup\<close>

text \<open>The old attributes only matter for the descriptor that is closed first.\<close>

lemma recache_old:
  "osd_recache_object g col e idx os =
     (if oa_file_fd e > RESERVED_FDS
      then case sys_close (oa_file_fd e) os of (rc, os1) \<Rightarrow>
        if rc \<noteq> 0 then Some (OSD_ERROR, e, os1) else osd_recache_object g col zero_object_attr idx os1
      else osd_recache_object g col zero_object_attr idx os)"
proof -
  have "oa_file_fd zero_object_attr = 0" by (simp add: zero_object_attr_def)
  then show ?thesis
    by (simp add: osd_recache_object_def RESERVED_FDS_def split: prod.split)
qed

text \<open>The entry serves object \<open>i\<close>: its descriptor is open on the object's file, which is whole.\<close>

definition serves :: "blk_frontend_parameters \<Rightarrow> osd_collection \<Rightarrow> os \<Rightarrow> object_attr \<Rightarrow> nat \<Rightarrow> bool" where
  "serves g col os e i \<longleftrightarrow> (\<exists>b. obj_open os e (obj_file g col i) b \<and> osz col \<le> length b
     \<and> (\<forall>k < osz col. b ! k = flat g col os (i * osz col + k)))"

text \<open>A new descriptor for object \<open>i\<close>, put into slot \<open>n\<close>.\<close>

lemma fresh_slot:
  assumes geo: "geometry_ok g col" and ok: "objects_ok g col os" and i: "i < onb col"
    and q: "quiet (obj_file g col i) os os'" and sz: "sized (obj_file g col i) (osz col) os os'"
    and slots: "slots_ok g col S os" and n: "n \<notin> S" and obj: "attr_of col i obj"
    and fd: "oa_file_fd obj = int fd" "os_fds os fd = None"
      "os_fds os' fd = Some \<lparr>of_path = obj_file g col i, of_flags = oc_io_flag col\<rparr>"
  shows "serves g col os' obj i \<and> objects_ok g col os' \<and> slots_ok g (cache_entry col n obj) (insert n S) os'"
proof -
  obtain b where b: "os_files os' (obj_file g col i) = Some b" "osz col \<le> length b"
    "length b < 9223372036854775808" "objects_ok g col os'"
    "\<And>k. k < osz col \<Longrightarrow> b ! k = flat g col os (i * osz col + k)"
    using opened_object [OF geo ok i q sz] by metis
  then have "serves g col os' obj i"
    using fd geo quiet_flat [OF q, of g col] by (auto simp: serves_def obj_open_def geometry_ok_def)
  moreover have "entry_ok g col os' obj"
    using obj fd i geo by (auto simp: attr_of_def entry_ok_def entry_open_def geometry_ok_def)
  moreover have le: "os_fds os \<subseteq>\<^sub>m os_fds os'" using q by (simp add: quiet_def)
  have "slots_ok g col S os'"
    by (rule slots_ok_fds [OF slots]) (use le in \<open>metis map_le_def domI\<close>)
  moreover have "oa_file_fd (oc_object_attr_cache col m) \<noteq> int fd" if "m \<in> S" "RESERVED_FDS < int fd" for m
  proof
    assume m: "oa_file_fd (oc_object_attr_cache col m) = int fd"
    have "entry_ok g col os (oc_object_attr_cache col m)" using slots that(1) by (simp add: slots_ok_def)
    then show False using m that(2) fd(2) by (auto simp: entry_ok_def entry_idle_def entry_open_def)
  qed
  ultimately show ?thesis using slots_ok_insert [of g col S os' n obj] n b(4) fd(1) by auto
qed

lemma recache_slot:
  assumes rdy: "volume_ready g col os" and i: "i < onb col" and n: "n < cached_entries col"
    and others: "slots_ok g col ({..<cached_entries col} - {n}) os"
  shows "\<exists>r obj os'. osd_recache_object g col zero_object_attr (of_nat i) os = Some (r, obj, os')
     \<and> cached_result g (col, os) r (cache_entry col n obj, os') \<and> flat g col os' = flat g col os
     \<and> (r = OSD_SUCCESS \<longrightarrow> serves g col os' obj i)"
proof -
  have geo: "geometry_ok g col" and ok: "objects_ok g col os" and lf: "locks_free os"
    using rdy by (simp_all add: volume_ready_def)
  obtain r obj os' where run: "osd_recache_object g col zero_object_attr (of_nat i) os = Some (r, obj, os')"
    and q: "quiet (obj_file g col i) os os'"
    and good: "r = OSD_SUCCESS \<Longrightarrow> sized (obj_file g col i) (osz col) os os'
         \<and> (\<exists>fd. obj = (opened_attr col i os)\<lparr>oa_file_fd := int fd\<rparr> \<and> os_fds os fd = None
              \<and> os_fds os' fd = Some \<lparr>of_path = obj_file g col i, of_flags = oc_io_flag col\<rparr>)"
    using recache_object_effect [OF geo lf, of i] by blast
  note fl = quiet_flat [OF q, of g col]
  have frame: "os_frame os os'" "os_mutex os' = os_mutex os"
    "\<And>p. p \<notin> range (obj_file g col) \<Longrightarrow> os_files os' p = os_files os p"
    using q by (auto simp: quiet_def)
  have succ: "serves g col os' obj i \<and> objects_ok g col os' \<and> cache_ok g (cache_entry col n obj) os'"
    if r: "r = OSD_SUCCESS"
  proof -
    obtain fd where obj: "obj = (opened_attr col i os)\<lparr>oa_file_fd := int fd\<rparr>" and fd: "os_fds os fd = None"
      "os_fds os' fd = Some \<lparr>of_path = obj_file g col i, of_flags = oc_io_flag col\<rparr>"
      and sz: "sized (obj_file g col i) (osz col) os os'" using good [OF r] by blast
    have "insert n ({..<cached_entries col} - {n}) = {..<cached_entries col}" using n by auto
    moreover have "attr_of col i obj" "oa_file_fd obj = int fd" by (simp_all add: obj attr_of_def opened_attr_def)
    ultimately show ?thesis
      using fresh_slot [OF geo ok i q sz others, of n obj fd] fd by (simp add: cache_ok_def)
  qed
  have "cached_result g (col, os) r (cache_entry col n obj, os')"
    using frame succ by (auto simp: cached_result_def cache_entry_def)
  with run fl succ show ?thesis by blast
qed

lemma current_index_eq: "geometry_ok g col \<Longrightarrow> i < onb col \<Longrightarrow> current_index (of_nat i) = i mod NBMAXOBJECTS"
  by (subst current_index_def, subst sint_of_nat_small) (simp_all add: geometry_ok_def)

lemma current_index_lt: "geometry_ok g col \<Longrightarrow> i < onb col \<Longrightarrow> current_index (of_nat i) < cached_entries col"
  using mod_less_eq_dividend [of i NBMAXOBJECTS]
  by (simp add: current_index_eq cached_entries_def NBMAXOBJECTS_def)

lemma cache_ok_adv [simp]: "cache_ok g col (adv os) = cache_ok g col os"
  by (simp add: cache_ok_def slots_ok_def entry_ok_def entry_open_def)

lemma volume_ready_files:
  "volume_ready g col os \<Longrightarrow> os_files os' = os_files os \<Longrightarrow> os_mutex os' = os_mutex os \<Longrightarrow> volume_ready g col os'"
  by (simp add: volume_ready_def objects_ok_def locks_free_def)

text \<open>Recaching a slot that is in order: its old descriptor is closed, the other slots stay.\<close>

lemma recache_in_slot:
  assumes rdy: "volume_ready g col os" and cache: "cache_ok g col os" and i: "i < onb col"
    and n: "n < cached_entries col"
  defines "e \<equiv> oc_object_attr_cache col n"
  shows "\<exists>r obj os'. osd_recache_object g col e (of_nat i) os = Some (r, obj, os')
     \<and> cached_result g (col, os) r (cache_entry col n obj, os') \<and> flat g col os' = flat g col os
     \<and> (r = OSD_SUCCESS \<longrightarrow> serves g col os' obj i)"
proof -
  have others: "slots_ok g col ({..<cached_entries col} - {n}) os"
    using cache slots_ok_subset unfolding cache_ok_def by (metis Diff_subset)
  show ?thesis
  proof (cases "oa_file_fd e > RESERVED_FDS")
    case False
    then show ?thesis using recache_slot [OF rdy i n others] recache_old [of g col e] by simp
  next
    case True
    have "entry_ok g col os e" using cache n by (simp add: cache_ok_def slots_ok_def e_def)
    with True obtain j where "entry_open g col os e j" by (auto simp: entry_ok_def entry_idle_def)
    then obtain f where open_e: "fd_file os (oa_file_fd e) = Some f" by (simp add: entry_open_def)
    define os1 where "os1 = (adv os)\<lparr>os_fds := (os_fds os)(nat (oa_file_fd e) := None)\<rparr>"
    have close: "sys_close (oa_file_fd e) os = (if choice os = Fail then -1 else 0, os1)"
      using open_e by (simp add: sys_close_eq os1_def)
    have os1: "os_files os1 = os_files os" "os_mutex os1 = os_mutex os" "os_frame os os1"
      by (simp_all add: os1_def)
    have fl: "flat g col os1 = flat g col os" by (rule flat_cong) (rule os1)
    show ?thesis
    proof (cases "choice os = Fail")
      case True
      then have "osd_recache_object g col e (of_nat i) os = Some (OSD_ERROR, e, os1)"
        using \<open>oa_file_fd e > RESERVED_FDS\<close> close by (simp add: recache_old [of g col e])
      then show ?thesis using os1 fl by (auto simp: cached_result_def cache_entry_def)
    next
      case False
      have "oa_file_fd (oc_object_attr_cache col m) \<noteq> oa_file_fd e" if "m \<in> {..<cached_entries col} - {n}" for m
        using cache that n \<open>oa_file_fd e > RESERVED_FDS\<close> unfolding cache_ok_def slots_ok_def e_def
        by (metis DiffD1 DiffD2 lessThan_iff singletonI)
      then have "slots_ok g col ({..<cached_entries col} - {n}) os1"
        by (intro slots_ok_fds [OF others]) (use \<open>oa_file_fd e > RESERVED_FDS\<close> in \<open>auto simp: os1_def RESERVED_FDS_def\<close>)
      from recache_slot [OF volume_ready_files [OF rdy os1(1,2)] i n this]
      obtain r obj os' where run: "osd_recache_object g col zero_object_attr (of_nat i) os1 = Some (r, obj, os')"
        and res: "cached_result g (col, os1) r (cache_entry col n obj, os')"
        and rest: "flat g col os' = flat g col os1" "r = OSD_SUCCESS \<longrightarrow> serves g col os' obj i" by blast
      have "osd_recache_object g col e (of_nat i) os = Some (r, obj, os')"
        using \<open>oa_file_fd e > RESERVED_FDS\<close> close False run by (simp add: recache_old [of g col e])
      moreover have "cached_result g (col, os) r (cache_entry col n obj, os')"
        using res os1 by (auto simp: cached_result_def intro: os_frame_trans)
      ultimately show ?thesis using rest fl by auto
    qed
  qed
qed

lemma cached_object_hit:
  assumes rdy: "volume_ready g col os" and e: "entry_ok g col os e" and i: "i < onb col"
    and "oa_object_index e = of_nat i" and "os_files os (dc_data_path g (oc_name col) (oa_oid e)) \<noteq> None"
  shows "serves g col os e i"
proof -
  have geo: "geometry_ok g col" and ok: "objects_ok g col os"
    using rdy by (simp_all add: volume_ready_def)
  have sint: "sint (of_nat j :: i32) = int j" if "j < onb col" for j
    using that geo by (intro sint_of_nat_small) (simp add: geometry_ok_def)
  have "\<not> entry_idle e"
    using sint [OF i] assms(4) by (auto simp: entry_idle_def)
  with e obtain j where j: "entry_open g col os e j" by (auto simp: entry_ok_def)
  then have "j < onb col" "oa_object_index e = of_nat j" by (simp_all add: entry_open_def)
  with sint [OF i] sint assms(4) have "j = i" by (metis of_nat_eq_iff)
  with j assms(5) obtain b where b: "os_files os (obj_file g col i) = Some b"
    by (auto simp: entry_open_def obj_file_def)
  moreover have "osz col \<le> length b" "length b < 9223372036854775808"
    using ok i b by (auto simp: objects_ok_def)
  moreover have "\<forall>k < osz col. b ! k = flat g col os (i * osz col + k)"
    using b \<open>osz col \<le> length b\<close> i by (auto simp: flat_object file_byte_def)
  ultimately show ?thesis
    using j \<open>j = i\<close> geo by (auto simp: serves_def obj_open_def entry_open_def geometry_ok_def)
qed

lemma cached_object_effect:
  assumes rdy: "volume_ready g col os" and cache: "cache_ok g col os" and i: "i < onb col"
  shows "\<exists>r col1 os1. cached_object g col (of_nat i) os = Some (r, col1, os1)
     \<and> cached_result g (col, os) r (col1, os1) \<and> flat g col os1 = flat g col os
     \<and> (r = OSD_SUCCESS \<longrightarrow> serves g col os1 (oc_object_attr_cache col1 (current_index (of_nat i))) i)"
proof -
  define n where "n = current_index (of_nat i)"
  define e where "e = oc_object_attr_cache col n"
  define p where "p = dc_data_path g (oc_name col) (oa_oid e)"
  have n: "n < cached_entries col" using rdy i current_index_lt [of g col i] by (simp add: n_def volume_ready_def)
  have e_ok: "entry_ok g col os e" using cache n by (simp add: cache_ok_def slots_ok_def e_def)
  then have path: "osd_object_to_dc_path g (Some (oc_name col)) (Some (oa_oid e)) (Some []) = (OSD_SUCCESS, Some p)"
    using rdy by (simp add: osd_object_to_dc_path_fits entry_ok_def geometry_ok_def volume_ready_def p_def)
  define os0 where "os0 = (if oa_object_index e = of_nat i then adv os else os)"
  have "os_files os0 = os_files os" "os_mutex os0 = os_mutex os" "os_frame os os0"
    by (simp_all add: os0_def)
  note same = this
  have os0: "volume_ready g col os0" "cache_ok g col os0" "flat g col os0 = flat g col os"
    using volume_ready_files [OF rdy same(1,2)] cache flat_cong [OF same(1)] by (simp_all add: os0_def)
  then have step: "cached_result g (col, os) OSD_SUCCESS (col, os0)"
    using same cached_result_refl [of g col os] by (auto simp: cached_result_def volume_ready_def)
  show ?thesis
  proof (cases "oa_object_index e = of_nat i \<and> choice os \<noteq> Fail \<and> os_files os p \<noteq> None")
    case True
    have "entry_ok g col os0 e" using e_ok True by (simp add: os0_def entry_ok_def entry_open_def)
    then have "serves g col os0 e i"
      using cached_object_hit [OF os0(1) _ i] True by (simp add: os0_def p_def)
    moreover have "cached_object g col (of_nat i) os = Some (OSD_SUCCESS, col, os0)"
      using True path by (auto simp: cached_object_def sys_stat_eq os0_def Let_def simp flip: n_def e_def)
    ultimately show ?thesis using os0(3) step by (auto simp flip: n_def simp: e_def)
  next
    case False
    obtain r obj os' where run: "osd_recache_object g col e (of_nat i) os0 = Some (r, obj, os')"
      and res: "cached_result g (col, os0) r (cache_entry col n obj, os')"
      and rest: "flat g col os' = flat g col os0" "r = OSD_SUCCESS \<longrightarrow> serves g col os' obj i"
      using recache_in_slot [OF os0(1,2) i n] unfolding e_def by blast
    have "cached_object g col (of_nat i) os = Some (r, cache_entry col n obj, os')"
      using False path run by (auto simp: cached_object_def sys_stat_eq os0_def Let_def simp flip: n_def e_def)
    with rest os0(3) cached_result_trans [OF step res] show ?thesis by (auto simp flip: n_def)
  qed
qed

section \<open>A piece, and a range\<close>

lemma cache_ok_fds: "os_fds os' = os_fds os \<Longrightarrow> cache_ok g col os' = cache_ok g col os"
  by (simp add: cache_ok_def slots_ok_def entry_ok_def entry_open_def fd_file_def)

text \<open>The end of a piece: the slot keeps its descriptor, or a failed transfer gives it back.\<close>

lemma cached_transfer_end:
  assumes cached: "cached_result g (col, os) OSD_SUCCESS (col1, os1)"
    and res: "obj_result os1 obj r2 obj2 os2" and obj: "obj = oc_object_attr_cache col1 n"
    and files: "\<forall>p. p \<notin> range (obj_file g col) \<longrightarrow> os_files os2 p = os_files os1 p"
    and ok: "objects_ok g col os2"
  shows "r2 = OBJ_SUCCESS \<Longrightarrow> cached_result g (col, os) OSD_SUCCESS (cache_entry col1 n obj2, os2)"
    "osd_reset_cache_object obj2 os2 = (x, obj3, os3) \<Longrightarrow>
       cached_result g (col, os) OSD_ERROR (cache_entry col1 n obj3, os3) \<and> os_files os3 = os_files os2"
proof -
  from cached obtain c where c: "col1 = col\<lparr>oc_object_attr_cache := c\<rparr>" by (auto simp: cached_result_def)
  have fr: "os_frame os1 os2" "os_mutex os2 = os_mutex os1" using res by (simp_all add: obj_result_def)
  show "cached_result g (col, os) OSD_SUCCESS (cache_entry col1 n obj2, os2)" if "r2 = OBJ_SUCCESS"
  proof -
    have "cache_entry col1 n obj2 = col1" "os_fds os2 = os_fds os1"
      using res that obj by (simp_all add: obj_result_def)
    then show ?thesis
      using cached fr files ok cache_ok_fds [of os2 os1]
      by (auto simp: cached_result_def intro: os_frame_trans)
  qed
  show "cached_result g (col, os) OSD_ERROR (cache_entry col1 n obj3, os3) \<and> os_files os3 = os_files os2"
    if "osd_reset_cache_object obj2 os2 = (x, obj3, os3)"
    using cached c fr files reset_cache_object_effect [OF that]
    by (auto simp: cached_result_def cache_entry_def intro: os_frame_trans)
qed

definition cached_ready :: "blk_frontend_parameters \<Rightarrow> osd_collection \<Rightarrow> osd_collection \<times> os \<Rightarrow> bool" where
  "cached_ready g col s \<longleftrightarrow> (\<exists>c. fst s = col\<lparr>oc_object_attr_cache := c\<rparr>)
     \<and> volume_ready g col (snd s) \<and> cache_ok g (fst s) (snd s)"

context object_io
begin

lemma cached_read_piece_reads:
  assumes rdy: "cached_ready g col s" and i: "i < onb col"
    and rng: "unat off + unat n \<le> osz col" and mem: "bp + unat n \<le> length mem"
  shows "reads (\<lambda>s. flat g col (snd s)) (cached_result g) s mem bp (i * osz col + unat off) (unat n)
    (cached_read_piece ops g mem bp n (of_nat i) off s)"
proof -
  obtain c os where s: "s = (col\<lparr>oc_object_attr_cache := c\<rparr>, os)"
    using rdy by (cases s) (auto simp: cached_ready_def)
  let ?col = "col\<lparr>oc_object_attr_cache := c\<rparr>" and ?n = "current_index (of_nat i)"
  have "volume_ready g ?col os" "cache_ok g ?col os" using rdy by (simp_all add: cached_ready_def s)
  from cached_object_effect [OF this, of i] i obtain r col1 os1 where
    look: "cached_object g ?col (of_nat i) os = Some (r, col1, os1)"
    and cr: "cached_result g (?col, os) r (col1, os1)" and fl: "flat g col os1 = flat g col os"
    and serve: "r = OSD_SUCCESS \<longrightarrow> serves g ?col os1 (oc_object_attr_cache col1 ?n) i" by auto
  show ?thesis
  proof (cases r)
    case OSD_ERROR
    then show ?thesis
      using look cr fl
      by (auto simp: reads_def cached_read_piece_def s flat_read_def intro!: exI [of _ 0])
  next
    case OSD_SUCCESS
    let ?e = "oc_object_attr_cache col1 ?n"
    obtain b where op: "obj_open os1 ?e (obj_file g col i) b" and b: "osz col \<le> length b"
      "\<forall>k < osz col. b ! k = flat g col os1 (i * osz col + k)"
      using serve OSD_SUCCESS by (auto simp: serves_def)
    obtain r2 obj2 os2 k where
      run: "obj_pfn_offset_read ops ?e mem bp n off os1
         = Some (r2, obj2, splice_at mem bp (slice b (unat off) k), os2)"
      and k: "k \<le> unat n" "r2 = OBJ_SUCCESS \<longrightarrow> k = unat n"
      and res: "obj_result os1 ?e r2 obj2 os2" and files: "os_files os2 = os_files os1"
      using read_contract [OF op _ mem] rng b(1) by (meson le_trans)
    have d: "slice b (unat off) k = flat_read (flat g col os) (i * osz col + unat off) k"
      using b k rng fl by (auto simp: list_eq_iff_nth_eq flat_read_nth add.assoc)
    have ok2: "objects_ok g ?col os2"
      using cr OSD_SUCCESS files by (auto simp: cached_result_def objects_ok_def)
    have out: "\<forall>p. p \<notin> range (obj_file g ?col) \<longrightarrow> os_files os2 p = os_files os1 p"
      using files by auto
    note fin = cached_transfer_end [OF cr [unfolded OSD_SUCCESS] res refl out ok2]
    obtain x obj3 os3 where rs: "osd_reset_cache_object obj2 os2 = (x, obj3, os3)"
      by (cases "osd_reset_cache_object obj2 os2") auto
    show ?thesis
      using look OSD_SUCCESS run k d fin(1) fin(2) [OF rs] rs files fl
        flat_cong [of os2 os1 g col] flat_cong [of os3 os2 g col]
      by (cases r2) (auto simp: reads_def cached_read_piece_def s)
  qed
qed

lemma cached_write_piece_writes:
  assumes rdy: "cached_ready g col s" and i: "i < onb col"
    and rng: "unat off + unat n \<le> osz col" and mem: "bp + unat n \<le> length mem"
  shows "writes (\<lambda>s. flat g col (snd s)) (cached_result g) s mem bp (i * osz col + unat off) (unat n)
    (cached_write_piece ops g mem bp n (of_nat i) off s)"
proof -
  obtain c os where s: "s = (col\<lparr>oc_object_attr_cache := c\<rparr>, os)"
    using rdy by (cases s) (auto simp: cached_ready_def)
  let ?col = "col\<lparr>oc_object_attr_cache := c\<rparr>" and ?n = "current_index (of_nat i)"
  have geo: "geometry_ok g col" using rdy by (simp add: cached_ready_def volume_ready_def)
  have "volume_ready g ?col os" "cache_ok g ?col os" using rdy by (simp_all add: cached_ready_def s)
  from cached_object_effect [OF this, of i] i obtain r col1 os1 where
    look: "cached_object g ?col (of_nat i) os = Some (r, col1, os1)"
    and cr: "cached_result g (?col, os) r (col1, os1)" and fl: "flat g col os1 = flat g col os"
    and serve: "r = OSD_SUCCESS \<longrightarrow> serves g ?col os1 (oc_object_attr_cache col1 ?n) i" by auto
  show ?thesis
  proof (cases r)
    case OSD_ERROR
    then show ?thesis
      using look cr fl by (auto simp: writes_def cached_write_piece_def s intro!: exI [of _ 0])
  next
    case OSD_SUCCESS
    let ?e = "oc_object_attr_cache col1 ?n"
    obtain b where op: "obj_open os1 ?e (obj_file g col i) b" and b: "osz col \<le> length b"
      using serve OSD_SUCCESS by (auto simp: serves_def)
    have rng': "unat off + unat n \<le> length b" using rng b by simp
    obtain r2 obj2 os2 k where
      run: "obj_pfn_offset_write ops ?e mem bp n off os1 = Some (r2, obj2, os2)"
      and k: "k \<le> unat n" "r2 = OBJ_SUCCESS \<longrightarrow> k = unat n"
      and res: "obj_result os1 ?e r2 obj2 os2"
      and files: "os_files os2 = (os_files os1)(obj_file g col i \<mapsto> splice_at b (unat off) (slice mem bp k))"
      using write_contract [OF op rng' mem] by blast
    have d: "length (slice mem bp k) = k" using mem k by simp
    have fb: "os_files os1 (obj_file g col i) = Some b" using op by (simp add: obj_open_def)
    have fl2: "flat g col os2 = flat_write (flat g col os1) (i * osz col + unat off) (slice mem bp k)"
      by (rule flat_file_write [OF geo i fb b]) (use d rng k files in simp_all)
    have "objects_ok g col os1" using cr OSD_SUCCESS by (simp add: cached_result_def)
    from objects_ok_splice [OF this fb _ files] d rng' k have ok2: "objects_ok g ?col os2" by simp
    have out: "\<forall>p. p \<notin> range (obj_file g ?col) \<longrightarrow> os_files os2 p = os_files os1 p"
      using files by auto
    note fin = cached_transfer_end [OF cr [unfolded OSD_SUCCESS] res refl out ok2]
    obtain x obj3 os3 where rs: "osd_reset_cache_object obj2 os2 = (x, obj3, os3)"
      by (cases "osd_reset_cache_object obj2 os2") auto
    show ?thesis
      using look OSD_SUCCESS run k fin(1) fin(2) [OF rs] rs files fl fl2 flat_cong [of os3 os2 g col]
      by (cases r2) (auto simp: writes_def cached_write_piece_def s)
  qed
qed

end

sublocale object_io \<subseteq> cached: range_loops col "\<lambda>s. flat g col (snd s)" "cached_result g"
    "cached_ready g col" "cached_read_piece ops g" "cached_read_loop ops g"
    "cached_write_piece ops g" "cached_write_loop ops g" for g col
proof
  fix s :: "osd_collection \<times> os" assume ok: "cached_ready g col s"
  then obtain c os where s: "s = (col\<lparr>oc_object_attr_cache := c\<rparr>, os)"
    by (cases s) (auto simp: cached_ready_def)
  show "cached_result g s OSD_SUCCESS s"
    using ok cached_result_refl by (auto simp: cached_ready_def volume_ready_def s)
  show "cached_ready g col s1" if "cached_result g s OSD_SUCCESS s1" for s1
    using ok that by (cases s1) (auto simp: cached_ready_def cached_result_def volume_ready_def locks_free_def s)
  show "cached_read_loop ops g mem len rd idx off s = (if rd = len then Some (OSD_SUCCESS, mem, s)
      else let n = piece_len (oc_object_size col) len rd off in
        Option.bind (cached_read_piece ops g mem (unat rd) n idx off s)
          (\<lambda>(r, mem1, s1). if r \<noteq> OSD_SUCCESS then Some (OSD_ERROR, mem1, s1)
             else cached_read_loop ops g mem1 len (rd + n) (idx + 1) 0 s1))" for mem len rd idx off
    by (subst cached_read_loop.simps) (simp add: s)
  show "cached_write_loop ops g mem len rd idx off s = (if rd = len then Some (OSD_SUCCESS, s)
      else let n = piece_len (oc_object_size col) len rd off in
        Option.bind (cached_write_piece ops g mem (unat rd) n idx off s)
          (\<lambda>(r, s1). if r \<noteq> OSD_SUCCESS then Some (OSD_ERROR, s1)
             else cached_write_loop ops g mem len (rd + n) (idx + 1) 0 s1))" for mem len rd idx off
    by (subst cached_write_loop.simps) (simp add: s)
qed (rule cached_result_trans cached_read_piece_reads cached_write_piece_writes; assumption)+

section \<open>Filling the cache\<close>

lemma init_loop_round:
  assumes rdy: "volume_ready g col os" and slots: "slots_ok g col {..<l} os" and l: "l < onb col"
    and run: "init_collection_loop g l (Suc n) col os = Some (OSD_SUCCESS, col', os')"
  shows "\<exists>obj os1. init_collection_loop g (Suc l) n (cache_entry col l obj) os1 = Some (OSD_SUCCESS, col', os')
    \<and> volume_ready g col os1 \<and> slots_ok g (cache_entry col l obj) {..<Suc l} os1
    \<and> flat g col os1 = flat g col os"
proof -
  have geo: "geometry_ok g col" and ok: "objects_ok g col os" and lf: "locks_free os"
    using rdy by (simp_all add: volume_ready_def)
  define obj where "obj = (oc_object_attr_cache col l)\<lparr>oa_object_index := of_nat l, oa_ts := os_time os,
    oa_oid := oid_of_index (oc_start_object col) (of_nat l), oa_size := oc_object_size col,
    oa_object_to_path_fn := True\<rparr>"
  have obj: "attr_of col l obj" by (simp add: attr_of_def obj_def)
  then have path: "osd_object_to_dc_path g (Some (oc_name col)) (Some (oa_oid obj)) (Some [])
      = (OSD_SUCCESS, Some (obj_file g col l))"
    using geo by (simp add: osd_object_to_dc_path_fits attr_of_def geometry_ok_def obj_file_def)
  obtain r obj' os1 where op: "open_object g col obj l os = Some (r, obj', os1)"
    and q: "quiet (obj_file g col l) os os1"
    and good: "r = OSD_SUCCESS \<Longrightarrow> sized (obj_file g col l) (osz col) os os1
         \<and> (\<exists>fd. obj' = obj\<lparr>oa_file_fd := int fd\<rparr> \<and> os_fds os fd = None
              \<and> os_fds os1 fd = Some \<lparr>of_path = obj_file g col l, of_flags = oc_io_flag col\<rparr>)"
    using open_object_effect [OF geo lf obj] by blast
  have step: "r = OSD_SUCCESS \<and> init_collection_loop g (Suc l) n (cache_entry col l obj') os1 = Some (OSD_SUCCESS, col', os')"
    using run op path geo
    by (auto simp: oid_of_index_eq geometry_ok_def sys_stat_eq Let_def open_object_def materialise_def
        simp flip: obj_def split: Option.bind_splits prod.splits if_splits)
  then obtain fd where fd: "obj' = obj\<lparr>oa_file_fd := int fd\<rparr>" "os_fds os fd = None"
      "os_fds os1 fd = Some \<lparr>of_path = obj_file g col l, of_flags = oc_io_flag col\<rparr>"
    and sz: "sized (obj_file g col l) (osz col) os os1" using good by blast
  have "attr_of col l obj'" "oa_file_fd obj' = int fd" using obj by (simp_all add: fd(1) attr_of_def)
  from fresh_slot [OF geo ok l q sz slots _ this fd(2,3), of l]
  have "objects_ok g col os1" "slots_ok g (cache_entry col l obj') {..<Suc l} os1"
    by (simp_all add: lessThan_Suc)
  moreover have "locks_free os1" using lf q by (simp add: locks_free_def quiet_def)
  ultimately show ?thesis using step geo quiet_flat [OF q, of g col] by (auto simp: volume_ready_def)
qed

lemma init_loop_slots:
  assumes "volume_ready g col os" and "slots_ok g col {..<l} os" and "l + n \<le> onb col"
    and "init_collection_loop g l n col os = Some (OSD_SUCCESS, col', os')"
  shows "slots_ok g col' {..<l + n} os' \<and> volume_ready g col' os' \<and> flat g col' os' = flat g col os
    \<and> cached_entries col' = cached_entries col"
  using assms
proof (induction n arbitrary: l col os)
  case (Suc n)
  from init_loop_round [OF Suc.prems(1,2) _ Suc.prems(4)] Suc.prems(3)
  obtain obj os1 where run: "init_collection_loop g (Suc l) n (cache_entry col l obj) os1 = Some (OSD_SUCCESS, col', os')"
    and st: "volume_ready g col os1" "slots_ok g (cache_entry col l obj) {..<Suc l} os1"
      "flat g col os1 = flat g col os" by auto
  have "volume_ready g (cache_entry col l obj) os1" using st(1) by (simp add: cache_entry_def)
  from Suc.IH [OF this st(2) _ run] Suc.prems(3) st(3) show ?case by (simp add: cache_entry_def)
qed simp

end
