(* ===== verification/Cache_Props.thy ===== *)
theory Cache_Props
  imports Osd_Cached
begin

text \<open>
  What the object layer promises with the descriptor cache: it refines the flat array from every
  cache in order, the initial cache is in order, and what a failed fetch leaves in a slot.
\<close>

section \<open>Requests\<close>

lemma osd_op_read_cached_eq:
  assumes geo: "geometry_ok g col" and wrap: "unat off + unat len < 18446744073709551616"
  shows "osd_op_read_cached ops g col buf len off os =
     (if range_ok col (unat off) (unat len)
      then cached_read_loop ops g buf len 0 (of_nat (unat off div osz col)) (of_nat (unat off mod osz col)) (col, os)
      else Some (OSD_ERROR, buf, col, os))"
  using op_range_check [OF geo wrap] unat_gt_0 [of "oc_object_size col"] geo
  by (auto simp: osd_op_read_cached_def osd_offset_to_object_correct [OF geo, of off] geometry_ok_def)

lemma osd_op_write_cached_eq:
  assumes geo: "geometry_ok g col" and wrap: "unat off + unat len < 18446744073709551616"
  shows "osd_op_write_cached ops g col buf len off os =
     (if range_ok col (unat off) (unat len)
      then cached_write_loop ops g buf len 0 (of_nat (unat off div osz col)) (of_nat (unat off mod osz col)) (col, os)
      else Some (OSD_ERROR, col, os))"
  using op_range_check [OF geo wrap] unat_gt_0 [of "oc_object_size col"] geo
  by (auto simp: osd_op_write_cached_def osd_offset_to_object_correct [OF geo, of off] geometry_ok_def)

text \<open>A request inside one object is one piece.\<close>

lemma piece_inside:
  assumes rng: "range_ok col (unat off) (unat len)" and inside: "unat off mod osz col + unat len \<le> osz col"
  shows "piece_len (oc_object_size col) len 0 (of_nat (unat off mod osz col)) = len"
proof -
  have "unat (piece_len (oc_object_size col) len 0 (of_nat (unat off mod osz col))) = unat len"
    using inside unat_piece_len [of 0 len "of_nat (unat off mod osz col)" "oc_object_size col"]
    by (simp add: unat_local_offset [OF rng])
  then show ?thesis by (simp add: word_unat_eq_iff)
qed

lemma cached_read_inside:
  assumes geo: "geometry_ok g col" and off: "unat off < capacity col" and "len \<noteq> 0"
    and inside: "unat off mod osz col + unat len \<le> osz col"
    and wrap: "unat off + unat len < 18446744073709551616"
  shows "osd_op_read_cached ops g col buf len off os =
    Option.bind (cached_read_piece ops g buf 0 len (of_nat (unat off div osz col))
        (of_nat (unat off mod osz col)) (col, os))
      (\<lambda>(r, mem2, s2). Some (if r \<noteq> OSD_SUCCESS then OSD_ERROR else OSD_SUCCESS, mem2, s2))"
proof -
  have rng: "range_ok col (unat off) (unat len)" using off inside by (simp add: range_ok_def)
  note n = piece_inside [OF rng inside]
  have loop: "cached_read_loop ops g mem len len idx o' s = Some (OSD_SUCCESS, mem, s)" for mem idx o' s
    by (subst cached_read_loop.simps) simp
  show ?thesis
    using rng assms(3)
    by (simp add: osd_op_read_cached_eq [OF geo wrap], subst cached_read_loop.simps)
       (auto simp: n loop intro!: arg_cong [of _ _ "Option.bind _"])
qed

lemma cached_ready_self: "volume_ready g col os \<Longrightarrow> cache_ok g col os \<Longrightarrow> cached_ready g col (col, os)"
  by (simp add: cached_ready_def)

lemma cached_result_ready:
  "cached_result g (col, os) OSD_SUCCESS (col', os') \<Longrightarrow> volume_ready g col os
     \<Longrightarrow> volume_ready g col' os' \<and> cache_ok g col' os'"
  by (auto simp: cached_result_def volume_ready_def locks_free_def)

text \<open>
  C4: With the descriptor cache the layer still refines the flat array. From a cache in order, a
  read or a write returns in every environment of failures and short transfers; a read delivers
  exactly the range and a write replaces exactly the range, or a prefix on failure; a request the
  check refuses changes nothing; and after a success the cache is in order again, whichever
  descriptors were reused, opened, or closed to make room.
\<close>

theorem cached_layer_refines_flat:
  assumes "volume_ready g col os" and "cache_ok g col os" and "unat len \<le> length buf"
    and "unat off + unat len < 18446744073709551616"
  shows "(\<exists>r k col' os'. osd_op_read_cached simpleOSD_obj_op g col buf len off os
        = Some (r, splice_at buf 0 (flat_read (flat g col os) (unat off) k), col', os')
      \<and> k \<le> unat len \<and> (r = OSD_SUCCESS \<longrightarrow> k = unat len \<and> volume_ready g col' os' \<and> cache_ok g col' os')
      \<and> (\<not> range_ok col (unat off) (unat len) \<longrightarrow> r = OSD_ERROR \<and> k = 0 \<and> col' = col \<and> os' = os)
      \<and> flat g col os' = flat g col os)
    \<and> (\<exists>r k col' os'. osd_op_write_cached simpleOSD_obj_op g col buf len off os = Some (r, col', os')
      \<and> k \<le> unat len \<and> (r = OSD_SUCCESS \<longrightarrow> k = unat len \<and> volume_ready g col' os' \<and> cache_ok g col' os')
      \<and> (\<not> range_ok col (unat off) (unat len) \<longrightarrow> r = OSD_ERROR \<and> k = 0 \<and> col' = col \<and> os' = os)
      \<and> flat g col os' = flat_write (flat g col os) (unat off) (take k buf))"
proof (cases "range_ok col (unat off) (unat len)")
  case False
  then show ?thesis
    using assms by (simp add: osd_op_read_cached_eq osd_op_write_cached_eq volume_ready_def flat_read_def)
next
  case True
  note start = cached_ready_self [OF assms(1,2)] and geo = assms(1) [unfolded volume_ready_def]
  have "reads (\<lambda>s. flat g col (snd s)) (cached_result g) (col, os) buf 0 (unat off) (unat len)
      (osd_op_read_cached simpleOSD_obj_op g col buf len off os)"
    using simple_io.cached.range_reads [OF start True assms(3)] True geo assms(4) by (simp add: osd_op_read_cached_eq)
  then obtain r k s' where R: "osd_op_read_cached simpleOSD_obj_op g col buf len off os
        = Some (r, splice_at buf 0 (flat_read (flat g col os) (unat off) k), s')"
    "k \<le> unat len" "r = OSD_SUCCESS \<longrightarrow> k = unat len" "cached_result g (col, os) r s'"
    "flat g col (snd s') = flat g col os" by (auto simp: reads_def)
  have "writes (\<lambda>s. flat g col (snd s)) (cached_result g) (col, os) buf 0 (unat off) (unat len)
      (osd_op_write_cached simpleOSD_obj_op g col buf len off os)"
    using simple_io.cached.range_writes [OF start True assms(3)] True geo assms(4) by (simp add: osd_op_write_cached_eq)
  then obtain r2 k2 s2 where W: "osd_op_write_cached simpleOSD_obj_op g col buf len off os = Some (r2, s2)"
    "k2 \<le> unat len" "r2 = OSD_SUCCESS \<longrightarrow> k2 = unat len" "cached_result g (col, os) r2 s2"
    "flat g col (snd s2) = flat_write (flat g col os) (unat off) (slice buf 0 k2)"
    unfolding writes_def snd_conv by blast
  show ?thesis
    using R W True cached_result_ready [OF _ assms(1)] by (cases s'; cases s2) (auto simp: slice_def)
qed

text \<open>
  When nothing fails, the object's file exists and a descriptor is free, a request inside the
  object succeeds.
\<close>

lemma free_from_fewer: "free_from t i n \<noteq> None \<Longrightarrow> free_from (t(k := None)) i n \<noteq> None"
  by (induction t i n rule: free_from.induct) (auto split: if_splits)

lemma recache_old_live:
  assumes geo: "geometry_ok g col" and e: "entry_ok g col os e" and nf: "no_faults os"
    and present: "os_files os (obj_file g col i) \<noteq> None" and fd: "free_fd os \<noteq> None"
  shows "\<exists>obj os'. osd_recache_object g col e (of_nat i) os = Some (OSD_SUCCESS, obj, os')"
proof -
  have live: "\<exists>obj os'. osd_recache_object g col zero_object_attr (of_nat i) os1 = Some (OSD_SUCCESS, obj, os')"
    if "no_faults os1" "os_files os1 = os_files os" "free_fd os1 \<noteq> None" for os1
    using recache_object_live [OF geo that(1)] that(2,3) present by auto
  show ?thesis
  proof (cases "oa_file_fd e > RESERVED_FDS")
    case False
    then show ?thesis using live [OF nf refl fd] by (simp add: recache_old [of g col e])
  next
    case True
    then obtain f where "fd_file os (oa_file_fd e) = Some f"
      using e by (auto simp: entry_ok_def entry_idle_def entry_open_def)
    moreover have "free_fd ((adv os)\<lparr>os_fds := (os_fds os)(nat (oa_file_fd e) := None)\<rparr>) \<noteq> None"
      using free_from_fewer [of "os_fds os" 0 "os_nofile os"] fd by (simp add: free_fd_def)
    ultimately show ?thesis
      using live [of "(adv os)\<lparr>os_fds := (os_fds os)(nat (oa_file_fd e) := None)\<rparr>"] nf True
      by (simp add: recache_old [of g col e] sys_close_eq)
  qed
qed

lemma cached_object_live:
  assumes rdy: "volume_ready g col os" and cache: "cache_ok g col os" and nf: "no_faults os" and i: "i < onb col"
    and present: "os_files os (obj_file g col i) \<noteq> None" and fd: "free_fd os \<noteq> None"
  obtains col1 os1 where "cached_object g col (of_nat i) os = Some (OSD_SUCCESS, col1, os1)"
    "cached_result g (col, os) OSD_SUCCESS (col1, os1)" "flat g col os1 = flat g col os" "no_faults os1"
    "serves g col os1 (oc_object_attr_cache col1 (current_index (of_nat i))) i"
proof -
  let ?n = "current_index (of_nat i)"
  let ?e = "oc_object_attr_cache col ?n"
  have geo: "geometry_ok g col" using rdy by (simp add: volume_ready_def)
  have e: "entry_ok g col os ?e"
    using cache current_index_lt [OF geo i] by (simp add: cache_ok_def slots_ok_def)
  obtain r col1 os1 where look: "cached_object g col (of_nat i) os = Some (r, col1, os1)"
    and res: "cached_result g (col, os) r (col1, os1)" and fl: "flat g col os1 = flat g col os"
    and serve: "r = OSD_SUCCESS \<longrightarrow> serves g col os1 (oc_object_attr_cache col1 ?n) i"
    using cached_object_effect [OF rdy cache i] by blast
  have path: "osd_object_to_dc_path g (Some (oc_name col)) (Some (oa_oid ?e)) (Some [])
      = (OSD_SUCCESS, Some (dc_data_path g (oc_name col) (oa_oid ?e)))"
    using e geo by (simp add: osd_object_to_dc_path_fits entry_ok_def geometry_ok_def)
  have "entry_ok g col (adv os) ?e" using e by (simp add: entry_ok_def entry_open_def)
  then obtain obj0 x0 obj1 x1 where "osd_recache_object g col ?e (of_nat i) os = Some (OSD_SUCCESS, obj0, x0)"
    "osd_recache_object g col ?e (of_nat i) (adv os) = Some (OSD_SUCCESS, obj1, x1)"
    using recache_old_live [OF geo e nf, of i] recache_old_live [OF geo _ no_faults_adv [OF nf], of ?e i] present fd
    by auto
  then have r: "r = OSD_SUCCESS" using look path by (auto simp: cached_object_def Let_def sys_stat_eq split: if_splits)
  have "no_faults os1" using res nf by (auto simp: cached_result_def intro: os_frame_no_faults)
  then show thesis using that look res fl serve r by blast
qed

lemma cached_read_live:
  assumes rdy: "volume_ready g col os" and cache: "cache_ok g col os" and nf: "no_faults os"
    and present: "os_files os (obj_file g col (unat off div osz col)) \<noteq> None" and fd: "free_fd os \<noteq> None"
    and off: "unat off < capacity col" "unat off mod osz col + unat len \<le> osz col" "len \<noteq> 0"
    and buf: "unat len \<le> length buf" and wrap: "unat off + unat len < 18446744073709551616"
  shows "\<exists>mem s'. osd_op_read_cached simpleOSD_obj_op g col buf len off os = Some (OSD_SUCCESS, mem, s')"
proof -
  define i where "i = unat off div osz col"
  let ?n = "current_index (of_nat i)" and ?off = "of_nat (unat off mod osz col) :: u64"
  have geo: "geometry_ok g col" using rdy by (simp add: volume_ready_def)
  have i: "i < onb col" using address_object(1) [OF off(1)] by (simp add: i_def)
  obtain col1 os1 where look: "cached_object g col (of_nat i) os = Some (OSD_SUCCESS, col1, os1)"
    and nf1: "no_faults os1" and serve: "serves g col os1 (oc_object_attr_cache col1 ?n) i"
    using cached_object_live [OF rdy cache nf i present [folded i_def] fd] by metis
  obtain b where b: "obj_open os1 (oc_object_attr_cache col1 ?n) (obj_file g col i) b" "osz col \<le> length b"
    using serve by (auto simp: serves_def)
  have o: "unat ?off = unat off mod osz col"
    by (rule unat_local_offset [of _ _ "unat len"]) (use off in \<open>simp add: range_ok_def\<close>)
  obtain obj2 mem2 os2 where "obj_pfn_offset_read simpleOSD_obj_op (oc_object_attr_cache col1 ?n) buf 0 len ?off os1
      = Some (OBJ_SUCCESS, obj2, mem2, os2)"
    using simple_io.read_contract [OF b(1), of ?off len 0 buf] o off(2) b(2) buf nf1 by (fastforce simp: obj_result_def)
  then show ?thesis
    using look by (simp add: cached_read_inside [OF geo off(1,3,2) wrap] cached_read_piece_def flip: i_def)
qed

definition ex_cached :: osd_collection where
  "ex_cached = ex_collection\<lparr>oc_object_attr_cache := (\<lambda>_. zero_object_attr\<lparr>oa_object_index := -1\<rparr>)\<rparr>"

lemma ex_cached_ready: "volume_ready ex_params ex_cached ex_live_os" "cache_ok ex_params ex_cached ex_live_os"
  using ex_live(1)
  by (simp_all add: ex_cached_def cache_ok_def slots_ok_def entry_ok_def entry_idle_def zero_object_attr_def
      RESERVED_FDS_def)

theorem cached_layer_refines_flat_witness:
  "\<exists>col' os'. osd_op_read_cached simpleOSD_obj_op ex_params ex_cached [9, 9, 9] 2 5 ex_live_os
      = Some (OSD_SUCCESS, [0, 0, 9], col', os') \<and> cache_ok ex_params col' os'"
proof -
  have flat: "flat ex_params ex_cached ex_live_os = (\<lambda>_. 0)" using ex_live_flat by (simp add: ex_cached_def)
  have "free_fd ex_live_os \<noteq> None" "no_faults ex_live_os" "capacity ex_cached = 12" "osz ex_cached = 4"
    using ex_live(2) by (auto simp: vol_live_def ex_cached_def)
  then obtain mem s' where live: "osd_op_read_cached simpleOSD_obj_op ex_params ex_cached [9, 9, 9] 2 5 ex_live_os
      = Some (OSD_SUCCESS, mem, s')"
    using cached_read_live [OF ex_cached_ready, of 5 2 "[9, 9, 9]"] by (auto simp: ex_live_os_def)
  have "flat_read (\<lambda>_. 0 :: u8) 5 2 = [0, 0]" by (simp add: flat_read_def upt_rec)
  then show ?thesis
    using cached_layer_refines_flat [OF ex_cached_ready, of 2 "[9, 9, 9]" 5] live
    by (auto simp: flat splice_at_def)
qed

text \<open>
  C19: \<open>osd_init_collection\<close> with \<open>INTIAL_OBJECT_CACHE\<close> puts the cache in order: whatever a malloced
  collection held, a success leaves every slot of an existing object with a descriptor of its own
  that is open on the object's file, and no byte of the volume has changed.
\<close>

theorem init_collection_fills_cache:
  assumes "volume_ready g (ol_collection lun\<lparr>oc_io_flag := ol_io_flag lun\<rparr>) os"
    and "osd_init_collection True g (Some lun) os = Some (OSD_SUCCESS, Some lun', os')"
  shows "cache_ok g (ol_collection lun') os' \<and> volume_ready g (ol_collection lun') os'
    \<and> flat g (ol_collection lun') os' = flat g (ol_collection lun\<lparr>oc_io_flag := ol_io_flag lun\<rparr>) os"
proof -
  let ?col = "ol_collection lun\<lparr>oc_io_flag := ol_io_flag lun\<rparr>"
  have sz: "oc_object_size ?col \<noteq> 0" using assms(1) by (auto simp: volume_ready_def geometry_ok_def)
  have "init_collection_loop g 0 (cached_entries ?col) ?col os = Some (OSD_SUCCESS, ol_collection lun', os')"
    using assms(2) sz by (auto simp: osd_init_collection_def Let_def split: Option.bind_splits)
  from init_loop_slots [OF assms(1) _ _ this]
  show ?thesis by (simp add: slots_ok_def cached_entries_def cache_ok_def)
qed

definition ex_cached_lun :: osd_lun where
  "ex_cached_lun = \<lparr>ol_lun_index = 0, ol_io_flag = 2, ol_block_size = 4096, ol_lun_vol = ''vol'',
     ol_lun_capacity = 12, ol_is_fs_done = 1, ol_lun_dc_path = [], ol_collection = ex_collection\<lparr>oc_nb_objects := 1\<rparr>\<rparr>"

lemma ex_init_success:
  "case osd_init_collection True ex_params (Some ex_cached_lun) ex_live_os of
     Some (OSD_SUCCESS, Some lun', os') \<Rightarrow> True | _ \<Rightarrow> False"
  by code_simp

theorem init_collection_fills_cache_witness:
  "\<exists>lun' os'. osd_init_collection True ex_params (Some ex_cached_lun) ex_live_os = Some (OSD_SUCCESS, Some lun', os')
     \<and> cache_ok ex_params (ol_collection lun') os'"
proof -
  obtain lun' os' where run: "osd_init_collection True ex_params (Some ex_cached_lun) ex_live_os
      = Some (OSD_SUCCESS, Some lun', os')"
    using ex_init_success by (auto split: option.splits OSD_RETURN.splits) (metis OSD_RETURN.exhaust)+
  have "volume_ready ex_params (ol_collection ex_cached_lun\<lparr>oc_io_flag := ol_io_flag ex_cached_lun\<rparr>) ex_live_os"
    using ex_live(1) by (simp add: volume_ready_def geometry_ok_def objects_ok_def capacity_def ex_live_os_def
        ex_cached_lun_def ex_collection_def)
  from init_collection_fills_cache [OF this run] run show ?thesis by blast
qed

text \<open>What a request finds in a slot that was left with the object's index and descriptor 0.\<close>

lemma poisoned_slot_read:
  assumes geo: "geometry_ok g col" and i: "i < onb col"
    and "unat off div osz col = i" and "unat off mod osz col + unat len \<le> osz col" and "len \<noteq> 0"
    and "unat off < capacity col" and "unat len \<le> length buf" and "unat off + unat len < 18446744073709551616"
    and present: "os_files os2 (obj_file g col i) \<noteq> None" and nf: "no_faults os2"
    and op: "obj_open os2 zero_object_attr p b" and rng: "unat off mod osz col + unat len \<le> length b"
  shows "\<exists>col2 os3. osd_op_read_cached simpleOSD_obj_op g
      (cache_entry col (i mod NBMAXOBJECTS) (opened_attr col i os)) buf len off os2
      = Some (OSD_SUCCESS, splice_at buf 0 (slice b (unat off mod osz col) (unat len)), col2, os3)"
proof -
  let ?obj = "opened_attr col i os" and ?col1 = "cache_entry col (i mod NBMAXOBJECTS) (opened_attr col i os)"
  note n = current_index_eq [OF geo i]
  have "osd_object_to_dc_path g (Some (oc_name col)) (Some (oa_oid ?obj)) (Some []) = (OSD_SUCCESS, Some (obj_file g col i))"
    using geo by (simp add: osd_object_to_dc_path_fits opened_attr_def obj_file_def geometry_ok_def)
  then have look: "cached_object g ?col1 (of_nat i) os2 = Some (OSD_SUCCESS, ?col1, adv os2)"
    using present nf by (auto simp: cached_object_def n sys_stat_eq opened_attr_def Let_def)
  have "obj_open (adv os2) ?obj p b" using op by (simp add: obj_open_def opened_attr_def zero_object_attr_def)
  moreover have o: "unat (of_nat (unat off mod osz col) :: u64) = unat off mod osz col"
    by (rule unat_local_offset [of _ _ "unat len"]) (use assms(4,6) in \<open>simp add: range_ok_def\<close>)
  ultimately obtain obj2 os3 where "obj_pfn_offset_read simpleOSD_obj_op ?obj buf 0 len
      (of_nat (unat off mod osz col)) (adv os2)
      = Some (OBJ_SUCCESS, obj2, splice_at buf 0 (slice b (unat off mod osz col) (unat len)), os3)"
    using simple_io.read_contract [of "adv os2" ?obj p b "of_nat (unat off mod osz col)" len 0 buf]
      rng assms(7) nf by (fastforce simp: obj_result_def)
  moreover have "geometry_ok g ?col1" "unat off < capacity ?col1" "unat off mod osz ?col1 + unat len \<le> osz ?col1"
    using geo assms(4,6) by (simp_all add: cache_entry_def)
  ultimately show ?thesis
    using look assms(3) cached_read_inside [of g ?col1 off len simpleOSD_obj_op buf os2] assms(5,8)
    by (simp add: cached_read_piece_def n)
qed

text \<open>
  C37: A fetch that fails poisons the slot. The request that needed the object fails, but its slot
  is left with the object's index and descriptor 0. Once the file is there, the next request of
  the object takes the slot for cached: it succeeds and delivers bytes of whatever file descriptor
  0 is, the standard input of the process.
\<close>

theorem cached_failed_fetch_poisons_slot:
  assumes "volume_ready g col os" and "cache_ok g col os" and "i < onb col"
    and "oa_object_index (oc_object_attr_cache col (i mod NBMAXOBJECTS)) \<noteq> of_nat i"
    and "oa_file_fd (oc_object_attr_cache col (i mod NBMAXOBJECTS)) \<le> RESERVED_FDS"
    and "materialise g col (opened_attr col i os) i os = Some (OSD_ERROR, os1)"
    and "unat off div osz col = i" and "unat off mod osz col + unat len \<le> osz col" and "len \<noteq> 0"
    and "unat off < capacity col" and "unat len \<le> length buf" and "unat off + unat len < 18446744073709551616"
  shows "\<exists>col1. osd_op_read_cached simpleOSD_obj_op g col buf len off os = Some (OSD_ERROR, buf, col1, os1)
    \<and> (\<forall>os2 p b. os_files os2 (obj_file g col i) \<noteq> None \<and> no_faults os2 \<and> obj_open os2 zero_object_attr p b
         \<and> unat off mod osz col + unat len \<le> length b \<longrightarrow>
         (\<exists>col2 os3. osd_op_read_cached simpleOSD_obj_op g col1 buf len off os2
            = Some (OSD_SUCCESS, splice_at buf 0 (slice b (unat off mod osz col) (unat len)), col2, os3)))"
proof -
  let ?n = "i mod NBMAXOBJECTS" and ?obj = "opened_attr col i os"
  let ?e = "oc_object_attr_cache col ?n" and ?col1 = "cache_entry col ?n ?obj"
  have geo: "geometry_ok g col" using assms(1) by (simp add: volume_ready_def)
  note n = current_index_eq [OF geo assms(3)]
  have "?n < cached_entries col" using current_index_lt [OF geo assms(3)] by (simp add: n)
  then have "entry_ok g col os ?e" using assms(2) by (simp add: cache_ok_def slots_ok_def)
  then have path: "osd_object_to_dc_path g (Some (oc_name col)) (Some (oa_oid ?e)) (Some [])
      = (OSD_SUCCESS, Some (dc_data_path g (oc_name col) (oa_oid ?e)))"
    using geo by (simp add: osd_object_to_dc_path_fits entry_ok_def geometry_ok_def)
  have "osd_recache_object g col ?e (of_nat i) os = Some (OSD_ERROR, ?obj, os1)"
    using assms(5,6) by (simp add: recache_old [of g col ?e] recache_object_eq [OF geo] open_object_def)
  then have "cached_object g col (of_nat i) os = Some (OSD_ERROR, ?col1, os1)"
    using path assms(4) by (simp add: cached_object_def n Let_def)
  then have first: "osd_op_read_cached simpleOSD_obj_op g col buf len off os = Some (OSD_ERROR, buf, ?col1, os1)"
    using assms(7) by (simp add: cached_read_inside [OF geo assms(10,9,8,12)] cached_read_piece_def)
  have "\<exists>col2 os3. osd_op_read_cached simpleOSD_obj_op g ?col1 buf len off os2
      = Some (OSD_SUCCESS, splice_at buf 0 (slice b (unat off mod osz col) (unat len)), col2, os3)"
    if "os_files os2 (obj_file g col i) \<noteq> None" "no_faults os2" "obj_open os2 zero_object_attr p b"
      "unat off mod osz col + unat len \<le> length b" for os2 p b
    by (rule poisoned_slot_read [OF geo assms(3,7-12) that])
  with first show ?thesis by blast
qed

definition ex_lost :: osd_collection where
  "ex_lost = ex_cached\<lparr>oc_dp_data := ex_dp_map\<lparr>dm_nb_dp_nodes := 0\<rparr>\<rparr>"

definition ex_stdin_os :: os where
  "ex_stdin_os = ex_os\<lparr>os_files := (\<lambda>_. Some (zeros 4))(''/dev/null'' \<mapsto> [1, 2, 3, 4])\<rparr>"

theorem cached_failed_fetch_poisons_slot_witness:
  "\<exists>col1 col2 os3. osd_op_read_cached simpleOSD_obj_op ex_params ex_lost [9, 9] 2 5 ex_os
       = Some (OSD_ERROR, [9, 9], col1, ex_os)
     \<and> osd_op_read_cached simpleOSD_obj_op ex_params col1 [9, 9] 2 5 ex_stdin_os
       = Some (OSD_SUCCESS, [2, 3], col2, os3)"
proof -
  have stdin: "obj_open ex_stdin_os zero_object_attr ''/dev/null'' [1, 2, 3, 4]"
    by (simp add: obj_open_def ex_stdin_os_def zero_object_attr_def ex_os_def fd_file_def plain_flags_def
        may_read_def may_write_def has_flag_def O_CREAT_def O_TRUNC_def O_APPEND_def)
  have sizes: "osz ex_lost = 4" "onb ex_lost = 3" "capacity ex_lost = 12"
    by (simp_all add: ex_lost_def ex_cached_def capacity_def ex_collection_def)
  have "volume_ready ex_params ex_lost ex_os"
    using ex_volume_ready [of "[]"] by (simp add: volume_ready_def geometry_ok_def objects_ok_def ex_lost_def
        ex_cached_def capacity_def ex_os_simps locks_free_def)
  moreover have "cache_ok ex_params ex_lost ex_os"
    by (simp add: ex_lost_def ex_cached_def cache_ok_def slots_ok_def entry_ok_def entry_idle_def
        zero_object_attr_def RESERVED_FDS_def)
  moreover have "oa_object_index (oc_object_attr_cache ex_lost n) = -1"
    "oa_file_fd (oc_object_attr_cache ex_lost n) \<le> RESERVED_FDS" for n
    by (simp_all add: ex_lost_def ex_cached_def zero_object_attr_def RESERVED_FDS_def)
  moreover have "materialise ex_params ex_lost (opened_attr ex_lost 1 ex_os) 1 ex_os = Some (OSD_ERROR, ex_os)"
    by (simp add: materialise_def sys_stat_eq ex_os_simps recache_fetch_def get_dpnode_ip_from_index_def ex_lost_def)
  ultimately obtain col1 where
    fails: "osd_op_read_cached simpleOSD_obj_op ex_params ex_lost [9, 9] 2 5 ex_os = Some (OSD_ERROR, [9, 9], col1, ex_os)"
    and later: "\<And>os2 p b. os_files os2 (obj_file ex_params ex_lost 1) \<noteq> None \<Longrightarrow> no_faults os2 \<Longrightarrow>
      obj_open os2 zero_object_attr p b \<Longrightarrow> 3 \<le> length b \<Longrightarrow>
      \<exists>col2 os3. osd_op_read_cached simpleOSD_obj_op ex_params col1 [9, 9] 2 5 os2
        = Some (OSD_SUCCESS, splice_at [9, 9] 0 (slice b 1 2), col2, os3)"
    using cached_failed_fetch_poisons_slot [of ex_params ex_lost ex_os 1 ex_os 5 2 "[9, 9]"] sizes by auto
  have "os_files ex_stdin_os (obj_file ex_params ex_lost 1) \<noteq> None" "no_faults ex_stdin_os"
    by (simp_all add: ex_stdin_os_def ex_os_def no_faults_def)
  from later [OF this stdin] fails show ?thesis by (auto simp: slice_def splice_at_def)
qed

end
