(* ===== verification/Volume_Threads.thy ===== *)
theory Volume_Threads
  imports Volume Schedule
begin

text \<open>
  Several threads in \<open>osd_op_read\<close> and \<open>osd_op_write\<close> on one volume: the worker threads of the
  target call the store without a lock. The two functions are cut at the rounds of their loops;
  one round opens an object, moves its piece and releases it. Inside a round a thread only uses
  its own descriptor, and what two threads do when the object is missing is \<open>Fetch_Race\<close>.
\<close>

section \<open>One thread, round by round\<close>

record io_task =
  it_write :: bool
  it_buf :: bytes
  it_len :: u64
  it_off :: u64

text \<open>The locals of a thread in the loop: \<open>buf_read\<close> or \<open>buf_written\<close>, \<open>traverse_index\<close>,
  \<open>osd_offset\<close>, and the buffer.\<close>

datatype io_pc =
    Start
  | Moving u64 i32 u64 bytes
  | Done OSD_RETURN bytes

text \<open>The checks before the loop, the same in both functions.\<close>

definition io_enter :: "osd_collection \<Rightarrow> io_task \<Rightarrow> io_pc" where
  "io_enter col a =
     (case osd_offset_to_object col (it_off a) 0 0 of
        (OSD_ERROR, _, _) \<Rightarrow> Done OSD_ERROR (it_buf a)
      | (OSD_SUCCESS, start_object_index, start_local_offset) \<Rightarrow>
          if oc_object_size col \<noteq> 0 then
            if start_local_offset + it_len a > oc_object_size col
               \<and> fst (osd_offset_to_object col (it_off a + it_len a) 0 0) \<noteq> OSD_SUCCESS
            then Done OSD_ERROR (it_buf a)
            else Moving 0 start_object_index start_local_offset (it_buf a)
          else Done OSD_SUCCESS (it_buf a))"

fun read_round ::
    "obj_op_func \<Rightarrow> blk_frontend_parameters \<Rightarrow> osd_collection \<Rightarrow> io_task \<Rightarrow> io_pc \<Rightarrow> os
       \<Rightarrow> (io_pc \<times> os) option" where
  "read_round ops g col a Start os = Some (io_enter col a, os)"
| "read_round ops g col a (Moving buf_read idx osd_offset mem) os =
     (if buf_read = it_len a then Some (Done OSD_SUCCESS mem, os)
      else let n = piece_len (oc_object_size col) (it_len a) buf_read osd_offset in
        map_option (\<lambda>(r, mem2, os2).
            (if r \<noteq> OSD_SUCCESS then Done OSD_ERROR mem2 else Moving (buf_read + n) (idx + 1) 0 mem2, os2))
          (read_piece ops g col mem (unat buf_read) n idx osd_offset os))"
| "read_round ops g col a (Done r mem) os = None"

fun write_round ::
    "obj_op_func \<Rightarrow> blk_frontend_parameters \<Rightarrow> osd_collection \<Rightarrow> io_task \<Rightarrow> io_pc \<Rightarrow> os
       \<Rightarrow> (io_pc \<times> os) option" where
  "write_round ops g col a Start os = Some (io_enter col a, os)"
| "write_round ops g col a (Moving buf_written idx osd_offset mem) os =
     (if buf_written = it_len a then Some (Done OSD_SUCCESS mem, os)
      else let n = piece_len (oc_object_size col) (it_len a) buf_written osd_offset in
        map_option (\<lambda>(r, os2).
            (if r \<noteq> OSD_SUCCESS then Done OSD_ERROR mem else Moving (buf_written + n) (idx + 1) 0 mem, os2))
          (write_piece ops g col mem (unat buf_written) n idx osd_offset os))"
| "write_round ops g col a (Done r mem) os = None"

definition io_round ::
    "obj_op_func \<Rightarrow> blk_frontend_parameters \<Rightarrow> osd_collection \<Rightarrow> io_task \<Rightarrow> io_pc \<Rightarrow> os
       \<Rightarrow> (io_pc \<times> os) option" where
  "io_round ops g col a = (if it_write a then write_round ops g col a else read_round ops g col a)"

section \<open>Many threads\<close>

text \<open>
  Between the rounds the rest of the process may do anything that leaves this volume as it is:
  work on other volumes, open and close descriptors, use up the environment's choices.
\<close>

inductive io_race ::
    "blk_frontend_parameters \<Rightarrow> osd_collection \<Rightarrow> ('t \<Rightarrow> io_task) \<Rightarrow>
     ('t \<Rightarrow> io_pc) \<times> os \<Rightarrow> ('t \<Rightarrow> io_pc) \<times> os \<Rightarrow> bool" for g col a where
  thread: "io_round simpleOSD_obj_op g col (a t) (pcs t) os = Some (pc', os') \<Longrightarrow>
    io_race g col a (pcs, os) (pcs(t := pc'), os')"
| other: "flat g col os' = flat g col os \<Longrightarrow> objects_ok g col os' \<Longrightarrow> locks_free os' \<Longrightarrow>
    io_race g col a (pcs, os) (pcs, os')"

text \<open>A request the range check lets through, with a buffer of its length.\<close>

definition task_ok :: "osd_collection \<Rightarrow> io_task \<Rightarrow> bool" where
  "task_ok col a \<longleftrightarrow> range_ok col (unat (it_off a)) (unat (it_len a))
     \<and> unat (it_len a) \<le> length (it_buf a)
     \<and> unat (it_off a) + unat (it_len a) < 18446744073709551616"

definition overlap :: "io_task \<Rightarrow> io_task \<Rightarrow> bool" where
  "overlap a b \<longleftrightarrow> unat (it_off a) < unat (it_off b) + unat (it_len b)
     \<and> unat (it_off b) < unat (it_off a) + unat (it_len a)"

text \<open>No thread writes into the range of another.\<close>

definition conflict_free :: "('t \<Rightarrow> io_task) \<Rightarrow> bool" where
  "conflict_free a \<longleftrightarrow> (\<forall>t u. t \<noteq> u \<and> it_write (a t) \<longrightarrow> \<not> overlap (a t) (a u))"

section \<open>What a round does\<close>

fun pc_mem :: "io_task \<Rightarrow> io_pc \<Rightarrow> bytes" where
  "pc_mem a Start = it_buf a"
| "pc_mem a (Moving rd idx off mem) = mem"
| "pc_mem a (Done r mem) = mem"

fun moved :: "io_task \<Rightarrow> io_pc \<Rightarrow> nat" where
  "moved a Start = 0"
| "moved a (Moving rd idx off mem) = unat rd"
| "moved a (Done r mem) = (if r = OSD_SUCCESS then unat (it_len a) else 0)"

fun failed :: "io_pc \<Rightarrow> bool" where
  "failed (Done r mem) \<longleftrightarrow> r \<noteq> OSD_SUCCESS"
| "failed pc \<longleftrightarrow> False"

text \<open>The loop invariant of one thread: it stands in object \<open>i\<close> where its next byte belongs.\<close>

fun pc_place :: "osd_collection \<Rightarrow> io_task \<Rightarrow> io_pc \<Rightarrow> bool" where
  "pc_place col a (Moving rd idx off mem) \<longleftrightarrow> (\<exists>i. idx = of_nat i \<and> unat off < osz col
     \<and> unat rd \<le> unat (it_len a)
     \<and> i * osz col + unat off + (unat (it_len a) - unat rd) \<le> capacity col
     \<and> (unat rd < unat (it_len a) \<longrightarrow> i * osz col + unat off = unat (it_off a) + unat rd))"
| "pc_place col a pc \<longleftrightarrow> True"

lemma moved_le: "pc_place col a pc \<Longrightarrow> moved a pc \<le> unat (it_len a)"
  by (cases pc) auto

lemma io_enter_eq:
  assumes "geometry_ok g col" and "task_ok col a"
  shows "io_enter col a = Moving 0 (of_nat (unat (it_off a) div osz col))
     (of_nat (unat (it_off a) mod osz col)) (it_buf a)"
  using assms op_range_check [of g col "it_off a" "it_len a"] unat_gt_0 [of "oc_object_size col"]
  by (auto simp: io_enter_def task_ok_def osd_offset_to_object_correct [of g] geometry_ok_def)

text \<open>
  The effect of a round of a thread that has not failed: it moves the next bytes of its range,
  \<open>m\<close> bytes so far and \<open>m'\<close> after it.
\<close>

definition round_effect ::
    "blk_frontend_parameters \<Rightarrow> osd_collection \<Rightarrow> io_task \<Rightarrow> io_pc \<Rightarrow> os \<Rightarrow> io_pc \<Rightarrow> os \<Rightarrow> bool" where
  "round_effect g col a pc os pc' os' \<longleftrightarrow>
     (let m = moved a pc; n = moved a pc' - m; x = unat (it_off a) + m in
      m \<le> moved a pc' \<and> pc_place col a pc' \<and> volume_ready g col os'
      \<and> (if it_write a
         then pc_mem a pc' = pc_mem a pc
           \<and> flat g col os' = flat_write (flat g col os) x (slice (pc_mem a pc) m n)
         else flat g col os' = flat g col os
           \<and> pc_mem a pc' = splice_at (pc_mem a pc) m (flat_read (flat g col os) x n)))"

lemma enter_effect:
  assumes rdy: "volume_ready g col os" and ok: "task_ok col a"
  shows "\<not> failed (io_enter col a)" "round_effect g col a Start os (io_enter col a) os"
proof -
  have geo: "geometry_ok g col" using rdy by (simp add: volume_ready_def)
  have rng: "range_ok col (unat (it_off a)) (unat (it_len a))" using ok by (simp add: task_ok_def)
  note eq = io_enter_eq [OF geo ok]
  then show "\<not> failed (io_enter col a)" by simp
  show "round_effect g col a Start os (io_enter col a) os"
    unfolding eq round_effect_def Let_def pc_place.simps
    using range_ok_inside [OF rng] rdy unat_local_offset [OF rng]
    by (intro conjI exI [of _ "unat (it_off a) div osz col"]) (simp_all add: flat_read_def)
qed

lemma done_effect:
  assumes "volume_ready g col os"
  shows "round_effect g col a (Moving (it_len a) idx off mem) os (Done OSD_SUCCESS mem) os"
  using assms by (simp add: round_effect_def flat_read_def)

text \<open>One round of the loops; \<open>pc_place\<close> carries the arithmetic.\<close>

lemma piece_place:
  assumes place: "pc_place col a (Moving rd idx off mem)" and ne: "rd \<noteq> it_len a"
  defines "n \<equiv> piece_len (oc_object_size col) (it_len a) rd off"
  obtains i where "idx = of_nat i" "i < onb col" "unat off + unat n \<le> osz col" "0 < unat n"
    "unat rd + unat n \<le> unat (it_len a)" "unat (rd + n) = unat rd + unat n"
    "i * osz col + unat off = unat (it_off a) + unat rd"
    "pc_place col a (Moving (rd + n) (idx + 1) 0 mem2)"
proof -
  from place obtain i where i: "idx = of_nat i" "unat off < osz col" "unat rd \<le> unat (it_len a)"
    "i * osz col + unat off + (unat (it_len a) - unat rd) \<le> capacity col"
    and at: "unat rd < unat (it_len a) \<longrightarrow> i * osz col + unat off = unat (it_off a) + unat rd" by auto
  note round = loop_round [OF i(4,2,3) ne, folded n_def]
  have lt: "unat rd < unat (it_len a)" using i(3) ne by (simp add: word_unat_eq_iff)
  have place2: "pc_place col a (Moving (rd + n) (idx + 1) 0 mem2)"
    using i(2,3) round at lt by (auto simp: i(1) intro!: exI [of _ "Suc i"])
  show ?thesis
    by (rule that [OF i(1) round(1,4,2) _ round(5) _ place2]) (use at lt round(3) in simp_all)
qed

lemma read_round_effect:
  assumes rdy: "volume_ready g col os" and mem: "unat (it_len a) \<le> length mem"
    and place: "pc_place col a (Moving rd idx off mem)" and ne: "rd \<noteq> it_len a"
  shows "\<exists>pc' os'. read_round simpleOSD_obj_op g col a (Moving rd idx off mem) os = Some (pc', os')
     \<and> (\<not> failed pc' \<longrightarrow> moved a pc' = unat rd + unat (piece_len (oc_object_size col) (it_len a) rd off)
          \<and> pc_place col a pc' \<and> volume_ready g col os' \<and> flat g col os' = flat g col os
          \<and> pc_mem a pc' = splice_at mem (unat rd) (flat_read (flat g col os)
              (unat (it_off a) + unat rd) (unat (piece_len (oc_object_size col) (it_len a) rd off))))
     \<and> (vol_live g col os \<longrightarrow> \<not> failed pc' \<and> vol_live g col os')"
proof -
  define n where "n = piece_len (oc_object_size col) (it_len a) rd off"
  from rdy have rd: "geometry_ok g col" "objects_ok g col os" "locks_free os"
    by (simp_all add: volume_ready_def)
  obtain i where i: "idx = of_nat i" "i < onb col" "unat off + unat n \<le> osz col"
    "unat rd + unat n \<le> unat (it_len a)" "unat (rd + n) = unat rd + unat n"
    "i * osz col + unat off = unat (it_off a) + unat rd"
    and next_place: "\<And>mem2. pc_place col a (Moving (rd + n) (idx + 1) 0 mem2)"
    using piece_place [OF place ne, folded n_def] by (metis pc_place.simps(1))
  obtain r k os' where
    piece: "read_piece simpleOSD_obj_op g col mem (unat rd) n idx off os
      = Some (r, splice_at mem (unat rd) (flat_read (flat g col os) (unat (it_off a) + unat rd) k), os')"
    and k: "r = OSD_SUCCESS \<longrightarrow> k = unat n" and vs: "vol_result g col os r os'"
    and fl: "flat g col os' = flat g col os"
    using simple_io.read_piece_effect [OF rd i(2,3), of "unat rd" mem] mem i(4)
    unfolding i(1,6) by auto
  show ?thesis
    using piece k vs fl ne next_place i(5) rdy volume_step_locks
    by (cases r) (auto simp: vol_result_def volume_ready_def simp flip: n_def)
qed

lemma write_round_effect:
  assumes rdy: "volume_ready g col os" and mem: "unat (it_len a) \<le> length mem"
    and place: "pc_place col a (Moving rd idx off mem)" and ne: "rd \<noteq> it_len a"
  shows "\<exists>pc' os'. write_round simpleOSD_obj_op g col a (Moving rd idx off mem) os = Some (pc', os')
     \<and> (\<not> failed pc' \<longrightarrow> moved a pc' = unat rd + unat (piece_len (oc_object_size col) (it_len a) rd off)
          \<and> pc_place col a pc' \<and> volume_ready g col os' \<and> pc_mem a pc' = mem
          \<and> flat g col os' = flat_write (flat g col os) (unat (it_off a) + unat rd)
              (slice mem (unat rd) (unat (piece_len (oc_object_size col) (it_len a) rd off))))
     \<and> (vol_live g col os \<longrightarrow> \<not> failed pc' \<and> vol_live g col os')"
proof -
  define n where "n = piece_len (oc_object_size col) (it_len a) rd off"
  from rdy have rd: "geometry_ok g col" "objects_ok g col os" "locks_free os"
    by (simp_all add: volume_ready_def)
  obtain i where i: "idx = of_nat i" "i < onb col" "unat off + unat n \<le> osz col"
    "unat rd + unat n \<le> unat (it_len a)" "unat (rd + n) = unat rd + unat n"
    "i * osz col + unat off = unat (it_off a) + unat rd"
    and next_place: "\<And>mem2. pc_place col a (Moving (rd + n) (idx + 1) 0 mem2)"
    using piece_place [OF place ne, folded n_def] by (metis pc_place.simps(1))
  obtain r k os' where
    piece: "write_piece simpleOSD_obj_op g col mem (unat rd) n idx off os = Some (r, os')"
    and k: "r = OSD_SUCCESS \<longrightarrow> k = unat n" and vs: "vol_result g col os r os'"
    and fl: "flat g col os'
        = flat_write (flat g col os) (unat (it_off a) + unat rd) (slice mem (unat rd) k)"
    using simple_io.write_piece_effect [OF rd i(2,3), of "unat rd" mem] mem i(4)
    unfolding i(1,6) by auto
  show ?thesis
    using piece k vs fl ne next_place i(5) rdy volume_step_locks
    by (cases r) (auto simp: vol_result_def volume_ready_def simp flip: n_def)
qed

text \<open>The round that starts from \<open>pc\<close>, whatever \<open>pc\<close> is.\<close>

lemma io_round_effect:
  assumes rdy: "volume_ready g col os" and ok: "task_ok col a" and place: "pc_place col a pc"
    and mem: "length (pc_mem a pc) = length (it_buf a)" and nd: "\<And>r m. pc \<noteq> Done r m"
  shows "\<exists>pc' os'. io_round simpleOSD_obj_op g col a pc os = Some (pc', os')
     \<and> (\<not> failed pc' \<longrightarrow> round_effect g col a pc os pc' os')
     \<and> (vol_live g col os \<longrightarrow> \<not> failed pc' \<and> vol_live g col os')"
proof (cases pc)
  case Start
  then show ?thesis using enter_effect [OF rdy ok] by (simp add: io_round_def)
next
  case (Moving rd idx off mem)
  have len: "unat (it_len a) \<le> length mem" using ok mem Moving by (simp add: task_ok_def)
  show ?thesis
  proof (cases "rd = it_len a")
    case True
    then show ?thesis using Moving done_effect [OF rdy] by (simp add: io_round_def)
  next
    case False
    show ?thesis
    proof (cases "it_write a")
      case True
      then show ?thesis
        using write_round_effect [OF rdy len place [unfolded Moving] False] Moving
        by (fastforce simp: io_round_def round_effect_def)
    next
      case r: False
      then show ?thesis
        using read_round_effect [OF rdy len place [unfolded Moving] False] Moving
        by (fastforce simp: io_round_def round_effect_def)
    qed
  qed
qed (use nd in simp)

section \<open>All threads\<close>

text \<open>Address \<open>x\<close> is among the bytes the thread has moved.\<close>

definition behind :: "io_task \<Rightarrow> io_pc \<Rightarrow> nat \<Rightarrow> bool" where
  "behind a pc x \<longleftrightarrow> unat (it_off a) \<le> x \<and> x < unat (it_off a) + moved a pc"

definition thread_ok :: "osd_collection \<Rightarrow> (nat \<Rightarrow> u8) \<Rightarrow> io_task \<Rightarrow> io_pc \<Rightarrow> bool" where
  "thread_ok col f0 a pc \<longleftrightarrow> \<not> failed pc \<and> pc_place col a pc
     \<and> pc_mem a pc = (if it_write a then it_buf a
         else splice_at (it_buf a) 0 (flat_read f0 (unat (it_off a)) (moved a pc)))"

text \<open>The volume holds what the writers have written so far, and elsewhere what it held before.\<close>

definition content_ok :: "('t \<Rightarrow> io_task) \<Rightarrow> (nat \<Rightarrow> u8) \<Rightarrow> ('t \<Rightarrow> io_pc) \<Rightarrow> (nat \<Rightarrow> u8) \<Rightarrow> bool" where
  "content_ok a f0 pcs f \<longleftrightarrow>
     (\<forall>t x. it_write (a t) \<and> behind (a t) (pcs t) x \<longrightarrow> f x = it_buf (a t) ! (x - unat (it_off (a t))))
   \<and> (\<forall>x. (\<forall>t. it_write (a t) \<longrightarrow> \<not> behind (a t) (pcs t) x) \<longrightarrow> f x = f0 x)"

definition io_inv ::
    "blk_frontend_parameters \<Rightarrow> osd_collection \<Rightarrow> ('t \<Rightarrow> io_task) \<Rightarrow> (nat \<Rightarrow> u8) \<Rightarrow> ('t \<Rightarrow> io_pc)
       \<Rightarrow> os \<Rightarrow> bool" where
  "io_inv g col a f0 pcs os \<longleftrightarrow> volume_ready g col os \<and> (\<forall>t. thread_ok col f0 (a t) (pcs t))
     \<and> content_ok a f0 pcs (flat g col os)"

lemma thread_ok_length:
  assumes "thread_ok col f0 a pc" and "task_ok col a"
  shows "length (pc_mem a pc) = length (it_buf a)"
  using assms moved_le [of col a pc] by (auto simp: thread_ok_def task_ok_def)

lemma behind_disjoint:
  assumes "conflict_free a" and "it_write (a t)" and "u \<noteq> t" and place: "pc_place col (a u) pc"
    and b: "behind (a u) pc x"
  shows "\<not> (unat (it_off (a t)) \<le> x \<and> x < unat (it_off (a t)) + unat (it_len (a t)))"
proof -
  have "\<not> overlap (a t) (a u)" using assms(1-3) unfolding conflict_free_def by metis
  then show ?thesis using b moved_le [OF place] unfolding overlap_def behind_def by linarith
qed

lemma content_ok_write:
  assumes con: "content_ok a f0 pcs f" and cf: "conflict_free a" and t: "it_write (a t)"
    and place: "\<And>u. pc_place col (a u) (pcs u)" and place': "pc_place col (a t) pc'"
    and mv: "moved (a t) (pcs t) \<le> moved (a t) pc'" and len: "unat (it_len (a t)) \<le> length (it_buf (a t))"
  shows "content_ok a f0 (pcs(t := pc')) (flat_write f (unat (it_off (a t)) + moved (a t) (pcs t))
     (slice (it_buf (a t)) (moved (a t) (pcs t)) (moved (a t) pc' - moved (a t) (pcs t))))"
    (is "content_ok a f0 ?pcs ?f")
proof -
  let ?o = "unat (it_off (a t))" and ?m = "moved (a t) (pcs t)" and ?m' = "moved (a t) pc'"
  have le: "?m' \<le> unat (it_len (a t))" by (rule moved_le [OF place'])
  have val: "?f x = (if ?o + ?m \<le> x \<and> x < ?o + ?m' then it_buf (a t) ! (x - ?o) else f x)" for x
    using mv le len by (auto simp: flat_write_def)
  have "?f x = it_buf (a u) ! (x - unat (it_off (a u)))" if "it_write (a u)" "behind (a u) (?pcs u) x" for u x
  proof (cases "u = t")
    case True
    then show ?thesis using that con t val unfolding content_ok_def behind_def by (auto simp: not_le)
  next
    case False
    then have "\<not> (?o \<le> x \<and> x < ?o + unat (it_len (a t)))"
      using behind_disjoint [where a = a, OF cf t False place [of u]] that(2) by simp
    then have "?f x = f x" using val [of x] le by (auto split: if_splits)
    then show ?thesis using False that con unfolding content_ok_def by simp
  qed
  moreover have "?f x = f0 x" if "\<forall>u. it_write (a u) \<longrightarrow> \<not> behind (a u) (?pcs u) x" for x
  proof -
    have "\<not> behind (a t) pc' x" using that t by (metis fun_upd_same)
    then have "\<not> behind (a t) (pcs t) x" "?f x = f x"
      using mv val unfolding behind_def by auto
    moreover have "\<not> behind (a u) (pcs u) x" if "it_write (a u)" "u \<noteq> t" for u
      using \<open>\<forall>u. it_write (a u) \<longrightarrow> \<not> behind (a u) (?pcs u) x\<close> that by (metis fun_upd_other)
    ultimately show ?thesis using con unfolding content_ok_def by metis
  qed
  ultimately show ?thesis unfolding content_ok_def by blast
qed

lemma content_ok_read:
  assumes "content_ok a f0 pcs f" and "\<not> it_write (a t)"
  shows "content_ok a f0 (pcs(t := pc')) f"
  using assms unfolding content_ok_def by (metis fun_upd_other)

text \<open>A reader sees the bytes that were there at the start.\<close>

lemma content_ok_reader:
  assumes con: "content_ok a f0 pcs f" and cf: "conflict_free a" and t: "\<not> it_write (a t)"
    and place: "\<And>u. pc_place col (a u) (pcs u)" and "m + n \<le> unat (it_len (a t))"
  shows "flat_read f (unat (it_off (a t)) + m) n = flat_read f0 (unat (it_off (a t)) + m) n"
proof (rule nth_equalityI)
  fix i assume "i < length (flat_read f (unat (it_off (a t)) + m) n)"
  then have i: "i < n" by simp
  have "\<not> behind (a u) (pcs u) (unat (it_off (a t)) + m + i)" if "it_write (a u)" for u
  proof
    assume b: "behind (a u) (pcs u) (unat (it_off (a t)) + m + i)"
    have "u \<noteq> t" using that t by blast
    then have "\<not> overlap (a u) (a t)" using cf that unfolding conflict_free_def by metis
    then show False
      using b i assms(5) moved_le [OF place [of u]] unfolding overlap_def behind_def by linarith
  qed
  then show "flat_read f (unat (it_off (a t)) + m) n ! i = flat_read f0 (unat (it_off (a t)) + m) n ! i"
    using con i unfolding content_ok_def by (simp add: flat_read_nth)
qed simp

lemma io_inv_thread:
  assumes inv: "io_inv g col a f0 pcs os" and cf: "conflict_free a" and ok: "task_ok col (a t)"
    and eff: "round_effect g col (a t) (pcs t) os pc' os'" and nf: "\<not> failed pc'"
  shows "io_inv g col a f0 (pcs(t := pc')) os'"
proof -
  have th: "\<And>u. thread_ok col f0 (a u) (pcs u)" and con: "content_ok a f0 pcs (flat g col os)"
    using inv by (simp_all add: io_inv_def)
  then have place: "\<And>u. pc_place col (a u) (pcs u)" by (simp add: thread_ok_def)
  let ?o = "unat (it_off (a t))" and ?m = "moved (a t) (pcs t)" and ?m' = "moved (a t) pc'"
  have mv: "?m \<le> ?m'" "pc_place col (a t) pc'" "volume_ready g col os'"
    using eff by (simp_all add: round_effect_def Let_def)
  have le: "?m' \<le> unat (it_len (a t))" "unat (it_len (a t)) \<le> length (it_buf (a t))"
    using moved_le [OF mv(2)] ok by (simp_all add: task_ok_def)
  have "thread_ok col f0 (a t) pc' \<and> content_ok a f0 (pcs(t := pc')) (flat g col os')"
  proof (cases "it_write (a t)")
    case True
    then have "pc_mem (a t) (pcs t) = it_buf (a t)" using th [of t] by (simp add: thread_ok_def)
    then show ?thesis
      using True eff nf mv content_ok_write [OF con cf True place mv(2,1) le(2)]
      by (simp add: round_effect_def Let_def thread_ok_def)
  next
    case False
    have mem: "pc_mem (a t) (pcs t) = splice_at (it_buf (a t)) 0 (flat_read f0 ?o ?m)"
      using th [of t] False by (simp add: thread_ok_def)
    have rd: "flat_read (flat g col os) (?o + ?m) (?m' - ?m) = flat_read f0 (?o + ?m) (?m' - ?m)"
      by (rule content_ok_reader [OF con cf False place]) (use mv le in simp)
    have "pc_mem (a t) pc' = splice_at (splice_at (it_buf (a t)) 0 (flat_read f0 ?o ?m)) ?m
        (flat_read f0 (?o + ?m) (?m' - ?m))"
      using eff False rd mem by (simp add: round_effect_def Let_def)
    also have "\<dots> = splice_at (it_buf (a t)) 0 (flat_read f0 ?o ?m')"
      using splice_at_append [of 0 "flat_read f0 ?o ?m" "flat_read f0 (?o + ?m) (?m' - ?m)" "it_buf (a t)"]
        mv le by (simp add: flat_read_append)
    finally show ?thesis
      using False eff nf mv(2) content_ok_read [OF con False]
      by (simp add: round_effect_def Let_def thread_ok_def)
  qed
  then show ?thesis using th mv(3) by (simp add: io_inv_def)
qed

text \<open>As long as no thread has failed the invariant holds; a failure stays visible.\<close>

lemma io_race_inv:
  assumes run: "(io_race g col a)\<^sup>*\<^sup>* (\<lambda>_. Start, os0) (pcs, os)" and rdy: "volume_ready g col os0"
    and ok: "\<And>t. task_ok col (a t)" and cf: "conflict_free a" and nf: "\<And>t. \<not> failed (pcs t)"
  shows "io_inv g col a (flat g col os0) pcs os"
proof -
  have "(\<exists>t. failed (pcs t)) \<or> io_inv g col a (flat g col os0) pcs os"
    using run
  proof (induction "(pcs, os)" arbitrary: pcs os rule: rtranclp_induct)
    case base
    show ?case using rdy
      by (auto simp: io_inv_def thread_ok_def content_ok_def behind_def flat_read_def)
  next
    case (step s)
    obtain pcs1 os1 where s: "s = (pcs1, os1)" by (cases s)
    note IH = step.hyps(3) [OF s]
    from step.hyps(2) [unfolded s] show ?case
    proof (cases rule: io_race.cases)
      case (thread t pc')
      have nd: "pcs1 t \<noteq> Done r m" for r m
        using thread(2) by (auto simp: io_round_def split: if_splits)
      show ?thesis
      proof (cases "\<exists>u. failed (pcs1 u)")
        case True
        then obtain u where "failed (pcs1 u)" by blast
        moreover from this nd have "u \<noteq> t" by (cases "pcs1 u") auto
        ultimately show ?thesis using thread(1) by (metis fun_upd_other)
      next
        case False
        with IH have inv: "io_inv g col a (flat g col os0) pcs1 os1" by blast
        then have "volume_ready g col os1" "pc_place col (a t) (pcs1 t)"
          "length (pc_mem (a t) (pcs1 t)) = length (it_buf (a t))"
          using thread_ok_length [OF _ ok] by (auto simp: io_inv_def thread_ok_def)
        from io_round_effect [OF this(1) ok this(2,3) nd] thread(2)
        have "failed pc' \<or> round_effect g col (a t) (pcs1 t) os1 pc' os" by auto
        then show ?thesis
          using io_inv_thread [OF inv cf ok] thread(1) by (metis fun_upd_same)
      qed
    next
      case other
      then show ?thesis using IH by (auto simp: io_inv_def volume_ready_def)
    qed
  qed
  with nf show ?thesis by blast
qed

section \<open>One thread alone\<close>

fun io_run ::
    "nat \<Rightarrow> obj_op_func \<Rightarrow> blk_frontend_parameters \<Rightarrow> osd_collection \<Rightarrow> io_task \<Rightarrow> io_pc \<Rightarrow> os
       \<Rightarrow> (io_pc \<times> os) option" where
  "io_run 0 ops g col a pc os = Some (pc, os)"
| "io_run (Suc n) ops g col a pc os =
     (case pc of Done r mem \<Rightarrow> Some (pc, os)
      | _ \<Rightarrow> Option.bind (io_round ops g col a pc os) (\<lambda>(pc', os'). io_run n ops g col a pc' os'))"

lemma io_run_Done [simp]: "io_run n ops g col a (Done r mem) os = Some (Done r mem, os)"
  by (cases n) simp_all

lemma io_run_Moving:
  "io_run (Suc n) ops g col a (Moving rd idx off mem) os
     = Option.bind (io_round ops g col a (Moving rd idx off mem) os)
         (\<lambda>(pc', os'). io_run n ops g col a pc' os')"
  by simp

lemma read_loop_run:
  assumes "osd_read_loop ops g col mem (it_len a) rd idx off os = Some (r, mem', os')"
    and rdr: "\<not> it_write a"
  shows "\<exists>n. io_run n ops g col a (Moving rd idx off mem) os = Some (Done r mem', os')"
proof -
  define P where "P = (\<lambda>ops g col mem len rd idx off os (x :: OSD_RETURN \<times> bytes \<times> os). len = it_len a \<longrightarrow>
      (\<exists>n. io_run n ops g col a (Moving rd idx off mem) os = Some (Done (fst x) (fst (snd x)), snd (snd x))))"
  have "P ops g col mem (it_len a) rd idx off os (r, mem', os')"
  proof (rule osd_read_loop.raw_induct [OF _ assms(1)])
    fix rl ops g col mem len rd idx off os x
    assume IH: "\<And>ops g col mem len rd idx off os x. rl ops g col mem len rd idx off os = Some x \<Longrightarrow>
        P ops g col mem len rd idx off os x"
      and x: "(if rd = len then Some (OSD_SUCCESS, mem, os)
        else Option.bind (osd_recache_object g col zero_object_attr idx os)
          (\<lambda>(r, obj, os1). if r \<noteq> OSD_SUCCESS then Some (OSD_ERROR, mem, os1)
             else Option.bind (obj_pfn_offset_read ops obj mem (unat rd)
                (piece_len (oc_object_size col) len rd off) off os1)
               (\<lambda>(r2, obj2, mem2, os2). case osd_reset_cache_object obj2 os2 of (r3, _, os3) \<Rightarrow>
                  if r2 \<noteq> OBJ_SUCCESS \<or> r3 \<noteq> OSD_SUCCESS then Some (OSD_ERROR, mem2, os3)
                  else rl ops g col mem2 len (rd + piece_len (oc_object_size col) len rd off) (idx + 1) 0 os3)))
        = Some x"
    show "P ops g col mem len rd idx off os x"
      unfolding P_def
    proof
      assume len: "len = it_len a"
      from x rdr len consider (stop) s m where "io_round ops g col a (Moving rd idx off mem) os
            = Some (Done s m, snd (snd x))" "s = fst x" "m = fst (snd x)"
        | (go) mem2 os3 where "io_round ops g col a (Moving rd idx off mem) os
            = Some (Moving (rd + piece_len (oc_object_size col) len rd off) (idx + 1) 0 mem2, os3)"
          "rl ops g col mem2 len (rd + piece_len (oc_object_size col) len rd off) (idx + 1) 0 os3 = Some x"
        by (auto simp: io_round_def read_piece_def Let_def split: if_splits prod.splits Option.bind_splits)
      then show "\<exists>n. io_run n ops g col a (Moving rd idx off mem) os
          = Some (Done (fst x) (fst (snd x)), snd (snd x))"
      proof cases
        case stop
        then show ?thesis by (intro exI [of _ "Suc 0"]) simp
      next
        case go
        then obtain n where "io_run n ops g col a (Moving (rd + piece_len (oc_object_size col) len rd off)
            (idx + 1) 0 mem2) os3 = Some (Done (fst x) (fst (snd x)), snd (snd x))"
          using IH [OF go(2)] len unfolding P_def by blast
        with go(1) show ?thesis by (intro exI [of _ "Suc n"]) simp
      qed
    qed
  qed
  then show ?thesis by (simp add: P_def)
qed

lemma read_loop_round:
  assumes "\<not> it_write a"
  shows "osd_read_loop ops g col mem (it_len a) rd idx off os
    = Option.bind (io_round ops g col a (Moving rd idx off mem) os) (\<lambda>(pc', os'). case pc' of
        Done r m \<Rightarrow> Some (r, m, os')
      | Moving rd' idx' off' m \<Rightarrow> osd_read_loop ops g col m (it_len a) rd' idx' off' os')"
  using assms by (subst osd_read_loop_piece)
    (auto simp: io_round_def Let_def split: Option.bind_split)

lemma run_read_loop:
  assumes "io_run n ops g col a (Moving rd idx off mem) os = Some (Done r mem', os')"
    and rdr: "\<not> it_write a"
  shows "osd_read_loop ops g col mem (it_len a) rd idx off os = Some (r, mem', os')"
  using assms(1)
proof (induction n arbitrary: rd idx off mem os)
  case (Suc n)
  then obtain pc1 os1 where st: "io_round ops g col a (Moving rd idx off mem) os = Some (pc1, os1)"
    and run: "io_run n ops g col a pc1 os1 = Some (Done r mem', os')" by (auto split: Option.bind_splits)
  have "pc1 \<noteq> Start" using st rdr by (auto simp: io_round_def Let_def split: if_splits)
  with run Suc.IH show ?case by (subst read_loop_round [OF rdr]) (cases pc1, auto simp: st)
qed simp

lemma write_loop_run:
  assumes "osd_write_loop ops g col mem (it_len a) rd idx off os = Some (r, os')"
    and wr: "it_write a"
  shows "\<exists>n. io_run n ops g col a (Moving rd idx off mem) os = Some (Done r mem, os')"
proof -
  define P where "P = (\<lambda>ops g col mem len rd idx off os (x :: OSD_RETURN \<times> os). len = it_len a \<longrightarrow>
      (\<exists>n. io_run n ops g col a (Moving rd idx off mem) os = Some (Done (fst x) mem, snd x)))"
  have "P ops g col mem (it_len a) rd idx off os (r, os')"
  proof (rule osd_write_loop.raw_induct [OF _ assms(1)])
    fix rl ops g col mem len rd idx off os x
    assume IH: "\<And>ops g col mem len rd idx off os x. rl ops g col mem len rd idx off os = Some x \<Longrightarrow>
        P ops g col mem len rd idx off os x"
      and x: "(if rd = len then Some (OSD_SUCCESS, os)
        else Option.bind (osd_recache_object g col zero_object_attr idx os)
          (\<lambda>(r, obj, os1). if r \<noteq> OSD_SUCCESS then Some (OSD_ERROR, os1)
             else Option.bind (obj_pfn_offset_write ops obj mem (unat rd)
                (piece_len (oc_object_size col) len rd off) off os1)
               (\<lambda>(r2, obj2, os2). case osd_reset_cache_object obj2 os2 of (r3, _, os3) \<Rightarrow>
                  if r2 \<noteq> OBJ_SUCCESS \<or> r3 \<noteq> OSD_SUCCESS then Some (OSD_ERROR, os3)
                  else rl ops g col mem len (rd + piece_len (oc_object_size col) len rd off) (idx + 1) 0 os3)))
        = Some x"
    show "P ops g col mem len rd idx off os x"
      unfolding P_def
    proof
      assume len: "len = it_len a"
      from x wr len consider (stop) s where "io_round ops g col a (Moving rd idx off mem) os
            = Some (Done s mem, snd x)" "s = fst x"
        | (go) os3 where "io_round ops g col a (Moving rd idx off mem) os
            = Some (Moving (rd + piece_len (oc_object_size col) len rd off) (idx + 1) 0 mem, os3)"
          "rl ops g col mem len (rd + piece_len (oc_object_size col) len rd off) (idx + 1) 0 os3 = Some x"
        by (auto simp: io_round_def write_piece_def Let_def split: if_splits prod.splits Option.bind_splits)
      then show "\<exists>n. io_run n ops g col a (Moving rd idx off mem) os
          = Some (Done (fst x) mem, snd x)"
      proof cases
        case stop
        then show ?thesis by (intro exI [of _ "Suc 0"]) simp
      next
        case go
        then obtain n where "io_run n ops g col a (Moving (rd + piece_len (oc_object_size col) len rd off)
            (idx + 1) 0 mem) os3 = Some (Done (fst x) mem, snd x)"
          using IH [OF go(2)] len unfolding P_def by blast
        with go(1) show ?thesis by (intro exI [of _ "Suc n"]) simp
      qed
    qed
  qed
  then show ?thesis by (simp add: P_def)
qed

lemma write_loop_round:
  assumes "it_write a"
  shows "osd_write_loop ops g col mem (it_len a) rd idx off os
    = Option.bind (io_round ops g col a (Moving rd idx off mem) os) (\<lambda>(pc', os'). case pc' of
        Done r m \<Rightarrow> Some (r, os')
      | Moving rd' idx' off' m \<Rightarrow> osd_write_loop ops g col m (it_len a) rd' idx' off' os')"
  using assms by (subst osd_write_loop_piece)
    (auto simp: io_round_def Let_def split: Option.bind_split)

lemma run_write_loop:
  assumes "io_run n ops g col a (Moving rd idx off mem) os = Some (Done r mem', os')"
    and wr: "it_write a"
  shows "osd_write_loop ops g col mem (it_len a) rd idx off os = Some (r, os')"
  using assms(1)
proof (induction n arbitrary: rd idx off mem os)
  case (Suc n)
  then obtain pc1 os1 where st: "io_round ops g col a (Moving rd idx off mem) os = Some (pc1, os1)"
    and run: "io_run n ops g col a pc1 os1 = Some (Done r mem', os')" by (auto split: Option.bind_splits)
  have "pc1 \<noteq> Start" using st wr by (auto simp: io_round_def Let_def split: if_splits)
  with run Suc.IH show ?case by (subst write_loop_round [OF wr]) (cases pc1, auto simp: st)
qed simp

text \<open>The whole function: the checks, then the loop.\<close>

lemma io_run_Start:
  "(\<exists>n. io_run n ops g col a Start os = Some (Done r mem, os'))
   \<longleftrightarrow> (\<exists>n. io_run n ops g col a (io_enter col a) os = Some (Done r mem, os'))"
proof
  assume "\<exists>n. io_run n ops g col a Start os = Some (Done r mem, os')"
  then obtain n where "io_run n ops g col a Start os = Some (Done r mem, os')" by blast
  then show "\<exists>n. io_run n ops g col a (io_enter col a) os = Some (Done r mem, os')"
    by (cases n) (auto simp: io_round_def split: if_splits)
next
  assume "\<exists>n. io_run n ops g col a (io_enter col a) os = Some (Done r mem, os')"
  then obtain n where "io_run n ops g col a (io_enter col a) os = Some (Done r mem, os')" by blast
  then show "\<exists>n. io_run n ops g col a Start os = Some (Done r mem, os')"
    by (intro exI [of _ "Suc n"]) (simp add: io_round_def)
qed

lemma osd_op_read_enter:
  "osd_op_read ops g col (it_buf a) (it_len a) (it_off a) os = (case io_enter col a of
      Done r mem \<Rightarrow> Some (r, mem, os)
    | Moving rd idx off mem \<Rightarrow> osd_read_loop ops g col mem (it_len a) rd idx off os)"
  by (auto simp: osd_op_read_def io_enter_def split: prod.split OSD_RETURN.split)

lemma osd_op_write_enter:
  "osd_op_write ops g col (it_buf a) (it_len a) (it_off a) os = (case io_enter col a of
      Done r mem \<Rightarrow> Some (r, os)
    | Moving rd idx off mem \<Rightarrow> osd_write_loop ops g col mem (it_len a) rd idx off os)"
  by (auto simp: osd_op_write_def io_enter_def split: prod.split OSD_RETURN.split)

lemma io_enter_not_Start [simp]: "io_enter col a \<noteq> Start"
  by (simp add: io_enter_def split: prod.split OSD_RETURN.split)

lemma io_run_read:
  assumes "\<not> it_write a"
  shows "osd_op_read ops g col (it_buf a) (it_len a) (it_off a) os = Some (r, mem, os')
    \<longleftrightarrow> (\<exists>n. io_run n ops g col a Start os = Some (Done r mem, os'))"
  unfolding io_run_Start osd_op_read_enter
  by (cases "io_enter col a") (auto simp: dest: read_loop_run [OF _ assms] run_read_loop [OF _ assms])

lemma io_run_write:
  assumes "it_write a"
  shows "osd_op_write ops g col (it_buf a) (it_len a) (it_off a) os = Some (r, os')
    \<longleftrightarrow> (\<exists>n mem. io_run n ops g col a Start os = Some (Done r mem, os'))"
proof -
  have "(\<exists>n mem. io_run n ops g col a Start os = Some (Done r mem, os'))
      \<longleftrightarrow> (\<exists>n mem. io_run n ops g col a (io_enter col a) os = Some (Done r mem, os'))"
    using io_run_Start [of ops g col a os r _ os'] by metis
  then show ?thesis
    unfolding osd_op_write_enter
    by (cases "io_enter col a") (auto dest: write_loop_run [OF _ assms] run_write_loop [OF _ assms])
qed

section \<open>Every thread finishes\<close>

text \<open>The schedules of \<open>Schedule\<close>, with nothing in between the rounds.\<close>

abbreviation io_turn ::
    "blk_frontend_parameters \<Rightarrow> osd_collection \<Rightarrow> ('t \<Rightarrow> io_task) \<Rightarrow> 't set \<Rightarrow>
     ('t \<Rightarrow> io_pc) \<times> os \<Rightarrow> ('t \<Rightarrow> io_pc) \<times> os \<Rightarrow> bool" where
  "io_turn g col a T \<equiv> turn (\<lambda>t. io_round simpleOSD_obj_op g col (a t)) T"

fun rounds_left :: "io_task \<Rightarrow> io_pc \<Rightarrow> nat" where
  "rounds_left a Start = unat (it_len a) + 2"
| "rounds_left a (Moving rd idx off mem) = Suc (unat (it_len a) - unat rd)"
| "rounds_left a (Done r mem) = 0"

definition live_inv :: "blk_frontend_parameters \<Rightarrow> osd_collection \<Rightarrow> ('t \<Rightarrow> io_task) \<Rightarrow> 't set \<Rightarrow>
    ('t \<Rightarrow> io_pc) \<Rightarrow> os \<Rightarrow> bool" where
  "live_inv g col a T pcs os \<longleftrightarrow> finite T \<and> volume_ready g col os \<and> vol_live g col os
     \<and> (\<forall>t. task_ok col (a t) \<and> \<not> failed (pcs t) \<and> pc_place col (a t) (pcs t)
           \<and> length (pc_mem (a t) (pcs t)) = length (it_buf (a t)))"

fun returned :: "io_pc \<Rightarrow> bool" where
  "returned (Done r mem) \<longleftrightarrow> r = OSD_SUCCESS"
| "returned pc \<longleftrightarrow> False"

lemma returned_iff: "returned pc \<longleftrightarrow> (\<exists>mem. pc = Done OSD_SUCCESS mem)"
  by (cases pc) auto

lemma round_effect_length:
  assumes "round_effect g col a pc os pc' os'" and "task_ok col a"
    and "length (pc_mem a pc) = length (it_buf a)"
  shows "length (pc_mem a pc') = length (it_buf a)"
proof -
  have "moved a pc \<le> moved a pc'" "moved a pc' \<le> unat (it_len a)"
    using assms(1) moved_le [of col a pc'] by (simp_all add: round_effect_def Let_def)
  then show ?thesis using assms by (auto simp: round_effect_def Let_def task_ok_def split: if_splits)
qed

lemma round_effect_left:
  assumes step: "io_round ops g col a pc os = Some (pc', os')" and place: "pc_place col a pc"
    and place': "pc_place col a pc'" and nf: "\<not> failed pc'"
  shows "rounds_left a pc' < rounds_left a pc"
proof (cases pc)
  case Start
  with step have "pc' = io_enter col a" by (auto simp: io_round_def split: if_splits)
  then show ?thesis using Start by (auto simp: io_enter_def split: prod.split OSD_RETURN.split)
next
  case (Moving rd idx off mem)
  show ?thesis
  proof (cases "rd = it_len a")
    case True
    then show ?thesis using step Moving by (auto simp: io_round_def split: if_splits)
  next
    case False
    define n where "n = piece_len (oc_object_size col) (it_len a) rd off"
    obtain "0 < unat n" "unat rd + unat n \<le> unat (it_len a)" "unat (rd + n) = unat rd + unat n"
      using piece_place [OF place [unfolded Moving] False, folded n_def] by metis
    moreover have "\<exists>mem2. pc' = Moving (rd + n) (idx + 1) 0 mem2"
      using step False nf Moving by (auto simp: io_round_def Let_def n_def split: if_splits)
    ultimately show ?thesis using Moving by auto
  qed
qed (use step in \<open>auto simp: io_round_def split: if_splits\<close>)

lemma live_round:
  assumes inv: "live_inv g col a T pcs os" and nd: "\<And>r m. pcs t \<noteq> Done r m"
  shows "\<exists>pc' os'. io_round simpleOSD_obj_op g col (a t) (pcs t) os = Some (pc', os')
    \<and> live_inv g col a T (pcs(t := pc')) os' \<and> rounds_left (a t) pc' < rounds_left (a t) (pcs t)"
proof -
  have pre: "volume_ready g col os" "task_ok col (a t)" "pc_place col (a t) (pcs t)"
    "length (pc_mem (a t) (pcs t)) = length (it_buf (a t))" "vol_live g col os"
    using inv by (simp_all add: live_inv_def)
  obtain pc' os' where step: "io_round simpleOSD_obj_op g col (a t) (pcs t) os = Some (pc', os')"
    and nf: "\<not> failed pc'" and eff: "round_effect g col (a t) (pcs t) os pc' os'" and live: "vol_live g col os'"
    using io_round_effect [OF pre(1-4) nd] pre(5) by blast
  have place': "pc_place col (a t) pc'" "volume_ready g col os'"
    using eff by (simp_all add: round_effect_def Let_def)
  have "live_inv g col a T (pcs(t := pc')) os'"
    using inv nf live place' round_effect_length [OF eff pre(2,4)] by (simp add: live_inv_def)
  with step round_effect_left [OF step pre(3) place'(1) nf] show ?thesis by blast
qed

interpretation io_threads: bounded_threads "\<lambda>t. io_round simpleOSD_obj_op g col (a t)" T
    "\<lambda>t. rounds_left (a t)" "live_inv g col a T" returned
    for g col and a :: "'t \<Rightarrow> io_task" and T
proof
  fix pcs :: "'t \<Rightarrow> io_pc" and os :: os and t pc' os'
  assume inv: "live_inv g col a T pcs os"
  show "finite T" using inv by (simp add: live_inv_def)
  show "live_inv g col a T (pcs(t := pc')) os' \<and> rounds_left (a t) pc' < rounds_left (a t) (pcs t)"
    if "io_round simpleOSD_obj_op g col (a t) (pcs t) os = Some (pc', os')"
  proof -
    have "pcs t \<noteq> Done r m" for r m using that by (auto simp: io_round_def split: if_splits)
    from live_round [OF inv this] that show ?thesis by simp
  qed
  show "\<exists>u\<in>T. io_round simpleOSD_obj_op g col (a u) (pcs u) os \<noteq> None" if "t \<in> T" "\<not> returned (pcs t)"
  proof -
    have "\<not> failed (pcs t)" using inv by (simp add: live_inv_def)
    then have "pcs t \<noteq> Done r m" for r m using that(2) by auto
    from live_round [OF inv this] that(1) show ?thesis by blast
  qed
qed

lemma live_inv_start:
  assumes "volume_ready g col os" and "vol_live g col os" and "\<And>t. task_ok col (a t)" and "finite T"
  shows "live_inv g col a T (\<lambda>_. Start) os"
  using assms by (simp add: live_inv_def)

lemma io_turns_race: "(io_turn g col a T)\<^sup>*\<^sup>* s s' \<Longrightarrow> (io_race g col a)\<^sup>*\<^sup>* s s'"
proof (induction rule: rtranclp_induct)
  case (step y z)
  from step.hyps(2) have "io_race g col a y z" by cases (auto intro: io_race.thread)
  with step.IH show ?case by simp
qed simp

text \<open>What the invariant says of the requests that have returned success.\<close>

lemma io_inv_isolated:
  assumes inv: "io_inv g col a (flat g col os0) pcs os" and ok: "\<And>t. task_ok col (a t)"
  shows "(\<forall>t mem. pcs t = Done OSD_SUCCESS mem \<longrightarrow>
        (if it_write (a t)
         then flat_read (flat g col os) (unat (it_off (a t))) (unat (it_len (a t)))
                = take (unat (it_len (a t))) (it_buf (a t))
         else mem = splice_at (it_buf (a t)) 0
                (flat_read (flat g col os0) (unat (it_off (a t))) (unat (it_len (a t))))))
    \<and> (\<forall>x. (\<forall>t. it_write (a t) \<longrightarrow> \<not> (unat (it_off (a t)) \<le> x
              \<and> x < unat (it_off (a t)) + unat (it_len (a t)))) \<longrightarrow> flat g col os x = flat g col os0 x)
    \<and> volume_ready g col os"
proof -
  have th: "\<And>t. thread_ok col (flat g col os0) (a t) (pcs t)"
    and con: "content_ok a (flat g col os0) pcs (flat g col os)" using inv by (simp_all add: io_inv_def)
  have "flat_read (flat g col os) (unat (it_off (a t))) (unat (it_len (a t)))
      = take (unat (it_len (a t))) (it_buf (a t))"
    if "pcs t = Done OSD_SUCCESS mem" "it_write (a t)" for t mem
  proof (rule nth_equalityI)
    fix i assume "i < length (flat_read (flat g col os) (unat (it_off (a t))) (unat (it_len (a t))))"
    then have i: "i < unat (it_len (a t))" by simp
    then have "behind (a t) (pcs t) (unat (it_off (a t)) + i)" using that(1) by (simp add: behind_def)
    then have "flat g col os (unat (it_off (a t)) + i) = it_buf (a t) ! i"
      using con that(2) unfolding content_ok_def by fastforce
    then show "flat_read (flat g col os) (unat (it_off (a t))) (unat (it_len (a t))) ! i
        = take (unat (it_len (a t))) (it_buf (a t)) ! i" using i by (simp add: flat_read_nth)
  qed (use ok [of t] in \<open>simp add: task_ok_def\<close>)
  moreover have "mem = splice_at (it_buf (a t)) 0
      (flat_read (flat g col os0) (unat (it_off (a t))) (unat (it_len (a t))))"
    if "pcs t = Done OSD_SUCCESS mem" "\<not> it_write (a t)" for t mem
    using that th [of t] by (simp add: thread_ok_def)
  moreover have "flat g col os x = flat g col os0 x"
    if "\<forall>t. it_write (a t) \<longrightarrow> \<not> (unat (it_off (a t)) \<le> x
        \<and> x < unat (it_off (a t)) + unat (it_len (a t)))" for x
  proof -
    have "\<not> behind (a t) (pcs t) x" if "it_write (a t)" for t
      using \<open>\<forall>t. it_write (a t) \<longrightarrow> _\<close> that th [of t] moved_le [of col "a t" "pcs t"]
      by (fastforce simp: behind_def thread_ok_def)
    then show ?thesis using con unfolding content_ok_def by blast
  qed
  ultimately show ?thesis using inv by (simp add: io_inv_def)
qed

section \<open>Properties\<close>



definition ex_tasks :: "bool \<Rightarrow> io_task" where
  "ex_tasks t = (if t then \<lparr>it_write = True, it_buf = [1, 2, 3, 4, 5], it_len = 5, it_off = 2\<rparr>
     else \<lparr>it_write = False, it_buf = [9, 9, 9], it_len = 3, it_off = 8\<rparr>)"

lemma ex_tasks_ok: "task_ok ex_collection (ex_tasks t)" "conflict_free ex_tasks"
  by (simp_all add: ex_tasks_def task_ok_def range_ok_def conflict_free_def overlap_def)

lemma ex_tasks_end:
  "\<exists>pcs os. (io_turn ex_params ex_collection ex_tasks UNIV)\<^sup>*\<^sup>* (\<lambda>_. Start, ex_live_os) (pcs, os)
     \<and> (\<forall>t. \<exists>mem. pcs t = Done OSD_SUCCESS mem)"
  using io_threads.turns_end [OF live_inv_start [where a = ex_tasks and T = UNIV, OF ex_live ex_tasks_ok(1)]]
  by (auto simp: returned_iff)




end
