(* ===== verification/Cache_Threads.thy ===== *)
theory Cache_Threads
  imports Cache_Props Volume_Threads
begin

text \<open>
  Threads in the two functions of the object layer with \<open>RECACHE_FD_ENABLED\<close>: the descriptor cache of
  the collection is shared and has no lock, as the comment in \<open>osd_recache_object\<close> says. A round of a
  loop is cut between the lookup, which may close the descriptor in the slot and open another, and
  the transfer through the slot. Threads whose objects have slots of their own cannot disturb each
  other; two objects of one slot can be taken for each other.
\<close>

section \<open>A round in two steps\<close>

text \<open>\<open>Found\<close>: the slot has been checked or recached for this round, the transfer is next.\<close>

datatype cached_pc =
    At io_pc
  | Found u64 i32 u64 bytes

text \<open>The transfer goes through \<open>p_current_obj\<close>, which points into the shared cache.\<close>

definition cached_transfer_read ::
    "obj_op_func \<Rightarrow> io_task \<Rightarrow> u64 \<Rightarrow> i32 \<Rightarrow> u64 \<Rightarrow> bytes \<Rightarrow> osd_collection \<times> os
       \<Rightarrow> (cached_pc \<times> osd_collection \<times> os) option" where
  "cached_transfer_read ops a buf_read idx osd_offset mem s =
     (case s of (col, os) \<Rightarrow>
        let n = piece_len (oc_object_size col) (it_len a) buf_read osd_offset in
        map_option (\<lambda>(r, obj, mem2, os2).
            if r \<noteq> OBJ_SUCCESS
            then (case osd_reset_cache_object obj os2 of (_, obj3, os3) \<Rightarrow>
                   (At (Done OSD_ERROR mem2), cache_entry col (current_index idx) obj3, os3))
            else (At (Moving (buf_read + n) (idx + 1) 0 mem2), cache_entry col (current_index idx) obj, os2))
          (obj_pfn_offset_read ops (oc_object_attr_cache col (current_index idx)) mem (unat buf_read) n osd_offset os))"

definition cached_transfer_write ::
    "obj_op_func \<Rightarrow> io_task \<Rightarrow> u64 \<Rightarrow> i32 \<Rightarrow> u64 \<Rightarrow> bytes \<Rightarrow> osd_collection \<times> os
       \<Rightarrow> (cached_pc \<times> osd_collection \<times> os) option" where
  "cached_transfer_write ops a buf_written idx osd_offset mem s =
     (case s of (col, os) \<Rightarrow>
        let n = piece_len (oc_object_size col) (it_len a) buf_written osd_offset in
        map_option (\<lambda>(r, obj, os2).
            if r \<noteq> OBJ_SUCCESS
            then (case osd_reset_cache_object obj os2 of (_, obj3, os3) \<Rightarrow>
                   (At (Done OSD_ERROR mem), cache_entry col (current_index idx) obj3, os3))
            else (At (Moving (buf_written + n) (idx + 1) 0 mem), cache_entry col (current_index idx) obj, os2))
          (obj_pfn_offset_write ops (oc_object_attr_cache col (current_index idx)) mem (unat buf_written) n osd_offset os))"

fun cached_step ::
    "obj_op_func \<Rightarrow> blk_frontend_parameters \<Rightarrow> io_task \<Rightarrow> cached_pc \<Rightarrow> osd_collection \<times> os
       \<Rightarrow> (cached_pc \<times> osd_collection \<times> os) option" where
  "cached_step ops g a (At Start) (col, os) = Some (At (io_enter col a), col, os)"
| "cached_step ops g a (At (Moving rd idx osd_offset mem)) (col, os) =
     (if rd = it_len a then Some (At (Done OSD_SUCCESS mem), col, os)
      else map_option (\<lambda>(r, col1, os1).
             (if r \<noteq> OSD_SUCCESS then At (Done OSD_ERROR mem) else Found rd idx osd_offset mem, col1, os1))
           (cached_object g col idx os))"
| "cached_step ops g a (At (Done r mem)) s = None"
| "cached_step ops g a (Found rd idx osd_offset mem) s =
     (if it_write a then cached_transfer_write ops a rd idx osd_offset mem s
      else cached_transfer_read ops a rd idx osd_offset mem s)"

text \<open>All threads, in any order.\<close>

abbreviation cached_race ::
    "blk_frontend_parameters \<Rightarrow> ('t \<Rightarrow> io_task) \<Rightarrow> ('t \<Rightarrow> cached_pc) \<times> osd_collection \<times> os
       \<Rightarrow> ('t \<Rightarrow> cached_pc) \<times> osd_collection \<times> os \<Rightarrow> bool" where
  "cached_race g a \<equiv> turn (\<lambda>t. cached_step simpleOSD_obj_op g (a t)) UNIV"

text \<open>The two steps of a round with nothing in between are the piece of \<open>Osd_Cached\<close>.\<close>

lemma cached_object_size:
  "cached_object g col idx os = Some (r, col1, os1) \<Longrightarrow> \<exists>e. col1 = cache_entry col (current_index idx) e"
  by (auto simp: cached_object_def Let_def split: prod.splits OSD_RETURN.splits option.splits if_splits
      intro: exI [of _ "oc_object_attr_cache col (current_index idx)"])

definition cached_both ::
    "obj_op_func \<Rightarrow> blk_frontend_parameters \<Rightarrow> io_task \<Rightarrow> cached_pc \<Rightarrow> osd_collection \<times> os
       \<Rightarrow> (cached_pc \<times> osd_collection \<times> os) option" where
  "cached_both ops g a pc s = Option.bind (cached_step ops g a pc s) (\<lambda>(pc1, s1).
     case pc1 of At _ \<Rightarrow> Some (pc1, s1) | Found _ _ _ _ \<Rightarrow> cached_step ops g a pc1 s1)"

lemma cached_both_read:
  assumes "\<not> it_write a" and "rd \<noteq> it_len a"
  shows "cached_both ops g a (At (Moving rd idx off mem)) (col, os)
     = (let n = piece_len (oc_object_size col) (it_len a) rd off in map_option (\<lambda>(r, mem2, s).
            (At (if r \<noteq> OSD_SUCCESS then Done OSD_ERROR mem2 else Moving (rd + n) (idx + 1) 0 mem2), s))
         (cached_read_piece ops g mem (unat rd) n idx off (col, os)))"
proof (cases "cached_object g col idx os")
  case (Some x)
  obtain r col1 os1 where x: "x = (r, col1, os1)" by (cases x)
  obtain e where "col1 = cache_entry col (current_index idx) e" using cached_object_size Some x by blast
  then show ?thesis
    using Some x assms(1,2) by (auto simp: cached_both_def cached_read_piece_def cached_transfer_read_def Let_def
      map_option_case split: prod.split Option.bind_split option.split)
qed (use assms(1,2) in \<open>simp add: cached_both_def cached_read_piece_def Let_def\<close>)

lemma cached_both_write:
  assumes "it_write a" and "rd \<noteq> it_len a"
  shows "cached_both ops g a (At (Moving rd idx off mem)) (col, os)
     = (let n = piece_len (oc_object_size col) (it_len a) rd off in map_option (\<lambda>(r, s).
            (At (if r \<noteq> OSD_SUCCESS then Done OSD_ERROR mem else Moving (rd + n) (idx + 1) 0 mem), s))
         (cached_write_piece ops g mem (unat rd) n idx off (col, os)))"
proof (cases "cached_object g col idx os")
  case (Some x)
  obtain r col1 os1 where x: "x = (r, col1, os1)" by (cases x)
  obtain e where "col1 = cache_entry col (current_index idx) e" using cached_object_size Some x by blast
  then show ?thesis
    using Some x assms(1,2) by (auto simp: cached_both_def cached_write_piece_def cached_transfer_write_def Let_def
      map_option_case split: prod.split Option.bind_split option.split)
qed (use assms(1,2) in \<open>simp add: cached_both_def cached_write_piece_def Let_def\<close>)

section \<open>A slot that has been looked up\<close>

definition slot_holds :: "blk_frontend_parameters \<Rightarrow> osd_collection \<Rightarrow> os \<Rightarrow> i32 \<Rightarrow> bool" where
  "slot_holds g col os idx \<longleftrightarrow> (let e = oc_object_attr_cache col (current_index idx) in
     oa_object_index e = idx \<and> os_files os (dc_data_path g (oc_name col) (oa_oid e)) \<noteq> None)"

abbreviation files_kept :: "os \<Rightarrow> os \<Rightarrow> bool" where
  "files_kept os os' \<equiv> (\<forall>p. os_files os p \<noteq> None \<longrightarrow> os_files os' p \<noteq> None)"

lemma slot_holds_frame:
  assumes "slot_holds g col os idx" and "oc_name col' = oc_name col" and "files_kept os os'"
    and "oc_object_attr_cache col' (current_index idx) = oc_object_attr_cache col (current_index idx)"
  shows "slot_holds g col' os' idx"
  using assms by (simp add: slot_holds_def Let_def)

lemma slot_holds_serves:
  assumes "slot_holds g col os (of_nat i)" and "volume_ready g col os" and "cache_ok g col os" and "i < onb col"
  shows "serves g col os (oc_object_attr_cache col (current_index (of_nat i))) i"
proof -
  have "entry_ok g col os (oc_object_attr_cache col (current_index (of_nat i)))"
    using assms(2-4) current_index_lt [of g col i] by (simp add: cache_ok_def slots_ok_def volume_ready_def)
  then show ?thesis
    using cached_object_hit [OF assms(2) _ assms(4)] assms(1) by (auto simp: slot_holds_def Let_def)
qed

lemma recache_holds:
  assumes geo: "geometry_ok g col" and lf: "locks_free os" and ok: "objects_ok g col os" and i: "i < onb col"
    and run: "osd_recache_object g col e (of_nat i) os = Some (OSD_SUCCESS, obj, os')"
  shows "oa_object_index obj = of_nat i \<and> os_files os' (dc_data_path g (oc_name col) (oa_oid obj)) \<noteq> None
    \<and> files_kept os os'"
proof -
  obtain os1 where run1: "osd_recache_object g col zero_object_attr (of_nat i) os1 = Some (OSD_SUCCESS, obj, os')"
    and os1: "os_files os1 = os_files os" "os_mutex os1 = os_mutex os"
  proof (cases "oa_file_fd e > RESERVED_FDS")
    case True
    obtain rc os1 where c: "sys_close (oa_file_fd e) os = (rc, os1)" by (cases "sys_close (oa_file_fd e) os")
    then have "osd_recache_object g col zero_object_attr (of_nat i) os1 = Some (OSD_SUCCESS, obj, os')"
      using run True by (simp add: recache_old [of g col e] split: if_splits)
    moreover have "os_files os1 = os_files os" "os_mutex os1 = os_mutex os"
      using c by (auto simp: sys_close_eq split: if_splits)
    ultimately show ?thesis by (rule that)
  next
    case False
    then show ?thesis using run by (intro that [of os]) (simp_all add: recache_old [of g col e])
  qed
  have lf1: "locks_free os1" using lf os1(2) by (simp add: locks_free_def)
  from recache_object_effect [OF geo lf1, of i] run1 obtain fd where
    q: "quiet (obj_file g col i) os1 os'" and sz: "sized (obj_file g col i) (osz col) os1 os'"
    and obj: "obj = (opened_attr col i os1)\<lparr>oa_file_fd := int fd\<rparr>" by auto
  have "dc_data_path g (oc_name col) (oa_oid obj) = obj_file g col i" "oa_object_index obj = of_nat i"
    by (simp_all add: obj opened_attr_def obj_file_def)
  moreover have "os_files os' (obj_file g col i) \<noteq> None"
  proof (cases "os_files os1 (obj_file g col i)")
    case (Some b)
    then have "osz col \<le> length b" using ok i os1(1) by (auto simp: objects_ok_def)
    then show ?thesis using sz Some by (simp add: sized_def)
  qed (use sz in \<open>simp add: sized_def\<close>)
  moreover from this have "files_kept os os'"
    using q os1(1) unfolding quiet_def by metis
  ultimately show ?thesis by simp
qed

text \<open>A lookup that succeeds changes one slot, and that slot holds the object afterwards.\<close>

lemma cached_object_holds:
  assumes rdy: "volume_ready g col os" and cache: "cache_ok g col os" and i: "i < onb col"
    and run: "cached_object g col (of_nat i) os = Some (OSD_SUCCESS, col1, os1)"
  shows "slot_holds g col1 os1 (of_nat i) \<and> files_kept os os1
    \<and> (\<exists>e. col1 = cache_entry col (current_index (of_nat i)) e)"
proof -
  let ?n = "current_index (of_nat i)"
  let ?e = "oc_object_attr_cache col ?n"
  have geo: "geometry_ok g col" and ok: "objects_ok g col os" and lf: "locks_free os"
    using rdy by (simp_all add: volume_ready_def)
  have "entry_ok g col os ?e"
    using cache current_index_lt [OF geo i] by (simp add: cache_ok_def slots_ok_def)
  then have path: "osd_object_to_dc_path g (Some (oc_name col)) (Some (oa_oid ?e)) (Some [])
      = (OSD_SUCCESS, Some (dc_data_path g (oc_name col) (oa_oid ?e)))"
    using geo by (simp add: osd_object_to_dc_path_fits entry_ok_def geometry_ok_def)
  have col1: "\<exists>e. col1 = cache_entry col ?n e" using cached_object_size [OF run] .
  show ?thesis
  proof (cases "oa_object_index ?e = of_nat i \<and> choice os \<noteq> Fail
      \<and> os_files os (dc_data_path g (oc_name col) (oa_oid ?e)) \<noteq> None")
    case True
    then have "col1 = col" "os1 = adv os" using run path by (auto simp: cached_object_def Let_def sys_stat_eq)
    then show ?thesis using True col1 by (simp add: slot_holds_def Let_def)
  next
    case False
    define os0 where "os0 = (if oa_object_index ?e = of_nat i then adv os else os)"
    have os0: "os_files os0 = os_files os" "locks_free os0" "objects_ok g col os0"
      using lf ok by (simp_all add: os0_def objects_ok_def)
    obtain obj where obj: "osd_recache_object g col ?e (of_nat i) os0 = Some (OSD_SUCCESS, obj, os1)"
      and "col1 = cache_entry col ?n obj"
      using run path False by (auto simp: cached_object_def Let_def sys_stat_eq os0_def split: if_splits)
    then show ?thesis
      using recache_holds [OF geo os0(2,3) i obj] os0(1) by (auto simp: slot_holds_def Let_def)
  qed
qed

section \<open>Threads with slots of their own\<close>

fun plain :: "cached_pc \<Rightarrow> io_pc" where
  "plain (At pc) = pc"
| "plain (Found rd idx off mem) = Moving rd idx off mem"

text \<open>The slots of the objects a request touches.\<close>

definition task_slots :: "osd_collection \<Rightarrow> io_task \<Rightarrow> nat set" where
  "task_slots col a = (\<lambda>i. i mod NBMAXOBJECTS)
     ` {unat (it_off a) div osz col..(unat (it_off a) + (unat (it_len a) - 1)) div osz col}"

definition slots_apart :: "osd_collection \<Rightarrow> ('t \<Rightarrow> io_task) \<Rightarrow> bool" where
  "slots_apart col a \<longleftrightarrow> (\<forall>t u. t \<noteq> u \<longrightarrow> task_slots col (a t) \<inter> task_slots col (a u) = {})"

lemma slots_apart_conflict_free:
  assumes "slots_apart col a"
  shows "conflict_free a"
proof -
  have left: "task_slots col x \<inter> task_slots col y \<noteq> {}"
    if "unat (it_off x) \<le> unat (it_off y)" "unat (it_off y) < unat (it_off x) + unat (it_len x)" for x y
  proof -
    have "unat (it_off y) div osz col mod NBMAXOBJECTS \<in> task_slots col x \<inter> task_slots col y"
      using that by (auto simp: task_slots_def intro!: imageI div_le_mono)
    then show ?thesis by blast
  qed
  have "task_slots col (a t) \<inter> task_slots col (a u) \<noteq> {}" if "overlap (a t) (a u)" for t u
    using that left [of "a t" "a u"] left [of "a u" "a t"] by (force simp: overlap_def)
  then show ?thesis using assms unfolding conflict_free_def slots_apart_def by metis
qed

lemma place_slot:
  assumes geo: "geometry_ok g col" and place: "pc_place col a (Moving rd idx off mem)" and ne: "rd \<noteq> it_len a"
  shows "current_index idx \<in> task_slots col a"
proof -
  obtain i where i: "idx = of_nat i" "i < onb col" "unat off + unat (piece_len (oc_object_size col) (it_len a) rd off) \<le> osz col"
    "0 < unat (piece_len (oc_object_size col) (it_len a) rd off)"
    "unat rd + unat (piece_len (oc_object_size col) (it_len a) rd off) \<le> unat (it_len a)"
    "i * osz col + unat off = unat (it_off a) + unat rd"
    using piece_place [OF place ne] by metis
  then have "unat off < osz col" by linarith
  then have "i = (unat (it_off a) + unat rd) div osz col" using i(6) [symmetric] by (simp add: div_mult_self3)
  moreover have "unat rd \<le> unat (it_len a) - 1" using i(4,5) by linarith
  ultimately have "i \<in> {unat (it_off a) div osz col..(unat (it_off a) + (unat (it_len a) - 1)) div osz col}"
    by (auto intro: div_le_mono)
  then show ?thesis using i(1) current_index_eq [OF geo i(2)] by (auto simp: task_slots_def)
qed

fun found_ok :: "blk_frontend_parameters \<Rightarrow> osd_collection \<Rightarrow> os \<Rightarrow> io_task \<Rightarrow> cached_pc \<Rightarrow> bool" where
  "found_ok g col os a (Found rd idx off mem) \<longleftrightarrow> rd \<noteq> it_len a \<and> slot_holds g col os idx"
| "found_ok g col os a (At pc) \<longleftrightarrow> True"

text \<open>The invariant of \<open>Volume_Threads\<close>, a cache in order, and slots that hold what was found.\<close>

definition cached_inv ::
    "blk_frontend_parameters \<Rightarrow> osd_collection \<Rightarrow> ('t \<Rightarrow> io_task) \<Rightarrow> (nat \<Rightarrow> u8) \<Rightarrow> ('t \<Rightarrow> cached_pc)
       \<Rightarrow> osd_collection \<times> os \<Rightarrow> bool" where
  "cached_inv g col0 a f0 pcs s \<longleftrightarrow> cached_ready g col0 s \<and> io_inv g col0 a f0 (\<lambda>t. plain (pcs t)) (snd s)
     \<and> (\<forall>t. found_ok g (fst s) (snd s) (a t) (pcs t))"

text \<open>One step of one thread.\<close>

definition step_effect ::
    "blk_frontend_parameters \<Rightarrow> osd_collection \<Rightarrow> io_task \<Rightarrow> cached_pc \<Rightarrow> osd_collection \<times> os
       \<Rightarrow> cached_pc \<Rightarrow> osd_collection \<times> os \<Rightarrow> bool" where
  "step_effect g col0 a pc s pc' s' \<longleftrightarrow> cached_ready g col0 s'
     \<and> round_effect g col0 a (plain pc) (snd s) (plain pc') (snd s') \<and> files_kept (snd s) (snd s')
     \<and> found_ok g (fst s') (snd s') a pc'
     \<and> (fst s' = fst s \<or> (\<exists>n e. n \<in> task_slots col0 a \<and> fst s' = cache_entry (fst s) n e))"

lemma lookup_effect:
  assumes rdy: "cached_ready g col0 s" and place: "pc_place col0 a (Moving rd idx off mem)" and ne: "rd \<noteq> it_len a"
    and run: "cached_step simpleOSD_obj_op g a (At (Moving rd idx off mem)) s = Some (pc', s')"
    and nf: "\<not> failed (plain pc')"
  shows "step_effect g col0 a (At (Moving rd idx off mem)) s pc' s'"
proof -
  obtain c os where s: "s = (col0\<lparr>oc_object_attr_cache := c\<rparr>, os)"
    using rdy by (cases s) (auto simp: cached_ready_def)
  let ?col = "col0\<lparr>oc_object_attr_cache := c\<rparr>"
  have vr: "volume_ready g ?col os" and ck: "cache_ok g ?col os" and vr0: "volume_ready g col0 os"
    using rdy by (simp_all add: cached_ready_def s)
  have geo: "geometry_ok g col0" using vr0 by (simp add: volume_ready_def)
  obtain i where i: "idx = of_nat i" "i < onb col0" using piece_place [OF place ne] by metis
  obtain col1 os1 where look: "cached_object g ?col (of_nat i) os = Some (OSD_SUCCESS, col1, os1)"
    and s': "s' = (col1, os1)" and pc': "pc' = Found rd idx off mem"
    using run nf ne by (auto simp: s i(1) split: if_splits)
  note holds = cached_object_holds [OF vr ck _ look]
  have "cached_result g (?col, os) OSD_SUCCESS (col1, os1)" and fl: "flat g col0 os1 = flat g col0 os"
    using cached_object_effect [OF vr ck, of i] i(2) look by auto
  then have "cached_ready g ?col (col1, os1)"
    using vr cached_result_ready [of g ?col os col1 os1]
    by (auto simp: cached_ready_def cached_result_def volume_ready_def locks_free_def)
  then have rdy': "cached_ready g col0 (col1, os1)" by (auto simp: cached_ready_def)
  moreover have "round_effect g col0 a (Moving rd idx off mem) os (Moving rd idx off mem) os1"
    using rdy' place fl by (simp add: round_effect_def cached_ready_def flat_read_def)
  ultimately show ?thesis
    using holds i ne place_slot [OF geo place ne] by (auto simp: step_effect_def s s' pc')
qed

text \<open>What has been found is an open file with the bytes of the object.\<close>

lemma found_open:
  assumes rdy: "cached_ready g col0 (col, os)" and fnd: "found_ok g col os a (Found rd idx off mem)"
    and place: "pc_place col0 a (Moving rd idx off mem)"
  defines "n \<equiv> piece_len (oc_object_size col0) (it_len a) rd off"
  obtains i b where "i < onb col0" "unat off + unat n \<le> osz col0"
    "unat rd + unat n \<le> unat (it_len a)" "unat (rd + n) = unat rd + unat n"
    "i * osz col0 + unat off = unat (it_off a) + unat rd"
    "\<And>mem2. pc_place col0 a (Moving (rd + n) (idx + 1) 0 mem2)"
    "obj_open os (oc_object_attr_cache col (current_index idx)) (obj_file g col0 i) b" "osz col0 \<le> length b"
    "\<And>k. k < osz col0 \<Longrightarrow> b ! k = flat g col0 os (i * osz col0 + k)"
proof -
  obtain c where col: "col = col0\<lparr>oc_object_attr_cache := c\<rparr>" using rdy by (auto simp: cached_ready_def)
  have vr: "volume_ready g col os" and ck: "cache_ok g col os" using rdy by (simp_all add: cached_ready_def col)
  have ne: "rd \<noteq> it_len a" using fnd by simp
  obtain i where i: "idx = of_nat i" "i < onb col0" "unat off + unat n \<le> osz col0"
    "unat rd + unat n \<le> unat (it_len a)" "unat (rd + n) = unat rd + unat n"
    "i * osz col0 + unat off = unat (it_off a) + unat rd"
    and next_place: "\<And>mem2. pc_place col0 a (Moving (rd + n) (idx + 1) 0 mem2)"
    using piece_place [OF place ne, folded n_def] by (metis pc_place.simps(1))
  have "serves g col os (oc_object_attr_cache col (current_index idx)) i"
    using slot_holds_serves [of g col os i] fnd vr ck i(1,2) by (simp add: col)
  then obtain b where "obj_open os (oc_object_attr_cache col (current_index idx)) (obj_file g col0 i) b"
    "osz col0 \<le> length b" "\<forall>k < osz col0. b ! k = flat g col0 os (i * osz col0 + k)"
    by (auto simp: serves_def col)
  then show thesis by (intro that [OF i(2-6) next_place]) auto
qed

text \<open>A transfer that succeeds leaves slot and descriptors as they are.\<close>

lemma transfer_done:
  assumes rdy: "cached_ready g col0 (col, os)" and res: "obj_result os (oc_object_attr_cache col n) OBJ_SUCCESS obj2 os2"
    and ok: "objects_ok g col0 os2"
  shows "cache_entry col n obj2 = col" "cached_ready g col0 (col, os2)"
proof -
  have same: "obj2 = oc_object_attr_cache col n" "os_fds os2 = os_fds os" "os_mutex os2 = os_mutex os"
    using res by (simp_all add: obj_result_def)
  then show "cache_entry col n obj2 = col" by simp
  show "cached_ready g col0 (col, os2)"
    using rdy same(2,3) ok cache_ok_fds [of os2 os]
    by (auto simp: cached_ready_def volume_ready_def locks_free_def)
qed

lemma found_read:
  assumes rdy: "cached_ready g col0 (col, os)" and fnd: "found_ok g col os a (Found rd idx off mem)"
    and place: "pc_place col0 a (Moving rd idx off mem)" and mem: "unat (it_len a) \<le> length mem"
    and rdr: "\<not> it_write a"
    and run: "cached_step simpleOSD_obj_op g a (Found rd idx off mem) (col, os) = Some (pc', s')"
    and nf: "\<not> failed (plain pc')"
  shows "step_effect g col0 a (Found rd idx off mem) (col, os) pc' s'"
proof -
  define n where "n = piece_len (oc_object_size col0) (it_len a) rd off"
  have size: "oc_object_size col = oc_object_size col0" using rdy by (auto simp: cached_ready_def)
  obtain i b where i: "i < onb col0" "unat off + unat n \<le> osz col0"
    "unat rd + unat n \<le> unat (it_len a)" "unat (rd + n) = unat rd + unat n"
    "i * osz col0 + unat off = unat (it_off a) + unat rd"
    "\<And>mem2. pc_place col0 a (Moving (rd + n) (idx + 1) 0 mem2)"
    and op: "obj_open os (oc_object_attr_cache col (current_index idx)) (obj_file g col0 i) b"
    and b: "osz col0 \<le> length b" "\<And>k. k < osz col0 \<Longrightarrow> b ! k = flat g col0 os (i * osz col0 + k)"
    using found_open [OF rdy fnd place, folded n_def] by metis
  have rng: "unat off + unat n \<le> length b" and bm: "unat rd + unat n \<le> length mem"
    using i(2,3) b(1) mem by simp_all
  obtain r2 obj2 os2 k where
    tr: "obj_pfn_offset_read simpleOSD_obj_op (oc_object_attr_cache col (current_index idx)) mem (unat rd) n off os
       = Some (r2, obj2, splice_at mem (unat rd) (slice b (unat off) k), os2)"
    and k: "r2 = OBJ_SUCCESS \<longrightarrow> k = unat n"
    and res: "obj_result os (oc_object_attr_cache col (current_index idx)) r2 obj2 os2"
    and files: "os_files os2 = os_files os"
    using simple_io.read_contract [OF op rng bm] by blast
  have r2: "r2 = OBJ_SUCCESS"
    using run nf rdr tr by (auto simp: cached_transfer_read_def size Let_def n_def [symmetric] split: if_splits prod.splits)
  have d: "slice b (unat off) (unat n) = flat_read (flat g col0 os) (i * osz col0 + unat off) (unat n)"
    using b i(2) by (auto simp: list_eq_iff_nth_eq flat_read_nth add.assoc)
  have "objects_ok g col0 os2" using rdy files by (simp add: cached_ready_def volume_ready_def objects_ok_def)
  note fin = transfer_done [OF rdy res [unfolded r2] this]
  have "pc' = At (Moving (rd + n) (idx + 1) 0 (splice_at mem (unat rd) (slice b (unat off) (unat n))))" "s' = (col, os2)"
    using run rdr tr r2 k fin(1) by (simp_all add: cached_transfer_read_def size Let_def n_def [symmetric])
  then show ?thesis
    using fin(2) i(4-6) d rdr files flat_cong [OF files, of g col0]
    by (simp add: step_effect_def round_effect_def Let_def cached_ready_def)
qed

lemma found_write:
  assumes rdy: "cached_ready g col0 (col, os)" and fnd: "found_ok g col os a (Found rd idx off mem)"
    and place: "pc_place col0 a (Moving rd idx off mem)" and mem: "unat (it_len a) \<le> length mem"
    and wr: "it_write a"
    and run: "cached_step simpleOSD_obj_op g a (Found rd idx off mem) (col, os) = Some (pc', s')"
    and nf: "\<not> failed (plain pc')"
  shows "step_effect g col0 a (Found rd idx off mem) (col, os) pc' s'"
proof -
  define n where "n = piece_len (oc_object_size col0) (it_len a) rd off"
  have size: "oc_object_size col = oc_object_size col0" using rdy by (auto simp: cached_ready_def)
  obtain i b where i: "i < onb col0" "unat off + unat n \<le> osz col0"
    "unat rd + unat n \<le> unat (it_len a)" "unat (rd + n) = unat rd + unat n"
    "i * osz col0 + unat off = unat (it_off a) + unat rd"
    "\<And>mem2. pc_place col0 a (Moving (rd + n) (idx + 1) 0 mem2)"
    and op: "obj_open os (oc_object_attr_cache col (current_index idx)) (obj_file g col0 i) b"
    and b: "osz col0 \<le> length b"
    using found_open [OF rdy fnd place, folded n_def] by metis
  have rng: "unat off + unat n \<le> length b" and bm: "unat rd + unat n \<le> length mem"
    using i(2,3) b(1) mem by simp_all
  obtain r2 obj2 os2 k where
    tr: "obj_pfn_offset_write simpleOSD_obj_op (oc_object_attr_cache col (current_index idx)) mem (unat rd) n off os
       = Some (r2, obj2, os2)"
    and k: "k \<le> unat n" "r2 = OBJ_SUCCESS \<longrightarrow> k = unat n"
    and res: "obj_result os (oc_object_attr_cache col (current_index idx)) r2 obj2 os2"
    and files: "os_files os2 = (os_files os)(obj_file g col0 i \<mapsto> splice_at b (unat off) (slice mem (unat rd) k))"
    using simple_io.write_contract [OF op rng bm] by blast
  have r2: "r2 = OBJ_SUCCESS"
    using run nf wr tr by (auto simp: cached_transfer_write_def size Let_def n_def [symmetric] split: if_splits prod.splits)
  have geo: "geometry_ok g col0" and ok: "objects_ok g col0 os"
    using rdy by (simp_all add: cached_ready_def volume_ready_def)
  have fb: "os_files os (obj_file g col0 i) = Some b" using op by (simp add: obj_open_def)
  have d: "length (slice mem (unat rd) k) = k" using mem i(3) k by simp
  have fl: "flat g col0 os2 = flat_write (flat g col0 os) (i * osz col0 + unat off) (slice mem (unat rd) k)"
    by (rule flat_file_write [OF geo i(1) fb b]) (use d i(2) k files in simp_all)
  have "objects_ok g col0 os2" using objects_ok_splice [OF ok fb _ files] d i(2) b k by simp
  note fin = transfer_done [OF rdy res [unfolded r2] this]
  have "pc' = At (Moving (rd + n) (idx + 1) 0 mem)" "s' = (col, os2)"
    using run wr tr r2 fin(1) by (simp_all add: cached_transfer_write_def size Let_def n_def [symmetric])
  then show ?thesis
    using fin(2) i(4-6) wr fl k r2 files
    by (simp add: step_effect_def round_effect_def Let_def cached_ready_def)
qed

lemma io_enter_cache [simp]: "io_enter (col\<lparr>oc_object_attr_cache := c\<rparr>) a = io_enter col a"
proof -
  have "osd_offset_to_object (col\<lparr>oc_object_attr_cache := c\<rparr>) = osd_offset_to_object col"
    by (simp add: fun_eq_iff osd_offset_to_object_def)
  then show ?thesis by (auto simp: io_enter_def split: prod.split OSD_RETURN.split)
qed

text \<open>Any step of a thread that is in order.\<close>

lemma cached_step_effect:
  assumes rdy: "cached_ready g col0 s" and ok: "task_ok col0 a" and place: "pc_place col0 a (plain pc)"
    and mem: "length (pc_mem a (plain pc)) = length (it_buf a)" and fnd: "found_ok g (fst s) (snd s) a pc"
    and run: "cached_step simpleOSD_obj_op g a pc s = Some (pc', s')" and nf: "\<not> failed (plain pc')"
  shows "step_effect g col0 a pc s pc' s'"
proof -
  obtain col os where s: "s = (col, os)" by (cases s)
  have vr: "volume_ready g col0 os" using rdy by (simp add: cached_ready_def s)
  have len: "unat (it_len a) \<le> length (pc_mem a (plain pc))" using ok mem by (simp add: task_ok_def)
  consider "pc = At Start" | rd idx off m where "pc = At (Moving rd idx off m)" | r m where "pc = At (Done r m)"
    | rd idx off m where "pc = Found rd idx off m"
    by (cases pc rule: plain.cases) (metis io_pc.exhaust)+
  then show ?thesis
  proof cases
    case 1
    have "io_enter col a = io_enter col0 a" using rdy by (auto simp: s cached_ready_def)
    then have "pc' = At (io_enter col0 a)" "s' = s" using run by (auto simp: s 1)
    then show ?thesis using rdy 1 enter_effect [OF vr ok] by (simp add: step_effect_def s)
  next
    case (2 rd idx off m)
    show ?thesis
    proof (cases "rd = it_len a")
      case True
      then have "pc' = At (Done OSD_SUCCESS m)" "s' = s" using run by (simp_all add: s 2)
      then show ?thesis using rdy 2 True done_effect [OF vr] by (simp add: step_effect_def s)
    next
      case False
      then show ?thesis using lookup_effect [OF rdy _ False] run nf place by (simp add: 2)
    qed
  next
    case (3 r m)
    then show ?thesis using run by (simp add: s)
  next
    case (4 rd idx off m)
    then show ?thesis
      using found_read [of g col0 col os a rd idx off m pc' s'] found_write [of g col0 col os a rd idx off m pc' s']
        rdy fnd place len run nf by (cases "it_write a") (simp_all add: s)
  qed
qed

lemma cached_inv_step:
  assumes inv: "cached_inv g col0 a f0 pcs s" and ok: "\<And>t. task_ok col0 (a t)" and apart: "slots_apart col0 a"
    and run: "cached_step simpleOSD_obj_op g (a t) (pcs t) s = Some (pc', s')" and nf: "\<not> failed (plain pc')"
  shows "cached_inv g col0 a f0 (pcs(t := pc')) s'"
proof -
  have rdy: "cached_ready g col0 s" and io: "io_inv g col0 a f0 (\<lambda>t. plain (pcs t)) (snd s)"
    and fnd: "\<And>t. found_ok g (fst s) (snd s) (a t) (pcs t)" using inv by (simp_all add: cached_inv_def)
  have th: "\<And>t. thread_ok col0 f0 (a t) (plain (pcs t))" using io by (simp add: io_inv_def)
  then have place: "\<And>t. pc_place col0 (a t) (plain (pcs t))" by (simp add: thread_ok_def)
  have geo: "geometry_ok g col0" using rdy by (simp add: cached_ready_def volume_ready_def)
  have eff: "step_effect g col0 (a t) (pcs t) s pc' s'"
    by (rule cached_step_effect [OF rdy ok place thread_ok_length [OF th ok] fnd run nf])
  have "io_inv g col0 a f0 ((\<lambda>t. plain (pcs t))(t := plain pc')) (snd s')"
    by (rule io_inv_thread [OF io slots_apart_conflict_free [OF apart] ok _ nf])
       (use eff in \<open>simp add: step_effect_def\<close>)
  moreover have "(\<lambda>t. plain (pcs t))(t := plain pc') = (\<lambda>u. plain ((pcs(t := pc')) u))" by auto
  moreover have "found_ok g (fst s') (snd s') (a u) ((pcs(t := pc')) u)" for u
  proof (cases "u = t")
    case True
    then show ?thesis using eff by (simp add: step_effect_def)
  next
    case False
    show ?thesis
    proof (cases "pcs u")
      case (Found rd idx off mem)
      have h: "rd \<noteq> it_len (a u)" "slot_holds g (fst s) (snd s) idx" using fnd [of u] Found by simp_all
      have "current_index idx \<in> task_slots col0 (a u)"
        using place_slot [OF geo _ h(1)] place [of u] Found by simp
      then have "current_index idx \<notin> task_slots col0 (a t)" using apart False by (auto simp: slots_apart_def)
      then have "oc_object_attr_cache (fst s') (current_index idx) = oc_object_attr_cache (fst s) (current_index idx)"
        "oc_name (fst s') = oc_name (fst s)" "files_kept (snd s) (snd s')"
        using eff by (auto simp: step_effect_def)
      then have "slot_holds g (fst s') (snd s') idx" using slot_holds_frame [OF h(2)] by blast
      then show ?thesis using False Found h(1) by simp
    qed (use False in simp)
  qed
  ultimately show ?thesis using eff by (simp add: cached_inv_def step_effect_def)
qed

lemma failed_stays: "failed (plain pc) \<Longrightarrow> cached_step ops g a pc s = None"
  by (cases pc rule: plain.cases; cases "plain pc") auto

text \<open>As long as no thread has failed the invariant holds.\<close>

lemma cached_race_inv:
  assumes run: "(cached_race g a)\<^sup>*\<^sup>* (\<lambda>_. At Start, col, os0) (pcs, s)"
    and rdy: "volume_ready g col os0" "cache_ok g col os0"
    and ok: "\<And>t. task_ok col (a t)" and apart: "slots_apart col a" and nf: "\<And>t. \<not> failed (plain (pcs t))"
  shows "cached_inv g col a (flat g col os0) pcs s"
proof -
  have "(\<exists>t. failed (plain (pcs t))) \<or> cached_inv g col a (flat g col os0) pcs s"
    using run
  proof (induction "(pcs, s)" arbitrary: pcs s rule: rtranclp_induct)
    case base
    show ?case
      using rdy cached_ready_self [OF rdy]
      by (auto simp: cached_inv_def io_inv_def thread_ok_def content_ok_def behind_def flat_read_def)
  next
    case (step x)
    obtain pcs1 s1 where x: "x = (pcs1, s1)" by (cases x)
    note IH = step.hyps(3) [OF x]
    from step.hyps(2) [unfolded x] show ?case
    proof (cases rule: turn.cases)
      case (turnI t pc')
      show ?thesis
      proof (cases "\<exists>u. failed (plain (pcs1 u))")
        case True
        then obtain u where "failed (plain (pcs1 u))" by blast
        moreover from this turnI(3) have "u \<noteq> t" by (auto simp: failed_stays)
        ultimately show ?thesis using turnI(1) by (metis fun_upd_other)
      next
        case False
        then show ?thesis
          using cached_inv_step [where a = a and pcs = pcs1 and t = t, OF _ ok apart turnI(3)] IH turnI(1) by (metis fun_upd_same)
      qed
    qed
  qed
  with nf show ?thesis by blast
qed

section \<open>Two objects of one slot\<close>

text \<open>A request inside one object that has entered the loop.\<close>

definition inside_object :: "osd_collection \<Rightarrow> io_task \<Rightarrow> nat \<Rightarrow> bool" where
  "inside_object col a i \<longleftrightarrow> unat (it_off a) div osz col = i \<and> it_len a \<noteq> 0
     \<and> unat (it_off a) mod osz col + unat (it_len a) \<le> osz col"

lemma cached_turn:
  "cached_step simpleOSD_obj_op g (a t) (pcs t) s = Some (pc', s') \<Longrightarrow> cached_race g a (pcs, s) (pcs(t := pc'), s')"
  by (rule turnI) simp_all

lemma cached_enter:
  assumes "geometry_ok g col" and "task_ok col a" and "inside_object col a i"
  shows "cached_step ops g a (At Start) (col, os)
    = Some (At (Moving 0 (of_nat i) (of_nat (unat (it_off a) mod osz col)) (it_buf a)), col, os)"
  using assms by (simp add: io_enter_eq [OF assms(1,2)] inside_object_def)

text \<open>An object that is in its slot is found there.\<close>

lemma cached_object_again:
  assumes rdy: "volume_ready g col os" and cache: "cache_ok g col os" and live: "vol_live g col os" and i: "i < onb col"
    and held: "oa_object_index (oc_object_attr_cache col (current_index (of_nat i))) = of_nat i"
  shows "cached_object g col (of_nat i) os = Some (OSD_SUCCESS, col, adv os)"
proof -
  let ?e = "oc_object_attr_cache col (current_index (of_nat i))"
  have geo: "geometry_ok g col" using rdy by (simp add: volume_ready_def)
  have e: "entry_ok g col os ?e"
    using cache current_index_lt [OF geo i] by (simp add: cache_ok_def slots_ok_def)
  have sint: "sint (of_nat j :: i32) = int j" if "j < onb col" for j
    using that geo by (intro sint_of_nat_small) (simp add: geometry_ok_def)
  have "\<not> entry_idle ?e" using sint [OF i] held by (auto simp: entry_idle_def)
  then obtain j where "entry_open g col os ?e j" using e by (auto simp: entry_ok_def)
  then have j: "j < onb col" "oa_object_index ?e = of_nat j" "oa_oid ?e = oid_of_index (oc_start_object col) (of_nat j)"
    unfolding entry_open_def by blast+
  then have "(of_nat j :: i32) = of_nat i" using held by metis
  then have "j = i" using sint [OF i] sint [OF j(1)] by (metis of_nat_eq_iff)
  then have p: "dc_data_path g (oc_name col) (oa_oid ?e) = obj_file g col i" using j(3) by (simp add: obj_file_def)
  have "osd_object_to_dc_path g (Some (oc_name col)) (Some (oa_oid ?e)) (Some []) = (OSD_SUCCESS, Some (obj_file g col i))"
    using e geo by (simp add: osd_object_to_dc_path_fits entry_ok_def geometry_ok_def flip: p)
  moreover have "choice os \<noteq> Fail" "os_files os (obj_file g col i) \<noteq> None"
    using live i by (auto simp: vol_live_def no_faults_choice)
  ultimately show ?thesis using held by (auto simp: cached_object_def Let_def sys_stat_eq)
qed

text \<open>A write whose slot has come to hold object \<open>j\<close> goes to object \<open>j\<close>.\<close>

lemma serves_cache:
  "cached_ready g col0 (col, os) \<Longrightarrow> serves g col = serves g col0"
  by (auto simp: cached_ready_def serves_def fun_eq_iff)

lemma misled_write:
  assumes rdy: "cached_ready g col0 (col, os)" and j: "j < onb col0" and nf: "no_faults os"
    and serve: "serves g col0 os (oc_object_attr_cache col (current_index idx)) j"
    and ok: "task_ok col0 a" and wr: "it_write a" and inside: "inside_object col0 a i"
  defines "o' \<equiv> of_nat (unat (it_off a) mod osz col0) :: u64"
  shows "\<exists>os'. cached_step simpleOSD_obj_op g a (Found 0 idx o' (it_buf a)) (col, os)
      = Some (At (Moving (it_len a) (idx + 1) 0 (it_buf a)), col, os')
    \<and> flat g col0 os' = flat_write (flat g col0 os) (j * osz col0 + unat (it_off a) mod osz col0)
        (take (unat (it_len a)) (it_buf a))"
proof -
  have rng: "range_ok col0 (unat (it_off a)) (unat (it_len a))" and len: "unat (it_len a) \<le> length (it_buf a)"
    using ok by (simp_all add: task_ok_def)
  have ins: "unat (it_off a) mod osz col0 + unat (it_len a) \<le> osz col0" using inside by (simp add: inside_object_def)
  have size: "oc_object_size col = oc_object_size col0" "obj_file g col = obj_file g col0"
    using rdy by (auto simp: cached_ready_def)
  have geo: "geometry_ok g col0" and ok0: "objects_ok g col0 os"
    using rdy by (simp_all add: cached_ready_def volume_ready_def)
  have o: "unat o' = unat (it_off a) mod osz col0" using unat_local_offset [OF rng] by (simp add: o'_def)
  note n = piece_inside [OF rng ins, folded o'_def]
  obtain b where op: "obj_open os (oc_object_attr_cache col (current_index idx)) (obj_file g col0 j) b"
    and b: "osz col0 \<le> length b" using serve by (auto simp: serves_def size)
  have fit: "unat o' + unat (it_len a) \<le> length b" using o ins b by simp
  obtain r2 obj2 os2 where
    tr: "obj_pfn_offset_write simpleOSD_obj_op (oc_object_attr_cache col (current_index idx)) (it_buf a) 0 (it_len a) o' os
       = Some (OBJ_SUCCESS, obj2, os2)"
    and res: "obj_result os (oc_object_attr_cache col (current_index idx)) OBJ_SUCCESS obj2 os2"
    and files: "os_files os2 = (os_files os)(obj_file g col0 j \<mapsto> splice_at b (unat o') (slice (it_buf a) 0 (unat (it_len a))))"
    using simple_io.write_contract [OF op fit, of 0 "it_buf a"] len nf by (fastforce simp: obj_result_def)
  have fb: "os_files os (obj_file g col0 j) = Some b" using op by (simp add: obj_open_def)
  have d: "length (slice (it_buf a) 0 (unat (it_len a))) = unat (it_len a)" using len by simp
  have "flat g col0 os2 = flat_write (flat g col0 os) (j * osz col0 + unat o') (slice (it_buf a) 0 (unat (it_len a)))"
    by (rule flat_file_write [OF geo j fb b]) (use d o ins files in simp_all)
  moreover have "objects_ok g col0 os2" using objects_ok_splice [OF ok0 fb _ files] d fit by simp
  note transfer_done(1) [OF rdy res this]
  ultimately show ?thesis
    using tr wr n by (simp add: cached_transfer_write_def size Let_def o slice_def)
qed

text \<open>The schedule: thread \<open>True\<close> looks up, thread \<open>False\<close> looks up, thread \<open>True\<close> transfers.\<close>

lemma misled_schedule:
  fixes a :: "bool \<Rightarrow> io_task" and i j :: nat and col :: osd_collection
  defines "o' \<equiv> of_nat (unat (it_off (a True)) mod osz col) :: u64"
  assumes geo: "geometry_ok g col" and ok: "\<And>t. task_ok col (a t)"
    and ins: "inside_object col (a True) i" "inside_object col (a False) j"
    and look: "cached_object g col (of_nat i) os = Some (OSD_SUCCESS, col, os1)"
    and look2: "cached_object g col (of_nat j) os1 = Some (OSD_SUCCESS, col2, os2)"
    and move: "cached_step simpleOSD_obj_op g (a True) (Found 0 (of_nat i) o' (it_buf (a True))) (col2, os2)
      = Some (At (Moving (it_len (a True)) (of_nat i + 1) 0 (it_buf (a True))), col2, os3)"
  shows "\<exists>pcs. (cached_race g a)\<^sup>*\<^sup>* (\<lambda>_. At Start, col, os) (pcs, col2, os3)
    \<and> pcs True = At (Done OSD_SUCCESS (it_buf (a True)))"
proof -
  let ?o = "\<lambda>t. of_nat (unat (it_off (a t)) mod osz col) :: u64"
  let ?m = "\<lambda>t k. At (Moving 0 (of_nat k) (?o t) (it_buf (a t)))"
  let ?f = "\<lambda>t k. Found 0 (of_nat k) (?o t) (it_buf (a t))"
  define p1 where "p1 = (\<lambda>_. At Start)(True := ?m True i)"
  define p2 where "p2 = p1(True := ?f True i)"
  define p3 where "p3 = p2(False := ?m False j)"
  define p4 where "p4 = p3(False := ?f False j)"
  define p5 where "p5 = p4(True := At (Moving (it_len (a True)) (of_nat i + 1) 0 (it_buf (a True))))"
  define p6 where "p6 = p5(True := At (Done OSD_SUCCESS (it_buf (a True))))"
  note ps = p1_def p2_def p3_def p4_def p5_def p6_def
  have len: "0 \<noteq> it_len (a True)" "0 \<noteq> it_len (a False)" using ins by (auto simp: inside_object_def)
  have "cached_race g a (\<lambda>_. At Start, col, os) (p1, col, os)"
    unfolding p1_def by (rule cached_turn) (rule cached_enter [OF geo ok ins(1)])
  moreover have "cached_race g a (p1, col, os) (p2, col, os1)"
    unfolding p2_def by (rule cached_turn) (use look len in \<open>simp add: p1_def\<close>)
  moreover have "cached_race g a (p2, col, os1) (p3, col, os1)"
    unfolding p3_def by (rule cached_turn) (use cached_enter [OF geo ok ins(2)] in \<open>simp add: ps\<close>)
  moreover have "cached_race g a (p3, col, os1) (p4, col2, os2)"
    unfolding p4_def by (rule cached_turn) (use look2 len in \<open>simp add: ps\<close>)
  moreover have "cached_race g a (p4, col2, os2) (p5, col2, os3)"
    unfolding p5_def by (rule cached_turn) (use move in \<open>simp add: ps o'_def\<close>)
  moreover have "cached_race g a (p5, col2, os3) (p6, col2, os3)"
    unfolding p6_def by (rule cached_turn) (simp add: ps)
  ultimately have "(cached_race g a)\<^sup>*\<^sup>* (\<lambda>_. At Start, col, os) (p6, col2, os3)"
    by (meson converse_rtranclp_into_rtranclp rtranclp.rtrancl_refl)
  then show ?thesis by (intro exI [of _ p6]) (simp add: p6_def)
qed

section \<open>Properties\<close>


definition ex_slots :: "bool \<Rightarrow> io_task" where
  "ex_slots t = (if t then \<lparr>it_write = True, it_buf = [1, 2], it_len = 2, it_off = 2\<rparr>
     else \<lparr>it_write = False, it_buf = [9, 9, 9], it_len = 3, it_off = 8\<rparr>)"

lemma ex_slots_ok: "task_ok ex_cached (ex_slots t)" "slots_apart ex_cached ex_slots" "inside_object ex_cached (ex_slots True) 0"
  by (auto simp: ex_slots_def task_ok_def range_ok_def ex_cached_def slots_apart_def task_slots_def inside_object_def NBMAXOBJECTS_def)


text \<open>
  C6: Two objects of one slot can be taken for each other. On a live volume where the object of
  thread \<open>True\<close> is already in the cache, a write of that thread into object \<open>i\<close> and any request of
  another thread to an object \<open>j\<close> with \<open>i \<equiv> j (mod NBMAXOBJECTS)\<close> have a run in which the write
  returns success and has stored its data in object \<open>j\<close>, at the same place, and not in object \<open>i\<close>:
  the second lookup has closed and replaced the descriptor between the lookup and the transfer of
  the first.
\<close>

theorem cached_slot_race:
  assumes "volume_ready g col os" and "cache_ok g col os" and "vol_live g col os"
    and "\<And>t. task_ok col (a t)" and "it_write (a True)"
    and "inside_object col (a True) i" and "inside_object col (a False) j"
    and "i \<noteq> j" and "i mod NBMAXOBJECTS = j mod NBMAXOBJECTS"
    and "oa_object_index (oc_object_attr_cache col (i mod NBMAXOBJECTS)) = of_nat i"
  shows "\<exists>pcs s. (cached_race g a)\<^sup>*\<^sup>* (\<lambda>_. At Start, col, os) (pcs, s)
    \<and> pcs True = At (Done OSD_SUCCESS (it_buf (a True)))
    \<and> flat g col (snd s) = flat_write (flat g col os) (j * osz col + unat (it_off (a True)) mod osz col)
        (take (unat (it_len (a True))) (it_buf (a True)))"
proof -
  let ?o = "\<lambda>t. of_nat (unat (it_off (a t)) mod osz col) :: u64"
  have geo: "geometry_ok g col" using assms(1) by (simp add: volume_ready_def)
  have index: "\<And>t k. inside_object col (a t) k \<Longrightarrow> k < onb col"
    using assms(4) address_object(1) unfolding inside_object_def task_ok_def range_ok_def by blast
  have i: "i < onb col" and j: "j < onb col" using index assms(6,7) by blast+
  have slot: "current_index (of_nat i) = i mod NBMAXOBJECTS" "current_index (of_nat j) = current_index (of_nat i)"
    using current_index_eq [OF geo] i j assms(9) by simp_all
  note look = cached_object_again [OF assms(1-3) i assms(10) [folded slot(1)]]
  have "no_faults os" "os_files os (obj_file g col j) \<noteq> None" "free_fd os \<noteq> None"
    using assms(3) j by (auto simp: vol_live_def)
  then obtain col2 os2 where look2: "cached_object g col (of_nat j) (adv os) = Some (OSD_SUCCESS, col2, os2)"
    and res: "cached_result g (col, adv os) OSD_SUCCESS (col2, os2)" and fl: "flat g col os2 = flat g col (adv os)"
    and nf: "no_faults os2" and serve: "serves g col os2 (oc_object_attr_cache col2 (current_index (of_nat j))) j"
    using cached_object_live [of g col "adv os" j] assms(1,2) j no_faults_adv volume_ready_files [OF assms(1), of "adv os"]
    by (metis adv_simps cache_ok_adv)
  have rdy2: "cached_ready g col (col2, os2)"
    using res assms(1) cached_result_ready [OF res volume_ready_files [OF assms(1)]]
    by (auto simp: cached_ready_def cached_result_def)
  obtain os3 where move: "cached_step simpleOSD_obj_op g (a True) (Found 0 (of_nat i) (?o True) (it_buf (a True))) (col2, os2)
      = Some (At (Moving (it_len (a True)) (of_nat i + 1) 0 (it_buf (a True))), col2, os3)"
    and fl3: "flat g col os3 = flat_write (flat g col os2) (j * osz col + unat (it_off (a True)) mod osz col)
        (take (unat (it_len (a True))) (it_buf (a True)))"
    using misled_write [OF rdy2 j nf _ assms(4,5,6), of "of_nat i"] serve slot(2) by (auto simp: serves_cache [OF rdy2])
  obtain pcs where "(cached_race g a)\<^sup>*\<^sup>* (\<lambda>_. At Start, col, os) (pcs, col2, os3)"
    "pcs True = At (Done OSD_SUCCESS (it_buf (a True)))"
    using misled_schedule [OF geo assms(4,6,7) look look2 move] by blast
  moreover have "flat g col (adv os) = flat g col os" by (rule flat_cong) simp
  ultimately show ?thesis using fl fl3 by (intro exI [of _ pcs] exI [of _ "(col2, os3)"]) simp
qed

text \<open>Object 0 is in slot 0 with descriptor 4; object 1000 has the same slot.\<close>

definition ex_shared :: osd_collection where
  "ex_shared = ex_collection\<lparr>oc_nb_objects := 1001, oc_object_attr_cache := (\<lambda>n. if n = 0
     then (opened_attr ex_collection 0 ex_os)\<lparr>oa_file_fd := 4\<rparr> else zero_object_attr\<lparr>oa_object_index := -1\<rparr>)\<rparr>"

definition ex_shared_os :: os where
  "ex_shared_os = ex_live_os\<lparr>os_fds := (os_fds ex_live_os)(4 \<mapsto>
     \<lparr>of_path = obj_file ex_params ex_collection 0, of_flags = 2\<rparr>)\<rparr>"

lemma ex_shared_sizes: "osz ex_shared = 4" "onb ex_shared = 1001" "capacity ex_shared = 4004"
  by (simp_all add: ex_shared_def ex_collection_def capacity_def)

lemma ex_shared_file: "obj_file g ex_shared = obj_file g ex_collection"
  by (simp add: obj_file_def ex_shared_def fun_eq_iff)

lemma ex_shared_ready: "volume_ready ex_params ex_shared ex_shared_os"
  using ex_live(1) ex_collection_geometry
  by (simp add: volume_ready_def geometry_ok_def objects_ok_def ex_shared_sizes ex_shared_os_def locks_free_def ex_live_os_def)
   (simp add: ex_shared_def)

lemma ex_shared_cache: "cache_ok ex_params ex_shared ex_shared_os"
proof -
  have fd: "oa_file_fd (oc_object_attr_cache ex_shared m) = (if m = 0 then 4 else 0)" for m
    by (simp add: ex_shared_def zero_object_attr_def)
  have "entry_open ex_params ex_shared ex_shared_os (oc_object_attr_cache ex_shared 0) 0"
    by (simp add: entry_open_def ex_shared_sizes ex_shared_file fd fd_file_def ex_shared_os_def)
       (simp add: ex_shared_def opened_attr_def ex_collection_def)
  moreover have "entry_idle (oc_object_attr_cache ex_shared m)" if "m \<noteq> 0" for m
    using that by (simp add: entry_idle_def RESERVED_FDS_def fd) (simp add: ex_shared_def)
  moreover have "length (oa_oid (oc_object_attr_cache ex_shared m)) = MAXOIDLEN" for m
    using ex_collection_geometry by (simp add: ex_shared_def opened_attr_def zero_object_attr_def geometry_ok_def)
  ultimately have "entry_ok ex_params ex_shared ex_shared_os (oc_object_attr_cache ex_shared m)" for m
    by (cases "m = 0") (auto simp: entry_ok_def)
  then show ?thesis by (simp add: cache_ok_def slots_ok_def fd RESERVED_FDS_def)
qed

lemma ex_shared_live: "vol_live ex_params ex_shared ex_shared_os"
  by (simp add: vol_live_def ex_shared_os_def ex_live_os_def no_faults_def ex_os_def free_fd_def)

text \<open>A write to object 0 and a read of object 1000, which share slot 0.\<close>

definition ex_slot_tasks :: "bool \<Rightarrow> io_task" where
  "ex_slot_tasks t = (if t then \<lparr>it_write = True, it_buf = [7], it_len = 1, it_off = 1\<rparr>
     else \<lparr>it_write = False, it_buf = [9], it_len = 1, it_off = 4000\<rparr>)"

theorem cached_slot_race_witness:
  "\<exists>pcs s. (cached_race ex_params ex_slot_tasks)\<^sup>*\<^sup>* (\<lambda>_. At Start, ex_shared, ex_shared_os) (pcs, s)
     \<and> pcs True = At (Done OSD_SUCCESS [7])
     \<and> flat ex_params ex_shared (snd s) 1 = 0 \<and> flat ex_params ex_shared (snd s) 4001 = 7"
proof -
  have ok: "task_ok ex_shared (ex_slot_tasks t)" for t
    by (simp add: task_ok_def ex_slot_tasks_def range_ok_def ex_shared_sizes)
  have inside: "inside_object ex_shared (ex_slot_tasks True) 0" "inside_object ex_shared (ex_slot_tasks False) 1000"
    by (simp_all add: inside_object_def ex_slot_tasks_def ex_shared_sizes)
  have "oa_object_index (oc_object_attr_cache ex_shared (0 mod NBMAXOBJECTS)) = of_nat 0"
    by (simp add: ex_shared_def opened_attr_def)
  moreover have "flat ex_params ex_shared ex_shared_os 1 = 0"
    by (simp add: flat_def file_byte_def ex_shared_os_def ex_live_os_def ex_shared_sizes)
  ultimately show ?thesis
    using cached_slot_race [OF ex_shared_ready ex_shared_cache ex_shared_live ok _ inside]
    by (fastforce simp: NBMAXOBJECTS_def ex_slot_tasks_def ex_shared_sizes flat_write_def)
qed

end
