(* ===== verification/Fetch_Live.thy ===== *)
theory Fetch_Live
  imports Fetch_Race Schedule
begin

text \<open>
  Every fetch ends: the steps of \<open>Fetch_Race\<close> keep the contract \<open>bounded_threads\<close>, with the mutual
  exclusion of its \<open>lock_inv\<close> as the invariant.
\<close>

fun fetch_left :: "fetch_pc \<Rightarrow> nat" where
  "fetch_left Entry = 5"
| "fetch_left (Locked p) = 4"
| "fetch_left (Absent p) = 3"
| "fetch_left (Opened p fd) = 2"
| "fetch_left (Leaving p r) = 1"
| "fetch_left (Finished r) = 0"

fun fetch_returned :: "fetch_pc \<Rightarrow> bool" where
  "fetch_returned (Finished r) \<longleftrightarrow> True"
| "fetch_returned pc \<longleftrightarrow> False"

lemma fetch_returned_iff: "fetch_returned pc \<longleftrightarrow> (\<exists>r. pc = Finished r)"
  by (cases pc) auto

lemma fetch_step_left:
  "fetch_step g arg pc os = Some (pc', os') \<Longrightarrow> fetch_left pc' < fetch_left pc"
  by (cases pc) (auto split: if_splits prod.splits option.splits OSD_RETURN.splits)

text \<open>The threads outside \<open>T\<close> have not started, so they hold nothing.\<close>

definition fetch_inv ::
    "(nat \<Rightarrow> blk_obj_fetch_arg) \<Rightarrow> nat set \<Rightarrow> (nat \<Rightarrow> fetch_pc) \<Rightarrow> os \<Rightarrow> bool" where
  "fetch_inv a T pcs os \<longleftrightarrow> finite T \<and> lock_inv a pcs os \<and> (\<forall>t. t \<notin> T \<longrightarrow> pcs t = Entry)"

interpretation fetch_threads: bounded_threads "\<lambda>t. fetch_step g (a t)" T "\<lambda>t. fetch_left"
    "fetch_inv a T" fetch_returned for g a T
proof
  fix pcs os t pc' os'
  assume inv: "fetch_inv a T pcs os"
  show "finite T" using inv by (simp add: fetch_inv_def)
  show "fetch_inv a T (pcs(t := pc')) os' \<and> fetch_left pc' < fetch_left (pcs t)"
    if "t \<in> T" "fetch_step g (a t) (pcs t) os = Some (pc', os')"
    using inv that lock_inv_step [OF race_step.thread [where a = a and t = t and pcs = pcs, OF that(2)]] fetch_step_left [OF that(2)]
    by (simp add: fetch_inv_def)
  show "\<exists>u\<in>T. fetch_step g (a u) (pcs u) os \<noteq> None" if t: "t \<in> T" "\<not> fetch_returned (pcs t)"
  proof -
    have "\<forall>r. pcs t \<noteq> Finished r" using t(2) by (simp add: fetch_returned_iff)
    then obtain u where u: "u = t \<or> critical (pcs u)" "fetch_step g (a u) (pcs u) os \<noteq> None"
      using fetch_some_moves [of a pcs os t g] inv by (auto simp: fetch_inv_def)
    then have "u \<in> T" using inv t(1) unfolding fetch_inv_def by (metis pc_path.simps(5))
    with u(2) show ?thesis by blast
  qed
qed

section \<open>Properties\<close>

text \<open>
  C25: Every fetch ends. A finite set of threads, started with no mutex held, takes at most five
  steps each under every scheduler, fair or not, whatever fails; when no thread can move, all have
  returned and every mutex is free. Waiting for a mutex never lasts for ever.
\<close>

theorem fetch_threads_finish:
  fixes T :: "nat set"
  assumes "\<And>k. \<not> os_mutex os0 k" and "finite T"
    and "(turn (\<lambda>t. fetch_step g (a t)) T ^^ n) (\<lambda>_. Entry, os0) (pcs, os)"
  shows "n \<le> 5 * card T
    \<and> ((\<forall>c. \<not> turn (\<lambda>t. fetch_step g (a t)) T (pcs, os) c) \<longrightarrow>
         (\<forall>t\<in>T. \<exists>r. pcs t = Finished r) \<and> (\<forall>k. \<not> os_mutex os k))"
proof -
  have start: "fetch_inv a T (\<lambda>_. Entry) os0"
    using assms(1,2) lock_inv_start [of os0 a] by (simp add: fetch_inv_def)
  note bound = fetch_threads.turns_bounded [OF assms(3) start]
  then have inv: "fetch_inv a T pcs os" and n: "n \<le> 5 * card T" by simp_all
  moreover have "\<not> os_mutex os k" if "\<forall>t\<in>T. \<exists>r. pcs t = Finished r" for k
  proof -
    have "\<not> critical (pcs t)" for t
      using that inv by (cases "t \<in> T") (auto simp: fetch_inv_def)
    then show ?thesis using inv by (simp add: fetch_inv_def lock_inv_def)
  qed
  ultimately show ?thesis
    using fetch_threads.stuck_finished [OF inv] by (metis fetch_returned_iff)
qed

theorem fetch_threads_finish_witness:
  "\<exists>n pcs os. (turn (\<lambda>t. fetch_step ex_params (ex_args t)) {0, 1} ^^ n) (\<lambda>_. Entry, ex_os) (pcs, os)
     \<and> n \<le> 10 \<and> (\<exists>r. pcs 0 = Finished r) \<and> (\<exists>r. pcs 1 = Finished r)"
proof -
  have "fetch_inv ex_args {0, 1} (\<lambda>_. Entry) ex_os"
    using lock_inv_start [of ex_os ex_args] ex_os_simps(3) by (simp add: fetch_inv_def)
  from fetch_threads.turns_end [OF this] obtain pcs os where
    run: "(turn (\<lambda>t. fetch_step ex_params (ex_args t)) {0, 1})\<^sup>*\<^sup>* (\<lambda>_. Entry, ex_os) (pcs, os)"
    and fin: "\<forall>t\<in>{0, 1}. fetch_returned (pcs t)" by blast
  then obtain n where "(turn (\<lambda>t. fetch_step ex_params (ex_args t)) {0, 1} ^^ n) (\<lambda>_. Entry, ex_os) (pcs, os)"
    using rtranclp_imp_relpowp by fastforce
  with fin fetch_threads_finish [OF ex_os_simps(3) _ this] show ?thesis
    by (intro exI [of _ n] exI [of _ pcs] exI [of _ os]) (simp add: fetch_returned_iff)
qed

end
