(* ===== verification/List_Head.thy ===== *)
theory List_Head
  imports Prelude "HOL-Library.Monad_Syntax"
begin

text \<open>
  The circular doubly linked lists of include/simpleOSD_list.h. The list heads live in a heap that
  maps addresses to pairs of pointers; an access through an address that holds no list head
  (\<open>NULL\<close> among them) is undefined behaviour, the value \<open>None\<close> of an operation. A heap represents
  an abstract list of addresses, the entries in order from the head; each operation is shown to
  implement its operation on that list, and the loops to visit exactly its members.
\<close>

section \<open>Heap and fields\<close>

record list_head =
  lh_next :: u64
  lh_prev :: u64

type_synonym lheap = "u64 \<Rightarrow> list_head option"

definition get_next :: "lheap \<Rightarrow> u64 \<Rightarrow> u64 option" where
  "get_next h a = map_option lh_next (h a)"

definition get_prev :: "lheap \<Rightarrow> u64 \<Rightarrow> u64 option" where
  "get_prev h a = map_option lh_prev (h a)"

definition put_next :: "u64 \<Rightarrow> u64 \<Rightarrow> lheap \<Rightarrow> lheap option" where
  "put_next a v h = map_option (\<lambda>c. h(a \<mapsto> c\<lparr>lh_next := v\<rparr>)) (h a)"

definition put_prev :: "u64 \<Rightarrow> u64 \<Rightarrow> lheap \<Rightarrow> lheap option" where
  "put_prev a v h = map_option (\<lambda>c. h(a \<mapsto> c\<lparr>lh_prev := v\<rparr>)) (h a)"

section \<open>Operations\<close>

definition INIT_LIST_HEAD :: "u64 \<Rightarrow> lheap \<Rightarrow> lheap option" where
  "INIT_LIST_HEAD list h = do {
     h \<leftarrow> put_next list list h;
     put_prev list list h
   }"

definition list_empty :: "u64 \<Rightarrow> lheap \<Rightarrow> bool option" where
  "list_empty head h = do { n \<leftarrow> get_next h head; Some (n = head) }"

text \<open>\<open>__list_add\<close>.\<close>

definition list_add_between :: "u64 \<Rightarrow> u64 \<Rightarrow> u64 \<Rightarrow> lheap \<Rightarrow> lheap option" where
  "list_add_between new prev next h = do {
     h \<leftarrow> put_prev next new h;
     h \<leftarrow> put_next new next h;
     h \<leftarrow> put_prev new prev h;
     put_next prev new h
   }"

definition list_add :: "u64 \<Rightarrow> u64 \<Rightarrow> lheap \<Rightarrow> lheap option" where
  "list_add new head h = do { n \<leftarrow> get_next h head; list_add_between new head n h }"

definition list_add_tail :: "u64 \<Rightarrow> u64 \<Rightarrow> lheap \<Rightarrow> lheap option" where
  "list_add_tail new head h = do { p \<leftarrow> get_prev h head; list_add_between new p head h }"

text \<open>\<open>__list_del\<close>.\<close>

definition list_del_between :: "u64 \<Rightarrow> u64 \<Rightarrow> lheap \<Rightarrow> lheap option" where
  "list_del_between prev next h = do {
     h \<leftarrow> put_prev next prev h;
     put_next prev next h
   }"

definition list_del :: "u64 \<Rightarrow> lheap \<Rightarrow> lheap option" where
  "list_del entry h = do {
     p \<leftarrow> get_prev h entry;
     n \<leftarrow> get_next h entry;
     h \<leftarrow> list_del_between p n h;
     h \<leftarrow> put_prev entry 0 h;
     put_next entry 0 h
   }"

definition list_del_init :: "u64 \<Rightarrow> lheap \<Rightarrow> lheap option" where
  "list_del_init entry h = do {
     p \<leftarrow> get_prev h entry;
     n \<leftarrow> get_next h entry;
     h \<leftarrow> list_del_between p n h;
     INIT_LIST_HEAD entry h
   }"

text \<open>\<open>__list_splice\<close>.\<close>

definition list_splice_between :: "u64 \<Rightarrow> u64 \<Rightarrow> u64 \<Rightarrow> lheap \<Rightarrow> lheap option" where
  "list_splice_between list prev next h = do {
     first \<leftarrow> get_next h list;
     last \<leftarrow> get_prev h list;
     h \<leftarrow> put_prev first prev h;
     h \<leftarrow> put_next prev first h;
     h \<leftarrow> put_next last next h;
     put_prev next last h
   }"

definition list_splice_init :: "u64 \<Rightarrow> u64 \<Rightarrow> lheap \<Rightarrow> lheap option" where
  "list_splice_init list head h = do {
     e \<leftarrow> list_empty list h;
     if e then Some h
     else do {
       n \<leftarrow> get_next h head;
       h \<leftarrow> list_splice_between list head n h;
       INIT_LIST_HEAD list h
     }
   }"

text \<open>
  The loops: the positions \<open>list_for_each\<close> and \<open>list_for_each_prev\<close> give to their body, for a body
  that leaves the list alone. On a damaged list they may run for ever or through an invalid
  pointer; both are \<open>None\<close>.
\<close>

partial_function (option) for_each_from :: "lheap \<Rightarrow> u64 \<Rightarrow> u64 \<Rightarrow> u64 list option" where
  "for_each_from h head pos =
     (if pos = head then Some []
      else do { n \<leftarrow> get_next h pos; ps \<leftarrow> for_each_from h head n; Some (pos # ps) })"

definition list_for_each :: "u64 \<Rightarrow> lheap \<Rightarrow> u64 list option" where
  "list_for_each head h = do { n \<leftarrow> get_next h head; for_each_from h head n }"

partial_function (option) for_each_prev_from :: "lheap \<Rightarrow> u64 \<Rightarrow> u64 \<Rightarrow> u64 list option" where
  "for_each_prev_from h head pos =
     (if pos = head then Some []
      else do { p \<leftarrow> get_prev h pos; ps \<leftarrow> for_each_prev_from h head p; Some (pos # ps) })"

definition list_for_each_prev :: "u64 \<Rightarrow> lheap \<Rightarrow> u64 list option" where
  "list_for_each_prev head h = do { p \<leftarrow> get_prev h head; for_each_prev_from h head p }"

section \<open>The list a heap represents\<close>

definition linked :: "lheap \<Rightarrow> u64 \<Rightarrow> u64 \<Rightarrow> bool" where
  "linked h a b \<longleftrightarrow> get_next h a = Some b \<and> get_prev h b = Some a"

text \<open>Consecutive addresses point to each other.\<close>

fun chain :: "lheap \<Rightarrow> u64 list \<Rightarrow> bool" where
  "chain h (a # b # xs) \<longleftrightarrow> linked h a b \<and> chain h (b # xs)"
| "chain h xs \<longleftrightarrow> True"

definition holds :: "lheap \<Rightarrow> u64 \<Rightarrow> u64 list \<Rightarrow> bool" where
  "holds h head xs \<longleftrightarrow> distinct (head # xs) \<and> chain h (head # xs @ [head])"

lemma chain_append: "chain h (xs @ a # ys) \<longleftrightarrow> chain h (xs @ [a]) \<and> chain h (a # ys)"
proof (induction xs)
  case (Cons x xs)
  then show ?case by (cases xs) simp_all
qed simp

text \<open>Changes elsewhere do not matter: the sources keep \<open>next\<close>, the targets keep \<open>prev\<close>.\<close>

lemma chain_frame:
  "chain h xs \<Longrightarrow> (\<And>x. x \<in> set (butlast xs) \<Longrightarrow> get_next h' x = get_next h x)
     \<Longrightarrow> (\<And>x. x \<in> set (tl xs) \<Longrightarrow> get_prev h' x = get_prev h x) \<Longrightarrow> chain h' xs"
proof (induction xs rule: chain.induct)
  case (1 h a b xs)
  then show ?case by (cases xs) (simp_all add: linked_def)
qed simp_all

text \<open>A write succeeds on a valid address and keeps every address valid.\<close>

lemma put_next_ex:
  assumes "a \<in> dom h"
  shows "\<exists>h'. put_next a v h = Some h' \<and> dom h' = dom h
     \<and> get_next h' = (get_next h)(a \<mapsto> v) \<and> get_prev h' = get_prev h"
proof -
  obtain c where c: "h a = Some c" using assms by blast
  then have "dom (h(a \<mapsto> c\<lparr>lh_next := v\<rparr>)) = dom h" by auto
  with c show ?thesis
    by (intro exI [of _ "h(a \<mapsto> c\<lparr>lh_next := v\<rparr>)"])
       (auto simp: put_next_def get_next_def get_prev_def fun_eq_iff)
qed

lemma put_prev_ex:
  assumes "a \<in> dom h"
  shows "\<exists>h'. put_prev a v h = Some h' \<and> dom h' = dom h
     \<and> get_prev h' = (get_prev h)(a \<mapsto> v) \<and> get_next h' = get_next h"
proof -
  obtain c where c: "h a = Some c" using assms by blast
  then have "dom (h(a \<mapsto> c\<lparr>lh_prev := v\<rparr>)) = dom h" by auto
  with c show ?thesis
    by (intro exI [of _ "h(a \<mapsto> c\<lparr>lh_prev := v\<rparr>)"])
       (auto simp: put_prev_def get_next_def get_prev_def fun_eq_iff)
qed

lemma INIT_LIST_HEAD_effect:
  assumes "a \<in> dom h"
  shows "\<exists>h'. INIT_LIST_HEAD a h = Some h' \<and> dom h' = dom h
     \<and> get_next h' = (get_next h)(a \<mapsto> a) \<and> get_prev h' = (get_prev h)(a \<mapsto> a)"
proof -
  obtain h1 where h1: "put_next a a h = Some h1" "dom h1 = dom h"
    "get_next h1 = (get_next h)(a \<mapsto> a)" "get_prev h1 = get_prev h"
    using put_next_ex [OF assms] by blast
  then show ?thesis using put_prev_ex [of a h1 a] assms by (auto simp: INIT_LIST_HEAD_def)
qed

lemma list_add_between_effect:
  assumes "new \<in> dom h" and "p \<in> dom h" and "n \<in> dom h"
  shows "\<exists>h'. list_add_between new p n h = Some h' \<and> dom h' = dom h
     \<and> get_next h' = (get_next h)(new \<mapsto> n, p \<mapsto> new)
     \<and> get_prev h' = (get_prev h)(n \<mapsto> new, new \<mapsto> p)"
proof -
  obtain h1 where h1: "put_prev n new h = Some h1" "dom h1 = dom h"
    "get_prev h1 = (get_prev h)(n \<mapsto> new)" "get_next h1 = get_next h"
    using put_prev_ex [OF assms(3)] by blast
  obtain h2 where h2: "put_next new n h1 = Some h2" "dom h2 = dom h"
    "get_next h2 = (get_next h)(new \<mapsto> n)" "get_prev h2 = get_prev h1"
    using put_next_ex [of new h1 n] assms h1 by auto
  obtain h3 where h3: "put_prev new p h2 = Some h3" "dom h3 = dom h"
    "get_prev h3 = (get_prev h)(n \<mapsto> new, new \<mapsto> p)" "get_next h3 = get_next h2"
    using put_prev_ex [of new h2 p] assms h1 h2 by auto
  show ?thesis
    using put_next_ex [of p h3 new] assms h1 h2 h3 by (auto simp: list_add_between_def)
qed

lemma list_del_between_effect:
  assumes "p \<in> dom h" and "n \<in> dom h"
  shows "\<exists>h'. list_del_between p n h = Some h' \<and> dom h' = dom h
     \<and> get_next h' = (get_next h)(p \<mapsto> n) \<and> get_prev h' = (get_prev h)(n \<mapsto> p)"
proof -
  obtain h1 where "put_prev n p h = Some h1" "dom h1 = dom h"
    "get_prev h1 = (get_prev h)(n \<mapsto> p)" "get_next h1 = get_next h"
    using put_prev_ex [OF assms(2)] by blast
  then show ?thesis using put_next_ex [of p h1 n] assms by (auto simp: list_del_between_def)
qed

section \<open>Operations on the represented list\<close>

lemma linked_dom: "linked h a b \<Longrightarrow> a \<in> dom h \<and> b \<in> dom h"
  by (auto simp: linked_def get_next_def get_prev_def)

lemma chain_dom: "chain h xs \<Longrightarrow> 2 \<le> length xs \<Longrightarrow> set xs \<subseteq> dom h"
proof (induction h xs rule: chain.induct)
  case (1 h a b xs)
  then show ?case using linked_dom by (cases xs) auto
qed simp_all

lemma holds_dom: "holds h head xs \<Longrightarrow> insert head (set xs) \<subseteq> dom h"
  unfolding holds_def using chain_dom [of h "head # xs @ [head]"] by simp

text \<open>
  The cycle cut open at any place: \<open>p\<close> and \<open>n\<close> are neighbours, and everything else lies on the
  chain from \<open>n\<close> to \<open>p\<close>. Insertion and removal change only the cut.
\<close>

lemma chain_insert:
  assumes c: "chain h (us @ p # n # vs)" and d: "distinct (us @ [p])" "distinct (n # vs)"
    and new: "new \<notin> set (us @ p # n # vs)"
    and next': "get_next h' = (get_next h)(new \<mapsto> n, p \<mapsto> new)"
    and prev': "get_prev h' = (get_prev h)(n \<mapsto> new, new \<mapsto> p)"
    and src: "p \<notin> set (butlast (n # vs))" and tgt: "n \<notin> set (tl (us @ [p]))"
  shows "chain h' (us @ p # new # n # vs)"
proof -
  have "chain h (us @ [p])" and "chain h (n # vs)"
    using c chain_append [of h us p "n # vs"] by (cases vs; simp)+
  note c12 = this
  have "chain h' (us @ [p])"
  proof (rule chain_frame [OF c12(1)])
    show "get_next h' x = get_next h x" if "x \<in> set (butlast (us @ [p]))" for x
      using that d(1) new next' by auto
    show "get_prev h' x = get_prev h x" if "x \<in> set (tl (us @ [p]))" for x
      using that tgt new prev' list.set_sel(2) [of "us @ [p]" x] by auto
  qed
  moreover have "chain h' (n # vs)"
  proof (rule chain_frame [OF c12(2)])
    show "get_next h' x = get_next h x" if "x \<in> set (butlast (n # vs))" for x
      using that src new next' in_set_butlastD [of x "n # vs"] by auto
    show "get_prev h' x = get_prev h x" if "x \<in> set (tl (n # vs))" for x
      using that d(2) new prev' by auto
  qed
  moreover have "linked h' p new" "linked h' new n"
    using new next' prev' by (auto simp: linked_def)
  ultimately show ?thesis by (subst chain_append) simp
qed


lemma chain_remove:
  assumes c: "chain h (us @ p # e # n # vs)" and d: "distinct (us @ [p])" "distinct (n # vs)"
    and next': "\<And>x. x \<noteq> e \<Longrightarrow> get_next h' x = ((get_next h)(p \<mapsto> n)) x"
    and prev': "\<And>x. x \<noteq> e \<Longrightarrow> get_prev h' x = ((get_prev h)(n \<mapsto> p)) x"
    and e: "e \<notin> set (us @ p # n # vs)"
    and src: "p \<notin> set (butlast (n # vs))" and tgt: "n \<notin> set (tl (us @ [p]))"
  shows "chain h' (us @ p # n # vs)"
proof -
  have c12: "chain h (us @ [p])" "chain h (n # vs)"
    using c chain_append [of h us p "e # n # vs"] by simp_all
  have "chain h' (us @ [p])"
  proof (rule chain_frame [OF c12(1)])
    show "get_next h' x = get_next h x" if "x \<in> set (butlast (us @ [p]))" for x
      using that d(1) e next' [of x] by (cases "x = e") auto
    show "get_prev h' x = get_prev h x" if "x \<in> set (tl (us @ [p]))" for x
      using that tgt e prev' [of x] list.set_sel(2) [of "us @ [p]" x] by (cases "x = e") auto
  qed
  moreover have "chain h' (n # vs)"
  proof (rule chain_frame [OF c12(2)])
    show "get_next h' x = get_next h x" if "x \<in> set (butlast (n # vs))" for x
      using that src e next' [of x] in_set_butlastD [of x "n # vs"] by (cases "x = e") auto
    show "get_prev h' x = get_prev h x" if "x \<in> set (tl (n # vs))" for x
      using that d(2) e prev' [of x] by (cases "x = e") auto
  qed
  moreover have "linked h' p n" using e next' [of p] prev' [of n] by (auto simp: linked_def)
  ultimately show ?thesis by (subst chain_append) simp
qed

text \<open>The neighbours of the head and of an entry.\<close>

lemma holds_next_head: "holds h head xs \<Longrightarrow> get_next h head = Some (hd (xs @ [head]))"
  by (cases xs) (simp_all add: holds_def linked_def)

lemma holds_prev_head: "holds h head xs \<Longrightarrow> get_prev h head = Some (last (head # xs))"
proof (cases xs rule: rev_cases)
  case (snoc ys y)
  assume "holds h head xs"
  then have "chain h ((head # ys) @ y # [head])" using snoc by (simp add: holds_def)
  then show ?thesis
    using snoc chain_append [of h "head # ys" y "[head]"] by (simp add: linked_def)
qed (simp add: holds_def linked_def)

lemma holds_entry:
  assumes "holds h head (xs @ e # ys)"
  shows "get_prev h e = Some (last (head # xs)) \<and> get_next h e = Some (hd (ys @ [head]))"
proof -
  obtain us p where us: "head # xs = us @ [p]" by (metis append_butlast_last_id list.distinct(1))
  obtain n vs where vs: "ys @ [head] = n # vs" by (cases ys) auto
  have "head # (xs @ e # ys) @ [head] = (head # xs) @ e # (ys @ [head])" by simp
  also have "\<dots> = us @ p # e # n # vs" by (simp only: us vs) simp
  finally have "chain h (us @ p # e # n # vs)" using assms by (simp add: holds_def)
  moreover have "last (head # xs) = p" by (simp only: us) simp
  ultimately show ?thesis
    using vs chain_append [of h us p "e # n # vs"] by (simp add: linked_def)
qed


lemma chain_join:
  "xs \<noteq> [] \<Longrightarrow> ys \<noteq> [] \<Longrightarrow>
     chain h (xs @ ys) \<longleftrightarrow> chain h xs \<and> linked h (last xs) (hd ys) \<and> chain h ys"
proof (induction xs)
  case (Cons x xs)
  then show ?case by (cases xs; cases ys) auto
qed simp

text \<open>Lists that share no address with the changed ones stay.\<close>

definition untouched :: "u64 set \<Rightarrow> lheap \<Rightarrow> lheap \<Rightarrow> bool" where
  "untouched A h h' \<longleftrightarrow> dom h' = dom h
     \<and> (\<forall>a. a \<notin> A \<longrightarrow> get_next h' a = get_next h a \<and> get_prev h' a = get_prev h a)"

lemma holds_untouched:
  assumes "holds h head xs" and "untouched A h h'" and "insert head (set xs) \<inter> A = {}"
  shows "holds h' head xs"
proof -
  have "chain h' (head # xs @ [head])"
  proof (rule chain_frame [of h])
    show "chain h (head # xs @ [head])" using assms(1) by (simp add: holds_def)
  qed (use assms(2,3) in \<open>auto simp: untouched_def butlast_append split: if_splits\<close>)
  then show ?thesis using assms(1) by (simp add: holds_def)
qed

lemma list_add_effect:
  assumes "holds h head xs" and "new \<in> dom h" and "new \<notin> insert head (set xs)"
  shows "\<exists>h'. list_add new head h = Some h' \<and> holds h' head (new # xs)
     \<and> untouched (insert new (insert head (set xs))) h h'"
proof -
  obtain n vs where vs: "xs @ [head] = n # vs" by (cases xs) auto
  then have n: "get_next h head = Some n" "n \<in> insert head (set xs)"
    using holds_next_head [OF assms(1)] by (auto simp: Cons_eq_append_conv append_eq_Cons_conv)
  with holds_dom [OF assms(1)] assms(2) obtain h' where
    h': "list_add_between new head n h = Some h'" "dom h' = dom h"
    "get_next h' = (get_next h)(new \<mapsto> n, head \<mapsto> new)"
    "get_prev h' = (get_prev h)(n \<mapsto> new, new \<mapsto> head)"
    using list_add_between_effect [of new h head n] by auto
  have d: "distinct (n # vs)" "head \<notin> set (butlast (n # vs))"
    using assms(1) by (simp_all add: holds_def flip: vs)
  have "chain h ([] @ head # n # vs)" using assms(1) vs by (simp add: holds_def)
  then have "chain h' ([] @ head # new # n # vs)"
    by (rule chain_insert) (use d h' assms(3) vs [symmetric] in \<open>auto dest: arg_cong [of _ _ set]\<close>)
  then have "holds h' head (new # xs)" using assms(1,3) vs by (auto simp: holds_def)
  moreover have "untouched (insert new (insert head (set xs))) h h'"
    using h'(2-4) n(2) by (auto simp: untouched_def)
  ultimately show ?thesis using h'(1) n(1) by (simp add: list_add_def)
qed

lemma list_add_tail_effect:
  assumes "holds h head xs" and "new \<in> dom h" and "new \<notin> insert head (set xs)"
  shows "\<exists>h'. list_add_tail new head h = Some h' \<and> holds h' head (xs @ [new])
     \<and> untouched (insert new (insert head (set xs))) h h'"
proof -
  obtain us p where us: "head # xs = us @ [p]" by (metis append_butlast_last_id list.distinct(1))
  have "last (head # xs) = p" "p \<in> set (head # xs)" by (simp_all only: us) simp_all
  then have p: "get_prev h head = Some p" "p \<in> insert head (set xs)"
    using holds_prev_head [OF assms(1)] by simp_all
  with holds_dom [OF assms(1)] assms(2) obtain h' where
    h': "list_add_between new p head h = Some h'" "dom h' = dom h"
    "get_next h' = (get_next h)(new \<mapsto> head, p \<mapsto> new)"
    "get_prev h' = (get_prev h)(head \<mapsto> new, new \<mapsto> p)"
    using list_add_between_effect [of new h p head] by auto
  have eq: "head # xs @ ys = us @ p # ys" for ys using us by (metis append.assoc append_Cons append_Nil)
  have d: "distinct (us @ [p])" "head \<notin> set (tl (us @ [p]))"
    using assms(1) us [symmetric] by (simp_all add: holds_def)
  have "chain h (us @ p # head # [])" using assms(1) eq by (simp add: holds_def)
  then have "chain h' (us @ p # new # head # [])"
    by (rule chain_insert) (use d h' assms(3) arg_cong [OF us, of set] in auto)
  then have "chain h' (head # (xs @ [new]) @ [head])" by (simp add: eq)
  then have "holds h' head (xs @ [new])" using assms(1,3) by (auto simp: holds_def)
  moreover have "untouched (insert new (insert head (set xs))) h h'"
    using h'(2-4) p(2) by (auto simp: untouched_def)
  ultimately show ?thesis using h'(1) p(1) by (simp add: list_add_tail_def)
qed


text \<open>Taking an entry out of the cycle, whatever becomes of its own fields afterwards.\<close>

lemma holds_unlink:
  assumes "holds h head (xs @ e # ys)"
    and "get_prev h e = Some p" and "get_next h e = Some n"
    and "\<And>x. x \<noteq> e \<Longrightarrow> get_next h' x = ((get_next h)(p \<mapsto> n)) x"
    and "\<And>x. x \<noteq> e \<Longrightarrow> get_prev h' x = ((get_prev h)(n \<mapsto> p)) x"
  shows "holds h' head (xs @ ys)"
proof -
  obtain us where us: "head # xs = us @ [p]"
    using holds_entry [OF assms(1)] assms(2)
    by (metis append_butlast_last_id list.distinct(1) option.inject)
  obtain vs where vs: "ys @ [head] = n # vs"
    using holds_entry [OF assms(1)] assms(3) by (cases "ys @ [head]") auto
  have eq: "head # (xs @ zs) = us @ p # zs" for zs using us by (metis append.assoc append_Cons append_Nil)
  have "chain h (head # (xs @ e # ys @ [head]))" using assms(1) by (simp add: holds_def)
  then have c: "chain h (us @ p # e # n # vs)" by (simp only: eq vs)
  have sets: "set us \<union> {p} = insert head (set xs)" "insert n (set vs) = insert head (set ys)"
    using arg_cong [OF us, of set] arg_cong [OF vs, of set] by auto
  have d: "distinct (us @ [p])" "distinct (n # vs)"
    using assms(1) by (simp_all add: holds_def flip: us vs)
  have e: "e \<notin> set (us @ p # n # vs)" using sets assms(1) by (auto simp: holds_def)
  have "butlast (n # vs) = ys" "tl (us @ [p]) = xs"
    using vs us by (metis butlast_snoc, metis list.sel(3))
  moreover have "p \<notin> set ys" "n \<notin> set xs"
    using sets assms(1) by (auto simp: holds_def)
  ultimately have "chain h' (us @ p # n # vs)"
    using chain_remove [OF c d assms(4,5) e] by simp
  then have "chain h' (head # (xs @ ys @ [head]))" by (simp only: eq vs)
  then show ?thesis using assms(1) by (simp add: holds_def)
qed

lemma entry_neighbours:
  assumes "holds h head (xs @ e # ys)"
  obtains p n where "get_prev h e = Some p" "get_next h e = Some n" "p \<noteq> e" "n \<noteq> e"
    "{p, n, e} \<subseteq> dom h" "{p, n} \<subseteq> insert head (set (xs @ e # ys))"
proof -
  have "last (head # xs) \<noteq> e" "hd (ys @ [head]) \<noteq> e"
    "{last (head # xs), hd (ys @ [head])} \<subseteq> insert head (set (xs @ e # ys))"
    using assms by (auto simp: holds_def hd_append)
  then show ?thesis
    using holds_entry [OF assms] holds_dom [OF assms]
    by (intro that [of "last (head # xs)" "hd (ys @ [head])"]) auto
qed

lemma list_del_effect:
  assumes "holds h head (xs @ e # ys)"
  shows "\<exists>h'. list_del e h = Some h' \<and> holds h' head (xs @ ys)
     \<and> get_next h' e = Some 0 \<and> get_prev h' e = Some 0
     \<and> untouched (insert head (set (xs @ e # ys))) h h'"
proof -
  obtain p n where pn: "get_prev h e = Some p" "get_next h e = Some n" "p \<noteq> e" "n \<noteq> e"
    "{p, n, e} \<subseteq> dom h" "{p, n} \<subseteq> insert head (set (xs @ e # ys))"
    by (rule entry_neighbours [OF assms])
  then obtain h1 where h1: "list_del_between p n h = Some h1" "dom h1 = dom h"
    "get_next h1 = (get_next h)(p \<mapsto> n)" "get_prev h1 = (get_prev h)(n \<mapsto> p)"
    using list_del_between_effect [of p h n] by auto
  obtain h2 where h2: "put_prev e 0 h1 = Some h2" "dom h2 = dom h"
    "get_prev h2 = (get_prev h)(n \<mapsto> p, e \<mapsto> 0)" "get_next h2 = get_next h1"
    using put_prev_ex [of e h1 0] pn h1 by auto
  obtain h' where h': "put_next e 0 h2 = Some h'" "dom h' = dom h"
    "get_next h' = (get_next h)(p \<mapsto> n, e \<mapsto> 0)" "get_prev h' = get_prev h2"
    using put_next_ex [of e h2 0] pn h1 h2 by auto
  have "holds h' head (xs @ ys)"
    by (rule holds_unlink [OF assms pn(1,2)]) (simp_all add: h' h2)
  moreover have "untouched (insert head (set (xs @ e # ys))) h h'"
    using pn(6) by (auto simp: untouched_def h' h2)
  ultimately show ?thesis using pn h1 h2 h' by (simp add: list_del_def)
qed

lemma list_del_init_effect:
  assumes "holds h head (xs @ e # ys)"
  shows "\<exists>h'. list_del_init e h = Some h' \<and> holds h' head (xs @ ys) \<and> holds h' e []
     \<and> untouched (insert head (set (xs @ e # ys))) h h'"
proof -
  obtain p n where pn: "get_prev h e = Some p" "get_next h e = Some n" "p \<noteq> e" "n \<noteq> e"
    "{p, n, e} \<subseteq> dom h" "{p, n} \<subseteq> insert head (set (xs @ e # ys))"
    by (rule entry_neighbours [OF assms])
  then obtain h1 where h1: "list_del_between p n h = Some h1" "dom h1 = dom h"
    "get_next h1 = (get_next h)(p \<mapsto> n)" "get_prev h1 = (get_prev h)(n \<mapsto> p)"
    using list_del_between_effect [of p h n] by auto
  obtain h' where h': "INIT_LIST_HEAD e h1 = Some h'" "dom h' = dom h"
    "get_next h' = (get_next h)(p \<mapsto> n, e \<mapsto> e)" "get_prev h' = (get_prev h)(n \<mapsto> p, e \<mapsto> e)"
    using INIT_LIST_HEAD_effect [of e h1] pn h1 by auto
  have "holds h' head (xs @ ys)"
    by (rule holds_unlink [OF assms pn(1,2)]) (simp_all add: h')
  moreover have "holds h' e []" by (simp add: holds_def linked_def h')
  moreover have "untouched (insert head (set (xs @ e # ys))) h h'"
    using pn(6) by (auto simp: untouched_def h')
  ultimately show ?thesis using pn h1 h' by (simp add: list_del_init_def)
qed


lemma list_empty_effect: "holds h head xs \<Longrightarrow> list_empty head h = Some (xs = [])"
  using holds_next_head [of h head xs] by (cases xs) (auto simp: list_empty_def holds_def)

text \<open>Four writes join two cycles.\<close>

lemma splice_between_effect:
  assumes list: "get_next h list = Some f" "get_prev h list = Some l"
    and dom: "f \<in> dom h" "l \<in> dom h" "p \<in> dom h" "n \<in> dom h"
  shows "\<exists>h'. list_splice_between list p n h = Some h' \<and> dom h' = dom h
     \<and> get_next h' = (get_next h)(p \<mapsto> f, l \<mapsto> n) \<and> get_prev h' = (get_prev h)(f \<mapsto> p, n \<mapsto> l)"
proof -
  obtain h1 where h1: "put_prev f p h = Some h1" "dom h1 = dom h"
    "get_prev h1 = (get_prev h)(f \<mapsto> p)" "get_next h1 = get_next h"
    using put_prev_ex [OF dom(1)] by blast
  obtain h2 where h2: "put_next p f h1 = Some h2" "dom h2 = dom h"
    "get_next h2 = (get_next h)(p \<mapsto> f)" "get_prev h2 = get_prev h1"
    using put_next_ex [of p h1 f] dom h1 by auto
  obtain h3 where h3: "put_next l n h2 = Some h3" "dom h3 = dom h"
    "get_next h3 = (get_next h)(p \<mapsto> f, l \<mapsto> n)" "get_prev h3 = get_prev h2"
    using put_next_ex [of l h2 n] dom h1 h2 by auto
  show ?thesis
    using put_prev_ex [of n h3 l] dom list h1 h2 h3 by (auto simp: list_splice_between_def)
qed

text \<open>
  The two chains survive the pointer writes of a splice: \<open>f\<close> and \<open>l\<close> are the ends of the moved
  list, \<open>n\<close> the first element after \<open>head\<close>.
\<close>

lemma splice_chains:
  assumes hd: "holds h head xs" and li: "holds h list ys" and "ys \<noteq> []"
    and disj: "insert head (set xs) \<inter> insert list (set ys) = {}"
    and nx: "get_next h' = (get_next h)(head \<mapsto> hd ys, last ys \<mapsto> hd (xs @ [head]), list \<mapsto> list)"
    and pv: "get_prev h' = (get_prev h)(hd ys \<mapsto> head, hd (xs @ [head]) \<mapsto> last ys, list \<mapsto> list)"
  shows "chain h' (head # ys @ xs @ [head])"
proof -
  have mem: "hd ys \<in> set ys" "last ys \<in> set ys" "hd (xs @ [head]) \<in> insert head (set xs)"
    using assms(3) by (auto simp: hd_append)
  have d: "distinct ys" "list \<notin> set ys" "distinct (xs @ [head])" "head \<noteq> list" "list \<notin> set xs"
    "head \<notin> set ys" "set xs \<inter> set ys = {}"
    using hd li disj by (auto simp: holds_def)
  have ends: "last ys \<notin> set (butlast ys)" "hd ys \<notin> set (tl ys)"
    using d(1) assms(3) by (cases ys rule: rev_cases, simp_all) (cases ys, simp_all)
  have "chain h (list # ys @ [list])" using li by (simp add: holds_def)
  then have "chain h ys"
    using assms(3) chain_join [of "[list]" "ys @ [list]" h] chain_join [of ys "[list]" h] by simp
  then have c1: "chain h' ys"
  proof (rule chain_frame)
    show "get_next h' x = get_next h x" if "x \<in> set (butlast ys)" for x
      using that d ends in_set_butlastD [OF that] by (auto simp: nx)
    show "get_prev h' x = get_prev h x" if "x \<in> set (tl ys)" for x
      using that d ends list.set_sel(2) [OF assms(3) that] mem(3) by (auto simp: pv)
  qed
  have "chain h (head # xs @ [head])" using hd by (simp add: holds_def)
  then have "chain h (xs @ [head])" using chain_join [of "[head]" "xs @ [head]" h] by simp
  then have c2: "chain h' (xs @ [head])"
  proof (rule chain_frame)
    show "get_next h' x = get_next h x" if "x \<in> set (butlast (xs @ [head]))" for x
      using that d mem by (auto simp: nx)
    show "get_prev h' x = get_prev h x" if "x \<in> set (tl (xs @ [head]))" for x
      using that d mem list.set_sel(2) [OF _ that] by (cases xs) (auto simp: pv)
  qed
  have "linked h' head (hd ys)" "linked h' (last ys) (hd (xs @ [head]))"
    using d mem by (auto simp: linked_def nx pv)
  with c1 c2 assms(3) show ?thesis
    using chain_join [of "[head]" "ys @ xs @ [head]" h'] chain_join [of ys "xs @ [head]" h']
    by simp
qed

lemma list_splice_init_effect:
  assumes hd: "holds h head xs" and li: "holds h list ys"
    and disj: "insert head (set xs) \<inter> insert list (set ys) = {}"
  shows "\<exists>h'. list_splice_init list head h = Some h' \<and> holds h' head (ys @ xs) \<and> holds h' list []
     \<and> untouched (insert head (insert list (set xs \<union> set ys))) h h'"
proof (cases "ys = []")
  case True
  then show ?thesis
    using list_empty_effect [OF li] hd li by (simp add: list_splice_init_def untouched_def)
next
  case False
  define f l n where fln: "f = hd ys" "l = last ys" "n = hd (xs @ [head])"
  have nbr: "get_next h list = Some f" "get_prev h list = Some l" "get_next h head = Some n"
    using holds_next_head [OF li] holds_prev_head [OF li] holds_next_head [OF hd] False
    by (simp_all add: fln)
  have mem: "f \<in> set ys" "l \<in> set ys" "n \<in> insert head (set xs)"
    using False by (auto simp: fln hd_append)
  obtain h1 where h1: "list_splice_between list head n h = Some h1" "dom h1 = dom h"
    "get_next h1 = (get_next h)(head \<mapsto> f, l \<mapsto> n)" "get_prev h1 = (get_prev h)(f \<mapsto> head, n \<mapsto> l)"
    using splice_between_effect [OF nbr(1,2), of head n] mem holds_dom [OF hd] holds_dom [OF li] by blast
  obtain h' where h': "INIT_LIST_HEAD list h1 = Some h'" "dom h' = dom h"
    "get_next h' = (get_next h)(head \<mapsto> f, l \<mapsto> n, list \<mapsto> list)"
    "get_prev h' = (get_prev h)(f \<mapsto> head, n \<mapsto> l, list \<mapsto> list)"
    using INIT_LIST_HEAD_effect [of list h1] h1 holds_dom [OF li] by auto
  have d: "distinct ys" "distinct (xs @ [head])" "head \<notin> set ys" "set xs \<inter> set ys = {}"
    using hd li disj by (auto simp: holds_def)
  have "chain h' (head # ys @ xs @ [head])"
    by (rule splice_chains [OF hd li False disj]) (simp_all add: h' fln)
  then have "holds h' head (ys @ xs)" using d by (auto simp: holds_def)
  moreover have "holds h' list []" by (simp add: holds_def linked_def h')
  moreover have "untouched (insert head (insert list (set xs \<union> set ys))) h h'"
    using mem by (auto simp: untouched_def h')
  ultimately show ?thesis
    using list_empty_effect [OF li] False nbr h1 h' by (simp add: list_splice_init_def)
qed

text \<open>The loops end on a represented list.\<close>

lemma for_each_from_chain:
  "chain h (xs @ [head]) \<Longrightarrow> head \<notin> set xs \<Longrightarrow>
     for_each_from h head (hd (xs @ [head])) = Some xs"
proof (induction xs)
  case (Cons x xs)
  then show ?case
    by (subst for_each_from.simps) (cases xs; auto simp: linked_def)
qed (simp add: for_each_from.simps)

lemma for_each_prev_from_chain:
  "chain h (head # xs) \<Longrightarrow> head \<notin> set xs \<Longrightarrow>
     for_each_prev_from h head (last (head # xs)) = Some (rev xs)"
proof (induction xs rule: rev_induct)
  case (snoc x xs)
  then have "get_prev h x = Some (last (head # xs))"
    using chain_join [of "head # xs" "[x]" h] by (simp add: linked_def)
  moreover have "for_each_prev_from h head (last (head # xs)) = Some (rev xs)"
    using snoc chain_join [of "head # xs" "[x]" h] by simp
  ultimately show ?case using snoc.prems(2) by (subst for_each_prev_from.simps) auto
qed (simp add: for_each_prev_from.simps)


section \<open>Properties\<close>

definition ex_heap :: lheap where
  "ex_heap = [1 \<mapsto> \<lparr>lh_next = 2, lh_prev = 3\<rparr>, 2 \<mapsto> \<lparr>lh_next = 3, lh_prev = 1\<rparr>,
     3 \<mapsto> \<lparr>lh_next = 1, lh_prev = 2\<rparr>, 4 \<mapsto> \<lparr>lh_next = 0, lh_prev = 0\<rparr>,
     5 \<mapsto> \<lparr>lh_next = 6, lh_prev = 6\<rparr>, 6 \<mapsto> \<lparr>lh_next = 5, lh_prev = 5\<rparr>]"

lemma ex_heap_holds: "holds ex_heap 1 [2, 3]" "holds ex_heap 5 [6]" "4 \<in> dom ex_heap"
  by (simp_all add: holds_def linked_def get_next_def get_prev_def ex_heap_def)

text \<open>
  C33: Insertion implements insertion into the abstract list: on a heap that holds \<open>xs\<close> under
  \<open>head\<close>, \<open>list_add\<close> of a new, valid entry runs without undefined behaviour and puts it in front,
  \<open>list_add_tail\<close> puts it at the end, and every list that shares no entry with this one stays.
\<close>

theorem list_add_refines:
  assumes "holds h head xs" and "new \<in> dom h" and "new \<notin> insert head (set xs)"
  shows "(\<exists>h'. list_add new head h = Some h' \<and> holds h' head (new # xs)
           \<and> (\<forall>head2 ys. holds h head2 ys \<and> insert head2 (set ys) \<inter> insert new (insert head (set xs)) = {}
                \<longrightarrow> holds h' head2 ys))
      \<and> (\<exists>h'. list_add_tail new head h = Some h' \<and> holds h' head (xs @ [new])
           \<and> (\<forall>head2 ys. holds h head2 ys \<and> insert head2 (set ys) \<inter> insert new (insert head (set xs)) = {}
                \<longrightarrow> holds h' head2 ys))"
  using list_add_effect [OF assms] list_add_tail_effect [OF assms] holds_untouched by blast

theorem list_add_refines_witness:
  "(\<exists>h'. list_add 4 1 ex_heap = Some h' \<and> holds h' 1 [4, 2, 3] \<and> holds h' 5 [6])
   \<and> (\<exists>h'. list_add_tail 4 1 ex_heap = Some h' \<and> holds h' 1 [2, 3, 4])"
proof -
  have "insert 5 (set [6]) \<inter> insert 4 (insert (1 :: u64) (set [2, 3])) = {}" by simp
  then show ?thesis
    using list_add_refines [OF ex_heap_holds(1) ex_heap_holds(3)] ex_heap_holds(2) by fastforce
qed

text \<open>
  Removal implements removal from the abstract list: \<open>list_del\<close> of a member takes it out of
  the list, keeps the order of the others and leaves the entry with two \<open>NULL\<close> pointers;
  \<open>list_del_init\<close> leaves it as an empty list of its own. Other lists stay.
\<close>

theorem list_del_refines:
  assumes "holds h head (xs @ e # ys)"
  shows "(\<exists>h'. list_del e h = Some h' \<and> holds h' head (xs @ ys)
           \<and> get_next h' e = Some 0 \<and> get_prev h' e = Some 0
           \<and> (\<forall>head2 zs. holds h head2 zs \<and> insert head2 (set zs) \<inter> insert head (set (xs @ e # ys)) = {}
                \<longrightarrow> holds h' head2 zs))
      \<and> (\<exists>h'. list_del_init e h = Some h' \<and> holds h' head (xs @ ys) \<and> holds h' e []
           \<and> (\<forall>head2 zs. holds h head2 zs \<and> insert head2 (set zs) \<inter> insert head (set (xs @ e # ys)) = {}
                \<longrightarrow> holds h' head2 zs))"
  using list_del_effect [OF assms] list_del_init_effect [OF assms] holds_untouched by blast

theorem list_del_refines_witness:
  "(\<exists>h'. list_del 2 ex_heap = Some h' \<and> holds h' 1 [3])
   \<and> (\<exists>h'. list_del_init 2 ex_heap = Some h' \<and> holds h' 1 [3] \<and> holds h' 2 [])"
  using list_del_refines [of ex_heap 1 "[]" 2 "[3]"] ex_heap_holds(1) by auto

text \<open>
  \<open>list_splice_init\<close> moves all entries of one list, in order, to the front of another and
  leaves the first one empty; lists apart from both stay.
\<close>

theorem list_splice_init_refines:
  assumes "holds h head xs" and "holds h list ys"
    and "insert head (set xs) \<inter> insert list (set ys) = {}"
  shows "\<exists>h'. list_splice_init list head h = Some h' \<and> holds h' head (ys @ xs) \<and> holds h' list []
      \<and> (\<forall>head2 zs. holds h head2 zs
           \<and> insert head2 (set zs) \<inter> insert head (insert list (set xs \<union> set ys)) = {} \<longrightarrow> holds h' head2 zs)"
  using list_splice_init_effect [OF assms] holds_untouched by blast

theorem list_splice_init_refines_witness:
  "\<exists>h'. list_splice_init 5 1 ex_heap = Some h' \<and> holds h' 1 [6, 2, 3] \<and> holds h' 5 []"
  using list_splice_init_refines [OF ex_heap_holds(1,2)] by auto

text \<open>
  On a heap that holds \<open>xs\<close> under \<open>head\<close>, \<open>list_for_each\<close> ends and visits exactly the entries
  of \<open>xs\<close> in order, \<open>list_for_each_prev\<close> ends and visits them backwards, and \<open>list_empty\<close> says
  whether there are any.
\<close>

theorem list_for_each_visits:
  assumes "holds h head xs"
  shows "list_for_each head h = Some xs \<and> list_for_each_prev head h = Some (rev xs)
      \<and> list_empty head h = Some (xs = [])"
proof -
  have "chain h ((head # xs) @ [head])" using assms by (simp add: holds_def)
  then have "chain h (xs @ [head])" "chain h (head # xs)"
    using chain_join [of "head # xs" "[head]" h] chain_join [of "[head]" "xs @ [head]" h] by simp_all
  then show ?thesis
    using assms for_each_from_chain [of h xs head] for_each_prev_from_chain [of h head xs]
      holds_next_head [OF assms] holds_prev_head [OF assms] list_empty_effect [OF assms]
    by (simp add: list_for_each_def list_for_each_prev_def holds_def)
qed

theorem list_for_each_visits_witness:
  "list_for_each 1 ex_heap = Some [2, 3] \<and> list_for_each_prev 1 ex_heap = Some [3, 2]"
  using list_for_each_visits [OF ex_heap_holds(1)] by simp

end
