(* ===== verification/List_Entry.thy ===== *)
theory List_Entry
  imports List_Head
begin

text \<open>
  The macros of include/simpleOSD_list.h that go from a list head to the structure around it, and
  the two loops over entries. A structure with a list head \<open>off\<close> bytes inside it starts \<open>off\<close>
  bytes before the head; the arithmetic is that of addresses. The body of a loop gets the entry
  and may change the heap, a loop over a damaged list runs for ever or through an invalid pointer,
  and both are \<open>None\<close>.
\<close>

section \<open>Entries\<close>

definition container_of :: "u64 \<Rightarrow> u64 \<Rightarrow> u64" where
  "container_of off ptr = ptr - off"

definition list_entry :: "u64 \<Rightarrow> u64 \<Rightarrow> u64" where
  "list_entry off ptr = container_of off ptr"

definition list_first_entry :: "u64 \<Rightarrow> u64 \<Rightarrow> lheap \<Rightarrow> u64 option" where
  "list_first_entry off ptr h = map_option (list_entry off) (get_next h ptr)"

definition LIST_HEAD_INIT :: "u64 \<Rightarrow> list_head" where
  "LIST_HEAD_INIT name = \<lparr>lh_next = name, lh_prev = name\<rparr>"

definition LIST_HEAD :: "u64 \<Rightarrow> lheap \<Rightarrow> lheap" where
  "LIST_HEAD name h = h(name \<mapsto> LIST_HEAD_INIT name)"

type_synonym 's loop_body = "u64 \<Rightarrow> 's \<Rightarrow> lheap \<Rightarrow> ('s \<times> lheap) option"

partial_function (option) for_each_entry_from ::
    "u64 \<Rightarrow> 's loop_body \<Rightarrow> u64 \<Rightarrow> u64 \<Rightarrow> 's \<Rightarrow> lheap \<Rightarrow> ('s \<times> lheap) option" where
  "for_each_entry_from off body head pos s h =
     (if pos + off = head then Some (s, h)
      else do {
        (s, h) \<leftarrow> body pos s h;
        n \<leftarrow> get_next h (pos + off);
        for_each_entry_from off body head (list_entry off n) s h
      })"

definition list_for_each_entry ::
    "u64 \<Rightarrow> 's loop_body \<Rightarrow> u64 \<Rightarrow> 's \<Rightarrow> lheap \<Rightarrow> ('s \<times> lheap) option" where
  "list_for_each_entry off body head s h = do {
     n \<leftarrow> get_next h head;
     for_each_entry_from off body head (list_entry off n) s h
   }"

text \<open>The safe loop has read the next entry before the body runs.\<close>

partial_function (option) for_each_entry_safe_from ::
    "u64 \<Rightarrow> 's loop_body \<Rightarrow> u64 \<Rightarrow> u64 \<Rightarrow> u64 \<Rightarrow> 's \<Rightarrow> lheap \<Rightarrow> ('s \<times> lheap) option" where
  "for_each_entry_safe_from off body head pos n s h =
     (if pos + off = head then Some (s, h)
      else do {
        (s, h) \<leftarrow> body pos s h;
        m \<leftarrow> get_next h (n + off);
        for_each_entry_safe_from off body head n (list_entry off m) s h
      })"

definition list_for_each_entry_safe ::
    "u64 \<Rightarrow> 's loop_body \<Rightarrow> u64 \<Rightarrow> 's \<Rightarrow> lheap \<Rightarrow> ('s \<times> lheap) option" where
  "list_for_each_entry_safe off body head s h = do {
     p \<leftarrow> get_next h head;
     n \<leftarrow> get_next h (list_entry off p + off);
     for_each_entry_safe_from off body head (list_entry off p) (list_entry off n) s h
   }"

lemma list_entry_plus [simp]: "list_entry off a + off = a"
  by (simp add: list_entry_def container_of_def)

section \<open>A body that may delete its entry\<close>

definition visit_or_delete ::
    "u64 \<Rightarrow> (u64 \<Rightarrow> bool) \<Rightarrow> (u64 \<Rightarrow> 's \<Rightarrow> 's) \<Rightarrow> 's loop_body" where
  "visit_or_delete off P f pos s h =
     map_option (Pair (f pos s)) (if P pos then list_del (pos + off) h else Some h)"

lemma visit_or_delete_effect:
  assumes "holds h head (ks @ x # ys)"
  shows "\<exists>h'. visit_or_delete off P f (list_entry off x) s h = Some (f (list_entry off x) s, h')
     \<and> holds h' head ((if P (list_entry off x) then ks else ks @ [x]) @ ys)"
  using list_del_effect [OF assms] assms by (auto simp: visit_or_delete_def)

lemma entry_safe_loop:
  assumes "holds h head (ks @ xs)"
  shows "\<exists>h'. for_each_entry_safe_from off (visit_or_delete off P f) head
        (list_entry off (hd (xs @ [head]))) (list_entry off (hd (tl (xs @ [head]) @ [n0]))) s h
        = Some (fold f (map (list_entry off) xs) s, h')
      \<and> holds h' head (ks @ filter (\<lambda>x. \<not> P (list_entry off x)) xs)"
  using assms
proof (induction xs arbitrary: ks s h n0)
  case Nil
  then show ?case by (subst for_each_entry_safe_from.simps) simp
next
  case (Cons x xs)
  let ?ks = "if P (list_entry off x) then ks else ks @ [x]"
  have ne: "x \<noteq> head" using Cons.prems by (auto simp: holds_def)
  obtain h1 where body: "visit_or_delete off P f (list_entry off x) s h = Some (f (list_entry off x) s, h1)"
    and h1: "holds h1 head (?ks @ xs)"
    using visit_or_delete_effect [where P = P and off = off and f = f and s = s, OF Cons.prems] by auto
  obtain m where m: "get_next h1 (hd (xs @ [head])) = Some m" "tl (xs @ [head]) \<noteq> [] \<Longrightarrow> m = hd (tl (xs @ [head]))"
  proof (cases xs)
    case Nil
    then show ?thesis using that holds_next_head [OF h1] by simp
  next
    case (Cons y zs)
    then show ?thesis using that holds_entry [of h1 head ?ks y zs] h1 by simp
  qed
  obtain h' where "for_each_entry_safe_from off (visit_or_delete off P f) head
      (list_entry off (hd (xs @ [head]))) (list_entry off (hd (tl (xs @ [head]) @ [m]))) (f (list_entry off x) s) h1
      = Some (fold f (map (list_entry off) xs) (f (list_entry off x) s), h')"
    "holds h' head (?ks @ filter (\<lambda>x. \<not> P (list_entry off x)) xs)"
    using Cons.IH [OF h1] by blast
  moreover have "hd (tl (xs @ [head]) @ [m]) = m" using m(2) by (cases "tl (xs @ [head])") auto
  ultimately show ?case
    using ne body m(1) by (subst for_each_entry_safe_from.simps) (auto simp: hd_append)
qed

section \<open>Properties\<close>

text \<open>
  C34: \<open>list_for_each_entry_safe\<close> may delete entries while it runs: with a body that calls
  \<open>list_del\<close> on some of the entries it is given, the loop ends without undefined behaviour, has
  run the body for every entry in order, and the list that is left consists of the other entries.
\<close>

theorem list_for_each_entry_safe_filters:
  assumes "holds h head xs"
  shows "\<exists>h'. list_for_each_entry_safe off (visit_or_delete off P f) head s h
      = Some (fold f (map (list_entry off) xs) s, h')
    \<and> holds h' head (filter (\<lambda>x. \<not> P (list_entry off x)) xs)"
proof -
  obtain n where n: "get_next h (hd (xs @ [head])) = Some n"
    "tl (xs @ [head]) \<noteq> [] \<Longrightarrow> n = hd (tl (xs @ [head]))"
  proof (cases xs)
    case Nil
    then show ?thesis using that holds_next_head [OF assms] by simp
  next
    case (Cons y zs)
    then show ?thesis using that holds_entry [of h head "[]" y zs] assms by simp
  qed
  have "hd (tl (xs @ [head]) @ [n]) = n" using n(2) by (cases "tl (xs @ [head])") auto
  then show ?thesis
    using entry_safe_loop [of h head "[]" xs off P f n s] assms n(1) holds_next_head [OF assms]
    by (simp add: list_for_each_entry_safe_def)
qed

theorem list_for_each_entry_safe_filters_witness:
  "\<exists>h'. list_for_each_entry_safe 0 (visit_or_delete 0 (\<lambda>e. e = 2) (\<lambda>e s. s @ [e])) 1 [] ex_heap
      = Some ([2, 3], h') \<and> holds h' 1 [3]"
  using list_for_each_entry_safe_filters [OF ex_heap_holds(1), of 0 "\<lambda>e. e = 2" "\<lambda>e s. s @ [e]" "[]"]
  by (simp add: list_entry_def container_of_def)

text \<open>
  The plain loop may not: a body that deletes the first entry leaves \<open>NULL\<close> in it, the loop takes
  the structure before \<open>NULL\<close> for the next entry, and the run is undefined.
\<close>

theorem list_for_each_entry_delete_undefined:
  assumes "holds h head (x # xs)" and "P (list_entry off x)" and "h 0 = None"
  shows "list_for_each_entry off (visit_or_delete off P f) head s h = None"
proof -
  have nz: "head \<noteq> 0" "x \<noteq> head" using holds_dom [OF assms(1)] assms(1,3) by (auto simp: holds_def)
  obtain h1 where del: "list_del x h = Some h1" "get_next h1 x = Some 0" "dom h1 = dom h"
    using list_del_effect [of h head "[]" x xs] assms(1) by (auto simp: untouched_def)
  have h0: "h1 0 = None" using del(3) assms(3) by (metis domIff)
  have "for_each_entry_from off (visit_or_delete off P f) head (list_entry off 0) s' h1 = None" for s'
    using nz h0 by (subst for_each_entry_from.simps)
      (simp add: visit_or_delete_def list_del_def get_prev_def get_next_def)
  then have "for_each_entry_from off (visit_or_delete off P f) head (list_entry off x) s h = None"
    using nz del assms(2) by (subst for_each_entry_from.simps) (simp add: visit_or_delete_def)
  then show ?thesis using holds_next_head [OF assms(1)] by (simp add: list_for_each_entry_def)
qed

theorem list_for_each_entry_delete_undefined_witness:
  "list_for_each_entry 0 (visit_or_delete 0 (\<lambda>e. True) (\<lambda>e (s :: nat). s)) 1 0 ex_heap = None"
  by (rule list_for_each_entry_delete_undefined [OF ex_heap_holds(1)]) (simp_all add: ex_heap_def)

text \<open>\<open>LIST_HEAD\<close> declares an empty list; \<open>list_entry\<close> undoes the step to the member.\<close>

lemma LIST_HEAD_empty: "holds (LIST_HEAD name h) name []"
  by (simp add: holds_def linked_def get_next_def get_prev_def LIST_HEAD_def LIST_HEAD_INIT_def)

lemma list_first_entry_hd:
  "holds h head (x # xs) \<Longrightarrow> list_first_entry off head h = Some (list_entry off x)"
  using holds_next_head [of h head "x # xs"] by (simp add: list_first_entry_def)

end
