(* ===== verification/Time_Log.thy ===== *)
theory Time_Log
  imports Prelude
begin

text \<open>
  src/simpleOSD_generic.c: the log function and the difference of two times. A log call is
  described by its level, its format and how many arguments it passes; \<open>vfprintf\<close> with fewer
  arguments than conversions is undefined behaviour. Whether the log file opens and what
  \<open>strftime\<close> writes are arguments.
\<close>

section \<open>The log\<close>

definition LOG_DEBUG :: int where "LOG_DEBUG = 0"
definition LOG_INFO :: int where "LOG_INFO = 1"
definition LOG_CRITICAL :: int where "LOG_CRITICAL = 2"
definition LOG_ERROR :: int where "LOG_ERROR = 3"
definition MAX_MSG_LEN :: nat where "MAX_MSG_LEN = 4096"

definition LOGTYPE :: "string list" where
  "LOGTYPE = [''LOG_DEBUG'', ''LOG_INFO'', ''LOG_CRITICAL'', ''LOG_ERROR'']"

text \<open>The conversions of a format: a percent sign, unless it is doubled.\<close>

fun conversions :: "string \<Rightarrow> nat" where
  "conversions (a # b # s) =
     (if a = CHR ''%'' then if b = CHR ''%'' then conversions s else Suc (conversions s)
      else conversions (b # s))"
| "conversions s = 0"

datatype log_stream = Log_File | Stderr

record log_env =
  le_level :: int                  \<comment> \<open>\<open>GlobalLogLevel\<close>\<close>
  le_file_opens :: bool
  le_date :: "string option"       \<comment> \<open>what \<open>strftime\<close> writes; \<open>None\<close> when it returns 0\<close>

text \<open>
  What a call prints: nothing below the global level, otherwise a format and the stream it goes
  to. The table of level names has four rows; only levels above the last are mapped into it.
\<close>

definition BLOCKFRONT_LOG ::
    "log_env \<Rightarrow> int \<Rightarrow> string \<Rightarrow> nat \<Rightarrow> (log_stream \<times> string) option c_result" where
  "BLOCKFRONT_LOG env loglevel fmt nargs =
     (if loglevel \<ge> le_level env then
        let stream = (if le_file_opens env then Log_File else Stderr);
            date = (case le_date env of None \<Rightarrow> '''' | Some d \<Rightarrow> d);
            row = (if loglevel > LOG_ERROR then LOG_ERROR else loglevel)
        in if row < 0 then Undefined
           else
             let fmtString = snprintf MAX_MSG_LEN
                   (LOGTYPE ! nat row @ '':'' @ date @ '' :  :Error : '' @ fmt @ ''\<newline>'')
             in if conversions fmtString > nargs then Undefined
                else Returns (Some (stream, fmtString))
      else Returns None)"

lemma conversions_plain: "CHR ''%'' \<notin> set s \<Longrightarrow> conversions s = 0"
  by (induction s rule: conversions.induct) auto

lemma conversions_skip: "CHR ''%'' \<notin> set xs \<Longrightarrow> conversions (xs @ s) = conversions s"
proof (induction xs)
  case (Cons x xs)
  then show ?case by (cases "xs @ s") auto
qed simp

text \<open>\<open>strftime\<close> writes at most 199 characters and, with this format, no percent sign.\<close>

definition log_ok :: "log_env \<Rightarrow> bool" where
  "log_ok env \<longleftrightarrow> (\<forall>d. le_date env = Some d \<longrightarrow> CHR ''%'' \<notin> set d \<and> length d < 200)"

lemma critical_log:
  assumes "log_ok env" and "length fmt < 1000"
  shows "BLOCKFRONT_LOG env LOG_CRITICAL fmt nargs =
     (if LOG_CRITICAL < le_level env then Returns None
      else if nargs < conversions (fmt @ ''\<newline>'') then Undefined
      else Returns (Some (if le_file_opens env then Log_File else Stderr,
        ''LOG_CRITICAL:'' @ (case le_date env of None \<Rightarrow> '''' | Some d \<Rightarrow> d) @ '' :  :Error : ''
          @ fmt @ ''\<newline>'')))"
proof -
  define date where "date = (case le_date env of None \<Rightarrow> '''' | Some d \<Rightarrow> d)"
  have d: "CHR ''%'' \<notin> set date" "length date < 200"
    using assms(1) by (auto simp: date_def log_ok_def split: option.splits)
  define pre where "pre = ''LOG_CRITICAL:'' @ date @ '' :  :Error : ''"
  have pre: "CHR ''%'' \<notin> set pre" "length pre < 250" using d by (simp_all add: pre_def)
  have "snprintf MAX_MSG_LEN (pre @ fmt @ ''\<newline>'') = pre @ fmt @ ''\<newline>''"
    using pre assms(2) by (intro snprintf_id) (simp add: MAX_MSG_LEN_def)
  moreover have "LOGTYPE ! nat LOG_CRITICAL @ '':'' @ date @ '' :  :Error : '' @ fmt @ ''\<newline>''
      = pre @ fmt @ ''\<newline>''"
    by (simp add: LOGTYPE_def LOG_CRITICAL_def pre_def)
  moreover have "conversions (pre @ fmt @ ''\<newline>'') = conversions (fmt @ ''\<newline>'')"
    by (rule conversions_skip [OF pre(1)])
  ultimately have msg: "snprintf MAX_MSG_LEN (LOGTYPE ! nat LOG_CRITICAL @ '':'' @ date
        @ '' :  :Error : '' @ fmt @ ''\<newline>'') = pre @ fmt @ ''\<newline>''"
    and conv: "conversions (pre @ fmt @ ''\<newline>'') = conversions (fmt @ ''\<newline>'')"
    by (simp_all only:)
  have row: "(if LOG_ERROR < LOG_CRITICAL then LOG_ERROR else LOG_CRITICAL) = LOG_CRITICAL"
    "(LOG_CRITICAL < 0) = False"
    by (simp_all add: LOG_ERROR_def LOG_CRITICAL_def)
  have "BLOCKFRONT_LOG env LOG_CRITICAL fmt nargs =
     (if le_level env \<le> LOG_CRITICAL then
        if nargs < conversions (fmt @ ''\<newline>'') then Undefined
        else Returns (Some (if le_file_opens env then Log_File else Stderr, pre @ fmt @ ''\<newline>''))
      else Returns None)"
    by (simp only: BLOCKFRONT_LOG_def Let_def row msg conv if_False flip: date_def)
  then show ?thesis by (auto simp: pre_def date_def)
qed

section \<open>Time differences\<close>

record timeval =
  tv_sec :: int
  tv_usec :: int

text \<open>A signed 64 bit result; overflow is undefined.\<close>

definition i64_result :: "int \<Rightarrow> int c_result" where
  "i64_result x = (if -9223372036854775808 \<le> x \<and> x < 9223372036854775808
     then Returns x else Undefined)"

definition i64_sub :: "int \<Rightarrow> int \<Rightarrow> int c_result" where
  "i64_sub a b = i64_result (a - b)"

definition time_diff :: "timeval \<Rightarrow> timeval \<Rightarrow> timeval c_result" where
  "time_diff time_from time_to =
     (if tv_usec time_to < tv_usec time_from then
        c_bind (i64_sub (tv_sec time_to) (tv_sec time_from)) (\<lambda>d.
        c_bind (i64_sub d 1) (\<lambda>sec.
        c_bind (i64_result (1000000 + tv_usec time_to)) (\<lambda>u.
        c_bind (i64_sub u (tv_usec time_from)) (\<lambda>usec.
          Returns \<lparr>tv_sec = sec, tv_usec = usec\<rparr>))))
      else
        c_bind (i64_sub (tv_sec time_to) (tv_sec time_from)) (\<lambda>sec.
        c_bind (i64_sub (tv_usec time_to) (tv_usec time_from)) (\<lambda>usec.
          Returns \<lparr>tv_sec = sec, tv_usec = usec\<rparr>)))"

text \<open>A time as the system gives it, and its value in microseconds.\<close>

definition time_ok :: "timeval \<Rightarrow> bool" where
  "time_ok t \<longleftrightarrow> 0 \<le> tv_sec t \<and> tv_sec t < 9223372036854775808 \<and> 0 \<le> tv_usec t \<and> tv_usec t < 1000000"

definition usecs :: "timeval \<Rightarrow> int" where
  "usecs t = 1000000 * tv_sec t + tv_usec t"

text \<open>
  \<open>time_diff\<close> of two times as the system gives them never overflows, and its result is the
  difference in microseconds, brought to a microsecond part between 0 and 999999, also when the
  second time is the earlier one.
\<close>

theorem time_diff_correct:
  assumes "time_ok a" and "time_ok b"
  shows "\<exists>d. time_diff a b = Returns d \<and> usecs d = usecs b - usecs a
      \<and> 0 \<le> tv_usec d \<and> tv_usec d < 1000000"
  using assms
  by (auto simp: time_diff_def time_ok_def usecs_def i64_sub_def i64_result_def)

theorem time_diff_correct_witness:
  "\<exists>d. time_diff \<lparr>tv_sec = 5, tv_usec = 900000\<rparr> \<lparr>tv_sec = 7, tv_usec = 100000\<rparr> = Returns d
     \<and> usecs d = 1200000"
  using time_diff_correct [of "\<lparr>tv_sec = 5, tv_usec = 900000\<rparr>" "\<lparr>tv_sec = 7, tv_usec = 100000\<rparr>"]
  by (auto simp: time_ok_def usecs_def)

end
