(* ===== verification/Socket_Wait.thy ===== *)
theory Socket_Wait
  imports Posix Time_Log
begin

text \<open>
  src/simpleOSD_socketop.c: waiting for a socket, with \<open>epoll\<close> and with \<open>select\<close>. The kernel's
  answers are arguments (\<open>sock_calls\<close>); the descriptor of the epoll instance is allocated and
  closed in the system state of the other theories. The log calls are part of the functions,
  because one of them passes too few arguments.
\<close>

section \<open>The calls\<close>

datatype SOCKET_STATUS = SOC_SUCCESS | SOC_TIMEOUT | SOC_ERROR

definition RESERVED_FD_COUNT :: int where "RESERVED_FD_COUNT = 3"
definition SEC2MSEC :: int where "SEC2MSEC = 1000"
definition FD_SETSIZE :: int where "FD_SETSIZE = 1024"

text \<open>Results and \<open>errno\<close> values of the calls on the socket.\<close>

record sock_calls =
  nc_epoll_ctl :: int
  nc_ready :: int              \<comment> \<open>what \<open>epoll_wait\<close> or \<open>select\<close> returns\<close>
  nc_getsockopt :: int
  nc_so_error :: int           \<comment> \<open>what \<open>getsockopt\<close> stores when it succeeds\<close>
  nc_errno :: int              \<comment> \<open>\<open>errno\<close> after the call that has just returned\<close>
  nc_log_errno :: int          \<comment> \<open>\<open>errno\<close> after a log call\<close>
  nc_log :: log_env

definition sys_epoll_create :: "os \<Rightarrow> int \<times> os" where
  "sys_epoll_create os =
     (let (c, os1) = next_choice os in
      if c = Fail then (-1, os1)
      else case free_fd os1 of
          None \<Rightarrow> (-1, os1)
        | Some fd \<Rightarrow> (int fd, os1\<lparr>os_fds := (os_fds os1)
             (fd \<mapsto> \<lparr>of_path = ''[eventpoll]'', of_flags = O_RDWR\<rparr>)\<rparr>))"

text \<open>A 32 bit product; overflow is undefined.\<close>

definition int_mult :: "int \<Rightarrow> int \<Rightarrow> int c_result" where
  "int_mult a b = (if -2147483648 \<le> a * b \<and> a * b < 2147483648 then Returns (a * b) else Undefined)"

text \<open>The label \<open>end\<close>.\<close>

definition epoll_end :: "SOCKET_STATUS \<Rightarrow> int \<Rightarrow> int \<Rightarrow> os \<Rightarrow> (SOCKET_STATUS \<times> int \<times> os) c_result" where
  "epoll_end ret epoll_fd errsv os =
     (if epoll_fd > RESERVED_FD_COUNT then Returns (ret, errsv, snd (sys_close epoll_fd os))
      else Returns (ret, errsv, os))"

definition sock_wait_epoll ::
    "sock_calls \<Rightarrow> int \<Rightarrow> int \<Rightarrow> int \<Rightarrow> os \<Rightarrow> (SOCKET_STATUS \<times> int \<times> os) c_result" where
  "sock_wait_epoll nc socketfd timeout errsv os =
     c_bind (int_mult timeout SEC2MSEC) (\<lambda>timeout_msec.
       let (epoll_fd, os1) = sys_epoll_create os;
           log = BLOCKFRONT_LOG (nc_log nc) LOG_CRITICAL
       in if epoll_fd = -1
          then c_bind (log ''Could not create the epoll FD list %s'' 1)
                 (\<lambda>_. epoll_end SOC_ERROR epoll_fd (nc_log_errno nc) os1)
          else if nc_epoll_ctl nc = -1
          then c_bind (log ''Unable to add socket fd to epoll event list:%s'' 0)
                 (\<lambda>_. epoll_end SOC_ERROR epoll_fd (nc_errno nc) os1)
          else if nc_ready nc \<le> 0
          then c_bind (log ''epoll Error: epoll_wait :%s'' 1)
                 (\<lambda>_. epoll_end (if nc_ready nc \<noteq> 0 then SOC_ERROR else SOC_TIMEOUT) epoll_fd
                        (nc_errno nc) os1)
          else if nc_getsockopt nc < 0
          then c_bind (log ''Socket not ready %s'' 1)
                 (\<lambda>_. epoll_end SOC_ERROR epoll_fd (nc_errno nc) os1)
          else if nc_so_error nc \<noteq> 0
          then c_bind (log ''Socket not ready %s'' 1)
                 (\<lambda>_. epoll_end SOC_ERROR epoll_fd (nc_so_error nc) os1)
          else epoll_end SOC_SUCCESS epoll_fd errsv os1)"

text \<open>
  \<open>sock_wait\<close>: \<open>p_errsv\<close> may be \<open>NULL\<close>; the result of \<open>getsockopt\<close> is not looked at, and \<open>so_error\<close>
  keeps its 0 when it fails. \<open>FD_SET\<close> of a descriptor outside the set is undefined.
\<close>

definition sock_wait ::
    "sock_calls \<Rightarrow> int \<Rightarrow> int \<Rightarrow> bool \<Rightarrow> bool \<Rightarrow> int option
       \<Rightarrow> (SOCKET_STATUS \<times> int option) c_result" where
  "sock_wait nc socketfd timeout rd_fdset wr_fdset errsv =
     (if socketfd < 0 \<or> socketfd \<ge> FD_SETSIZE then Undefined
      else c_bind (BLOCKFRONT_LOG (nc_log nc) LOG_CRITICAL
                     ''wait for connection to get established={%ld,%ld}'' 2) (\<lambda>_.
        let errsv1 = map_option (\<lambda>_. nc_errno nc) errsv;
            log = BLOCKFRONT_LOG (nc_log nc) LOG_CRITICAL
        in if nc_ready nc = 0 then c_bind (log ''This wait timed out'' 0) (\<lambda>_. Returns (SOC_TIMEOUT, errsv1))
           else if nc_ready nc = -1
           then c_bind (log ''This is error during wait'' 0) (\<lambda>_. Returns (SOC_ERROR, errsv1))
           else
             let so_error = (if nc_getsockopt nc < 0 then 0 else nc_so_error nc)
             in if so_error \<noteq> 0
                then case errsv1 of
                    None \<Rightarrow> Undefined
                  | Some _ \<Rightarrow> c_bind (log ''wait failed'' 0) (\<lambda>_. Returns (SOC_ERROR, Some so_error))
                else Returns (SOC_SUCCESS, errsv1)))"

section \<open>Properties\<close>

text \<open>The epoll instance can be created.\<close>

definition epoll_available :: "os \<Rightarrow> bool" where
  "epoll_available os \<longleftrightarrow> choice os \<noteq> Fail \<and> free_fd os \<noteq> None"

lemma sys_epoll_create_eq:
  "sys_epoll_create os = (if epoll_available os
     then (int (the (free_fd os)), (adv os)\<lparr>os_fds := (os_fds os)
        (the (free_fd os) \<mapsto> \<lparr>of_path = ''[eventpoll]'', of_flags = O_RDWR\<rparr>)\<rparr>)
     else (-1, adv os))"
  by (auto simp: sys_epoll_create_def next_choice_eq epoll_available_def)

text \<open>What is left of the descriptor table.\<close>

definition epoll_table :: "os \<Rightarrow> os \<Rightarrow> bool" where
  "epoll_table os os' \<longleftrightarrow> os_fds os' = (case free_fd os of
       Some fd \<Rightarrow> if epoll_available os \<and> int fd \<le> RESERVED_FD_COUNT
         then (os_fds os)(fd \<mapsto> \<lparr>of_path = ''[eventpoll]'', of_flags = O_RDWR\<rparr>) else os_fds os
     | None \<Rightarrow> os_fds os)"

lemma epoll_end_effect:
  assumes "sys_epoll_create os = (fd, os1)"
  shows "\<exists>os'. epoll_end ret fd e os1 = Returns (ret, e, os') \<and> epoll_table os os'"
proof (cases "epoll_available os")
  case True
  then obtain n where n: "free_fd os = Some n" "os_fds os n = None"
    using free_fd_Some by (auto simp: epoll_available_def)
  then have "(os_fds os)(n := None) = os_fds os" by auto
  with True n assms show ?thesis
    by (auto simp: epoll_end_def epoll_table_def sys_epoll_create_eq sys_close_eq fd_file_def)
next
  case False
  then show ?thesis
    using assms by (auto simp: epoll_end_def epoll_table_def sys_epoll_create_eq
        RESERVED_FD_COUNT_def split: option.split)
qed

abbreviation timeout_ok :: "int \<Rightarrow> bool" where
  "timeout_ok t \<equiv> -2147483 \<le> t \<and> t \<le> 2147483"

text \<open>The result by cases; the \<open>errsv\<close> value is left open.\<close>

definition epoll_status :: "sock_calls \<Rightarrow> os \<Rightarrow> SOCKET_STATUS" where
  "epoll_status nc os =
     (if \<not> epoll_available os then SOC_ERROR
      else if nc_ready nc < 0 then SOC_ERROR
      else if nc_ready nc = 0 then SOC_TIMEOUT
      else if nc_getsockopt nc < 0 \<or> nc_so_error nc \<noteq> 0 then SOC_ERROR else SOC_SUCCESS)"

lemma sock_wait_epoll_effect:
  assumes log: "log_ok (nc_log nc)" and t: "timeout_ok timeout"
    and ctl: "epoll_available os \<longrightarrow> nc_epoll_ctl nc \<noteq> -1"
  shows "\<exists>e os'. sock_wait_epoll nc socketfd timeout errsv os = Returns (epoll_status nc os, e, os')
     \<and> epoll_table os os' \<and> (epoll_status nc os = SOC_SUCCESS \<longrightarrow> e = errsv)"
proof -
  obtain fd os1 where c: "sys_epoll_create os = (fd, os1)" by fastforce
  then have fd: "fd = -1 \<longleftrightarrow> \<not> epoll_available os" by (auto simp: sys_epoll_create_eq split: if_splits)
  have mult: "int_mult timeout SEC2MSEC = Returns (timeout * 1000)"
    using t by (simp add: int_mult_def SEC2MSEC_def)
  have "\<exists>e. sock_wait_epoll nc socketfd timeout errsv os = epoll_end (epoll_status nc os) fd e os1
     \<and> (epoll_status nc os = SOC_SUCCESS \<longrightarrow> e = errsv)"
    using ctl fd
    by (auto simp: sock_wait_epoll_def mult c critical_log [OF log] epoll_status_def Let_def)
  then show ?thesis using epoll_end_effect [OF c] by metis
qed

text \<open>
  Waiting with \<open>epoll\<close>: when the socket can be added to the epoll instance, the call returns;
  success means that the socket became ready and has no pending error, a timeout that nothing
  happened, everything else is an error. The epoll descriptor is given back on every path, unless
  it is one of the first four, which are never closed. On success \<open>*p_errsv\<close> is not written.
\<close>

theorem sock_wait_epoll_result:
  assumes "log_ok (nc_log nc)" and "timeout_ok timeout"
    and "epoll_available os \<longrightarrow> nc_epoll_ctl nc \<noteq> -1"
  shows "\<exists>r e os'. sock_wait_epoll nc socketfd timeout errsv os = Returns (r, e, os')
      \<and> (r = SOC_SUCCESS \<longleftrightarrow> epoll_available os \<and> 0 < nc_ready nc \<and> 0 \<le> nc_getsockopt nc
           \<and> nc_so_error nc = 0)
      \<and> (r = SOC_TIMEOUT \<longleftrightarrow> epoll_available os \<and> nc_ready nc = 0)
      \<and> (r = SOC_SUCCESS \<longrightarrow> e = errsv)
      \<and> (\<forall>fd. os_fds os' fd \<noteq> os_fds os fd \<longrightarrow> int fd \<le> RESERVED_FD_COUNT)"
proof -
  obtain e os' where run: "sock_wait_epoll nc socketfd timeout errsv os
      = Returns (epoll_status nc os, e, os')" and tab: "epoll_table os os'"
    and e: "epoll_status nc os = SOC_SUCCESS \<longrightarrow> e = errsv"
    using sock_wait_epoll_effect [OF assms] by blast
  have "\<forall>fd. os_fds os' fd \<noteq> os_fds os fd \<longrightarrow> int fd \<le> RESERVED_FD_COUNT"
    using tab by (auto simp: epoll_table_def split: option.splits if_splits)
  with run e show ?thesis
    by (intro exI [of _ "epoll_status nc os"] exI [of _ e] exI [of _ os'])
       (auto simp: epoll_status_def)
qed

definition ex_calls :: "int \<Rightarrow> int \<Rightarrow> sock_calls" where
  "ex_calls ctl ready = \<lparr>nc_epoll_ctl = ctl, nc_ready = ready, nc_getsockopt = 0, nc_so_error = 0,
     nc_errno = 110, nc_log_errno = 0,
     nc_log = \<lparr>le_level = 0, le_file_opens = True, le_date = Some ''Thu''\<rparr>\<rparr>"

definition ex_sock_os :: os where
  "ex_sock_os = \<lparr>os_files = (\<lambda>_. None), os_creatable = (\<lambda>_. False), os_fds = (\<lambda>_. None),
     os_nofile = 16, os_mutex = (\<lambda>_. False), os_time = 0, os_env = []\<rparr>"

lemma ex_calls_ok: "log_ok (nc_log (ex_calls c r))" "epoll_available ex_sock_os"
  by (auto simp: log_ok_def ex_calls_def epoll_available_def ex_sock_os_def choice_def free_fd_def)

theorem sock_wait_epoll_result_witness:
  "\<exists>e os'. sock_wait_epoll (ex_calls 0 0) 7 30 0 ex_sock_os = Returns (SOC_TIMEOUT, e, os')"
  using sock_wait_epoll_result [OF ex_calls_ok(1) [of 0 0], of 30 ex_sock_os 7 0] ex_calls_ok(2)
  by (force simp: ex_calls_def)

text \<open>
  When the socket cannot be added to the epoll instance, the error is logged with a \<open>%s\<close> that
  has no argument: as long as critical messages are logged at all, the call is undefined.
\<close>

theorem sock_wait_epoll_bad_log:
  assumes "log_ok (nc_log nc)" and "timeout_ok timeout" and "epoll_available os"
    and "nc_epoll_ctl nc = -1" and "le_level (nc_log nc) \<le> LOG_CRITICAL"
  shows "sock_wait_epoll nc socketfd timeout errsv os = Undefined"
  using assms
  by (simp add: sock_wait_epoll_def int_mult_def SEC2MSEC_def sys_epoll_create_eq critical_log Let_def)

theorem sock_wait_epoll_bad_log_witness:
  "sock_wait_epoll (ex_calls (-1) 0) 7 30 0 ex_sock_os = Undefined"
  by (rule sock_wait_epoll_bad_log)
     (simp_all only: ex_calls_ok, simp_all add: ex_calls_def LOG_CRITICAL_def)

text \<open>
  The two waits agree: for a descriptor that fits a \<open>select\<close> set, when the epoll instance is
  set up and \<open>getsockopt\<close> works, \<open>sock_wait\<close> and \<open>sock_wait_epoll\<close> give the same status for the
  same answers of the kernel.
\<close>

theorem sock_waits_agree:
  assumes "log_ok (nc_log nc)" and "timeout_ok timeout" and "epoll_available os"
    and "nc_epoll_ctl nc \<noteq> -1" and "0 \<le> nc_getsockopt nc" and "-1 \<le> nc_ready nc"
    and "0 \<le> socketfd" and "socketfd < FD_SETSIZE"
  shows "\<exists>r e os' e'. sock_wait_epoll nc socketfd timeout errsv os = Returns (r, e, os')
      \<and> sock_wait nc socketfd timeout rd wr (Some errsv) = Returns (r, Some e')"
proof -
  obtain e os' where "sock_wait_epoll nc socketfd timeout errsv os
      = Returns (epoll_status nc os, e, os')"
    using sock_wait_epoll_effect [OF assms(1,2)] assms(4) by blast
  moreover have "\<exists>e'. sock_wait nc socketfd timeout rd wr (Some errsv) = Returns (epoll_status nc os, Some e')"
    using assms(3-) by (simp add: sock_wait_def epoll_status_def critical_log [OF assms(1)] Let_def)
  ultimately show ?thesis by blast
qed

theorem sock_waits_agree_witness:
  "\<exists>r e os' e'. sock_wait_epoll (ex_calls 0 1) 7 30 0 ex_sock_os = Returns (r, e, os')
     \<and> sock_wait (ex_calls 0 1) 7 30 True False (Some 0) = Returns (r, Some e')"
  by (rule sock_waits_agree)
     (simp_all only: ex_calls_ok, simp_all add: ex_calls_def FD_SETSIZE_def)

end
