(* ===== verification/Startup.thy ===== *)
theory Startup
  imports Lun
begin

text \<open>
  What runs when the library is loaded: the constructor of src/simpleOSD_bs.c, which fills the
  table of the block store, reads the configuration (src/simpleOSD_conf.c, src/simpleOSD_helper.c)
  and raises the limit of descriptors. The build is the one without \<open>USE_LOCAL_CONFIG_PARSER\<close>.
  The parameters are the global \<open>global_blk_frontend_parameters\<close>, the only object
  \<open>get_dc_parameters_from_conf\<close> is called with.
\<close>

section \<open>Configuration\<close>

definition global_blk_frontend_parameters :: blk_frontend_parameters where
  "global_blk_frontend_parameters = \<lparr>bp_dc_path = '''', bp_dp_mds_addr = '''', bp_block_size = 0,
     bp_streaming_size = 0, bp_is_intiliazed = 0\<rparr>"

definition config_path :: string where
  "config_path = ''/etc/simpleOSD/simpleOSD.log''"

definition ERROR :: i32 where "ERROR = -1"

definition blk_parse_conf ::
    "string \<Rightarrow> blk_frontend_parameters \<Rightarrow> i32 \<times> blk_frontend_parameters" where
  "blk_parse_conf p_config_path p_blk_param = (let ret = ERROR in (ret, p_blk_param))"

text \<open>The defaults stand after a \<open>return\<close>; they are never reached.\<close>

definition get_dc_parameters_from_conf ::
    "blk_frontend_parameters \<Rightarrow> blk_frontend_parameters" where
  "get_dc_parameters_from_conf g =
     (case blk_parse_conf config_path g of
        (r, g1) \<Rightarrow> if r \<noteq> 0 then g1 else g1\<lparr>bp_is_intiliazed := TRUE\<rparr>)"

section \<open>The constructor\<close>

text \<open>\<open>setrlimit(RLIMIT_NOFILE)\<close> with equal soft and hard limit; it may be refused.\<close>

definition sys_setrlimit_nofile :: "nat \<Rightarrow> os \<Rightarrow> int \<times> os" where
  "sys_setrlimit_nofile n os =
     (let (c, os1) = next_choice os in
      if c = Fail then (-1, os1) else (0, os1\<lparr>os_nofile := n\<rparr>))"

definition simpleOSD_blk_op_constructor ::
    "bool \<Rightarrow> bool \<Rightarrow> blk_io_args \<Rightarrow> blk_frontend_parameters \<Rightarrow> os
       \<Rightarrow> bs_io_op \<times> blk_frontend_parameters \<times> os" where
  "simpleOSD_blk_op_constructor mds_db initial_cache junk g os =
     (let g1 = (if bp_is_intiliazed g = FALSE then get_dc_parameters_from_conf g else g);
          (_, os1) = sys_setrlimit_nofile 65535 os
      in (simpleOSD_bs_op mds_db initial_cache g1 junk, g1, os1))"

section \<open>Properties\<close>

text \<open>
  C36: After start-up nothing is configured: reading the configuration always fails, the defaults
  are never set, and the parameters stay as the zeros they were. The data directory is the empty
  string, so the files of every volume are looked for directly under the root directory, in
  \<open>/osd_id=\<close> and the volume's name, not under \<open>/simpleOSD/\<close>.
\<close>

theorem startup_leaves_defaults_unset:
  assumes "length vol + 49 < MAXPATHLEN" and "length oid = MAXOIDLEN"
    and "simpleOSD_blk_op_constructor mds ic junk global_blk_frontend_parameters os = (tbl, g, os')"
  shows "g = global_blk_frontend_parameters \<and> bp_is_intiliazed g = FALSE
      \<and> tbl = simpleOSD_bs_op mds ic global_blk_frontend_parameters junk
      \<and> (\<exists>file. osd_object_to_dc_path g (Some vol) (Some oid) (Some [])
           = (OSD_SUCCESS, Some (''/osd_id='' @ vol @ ''/'' @ file)))"
proof -
  have g: "g = global_blk_frontend_parameters"
    and tbl: "tbl = simpleOSD_bs_op mds ic global_blk_frontend_parameters junk"
    using assms(3)
    by (simp_all add: simpleOSD_blk_op_constructor_def get_dc_parameters_from_conf_def
        blk_parse_conf_def ERROR_def Let_def split: prod.splits if_splits)
  have "path_fits g vol" using assms(1)
    by (simp add: path_fits_def g global_blk_frontend_parameters_def)
  then have "osd_object_to_dc_path g (Some vol) (Some oid) (Some [])
      = (OSD_SUCCESS, Some (dc_data_path g vol oid))"
    using assms(2) by (rule osd_object_to_dc_path_fits)
  moreover have "\<exists>file. dc_data_path g vol oid = ''/osd_id='' @ vol @ ''/'' @ file"
    by (simp add: dc_data_path_def g global_blk_frontend_parameters_def)
  ultimately show ?thesis
    using g tbl by (auto simp: global_blk_frontend_parameters_def FALSE_def)
qed


theorem startup_leaves_defaults_unset_witness:
  "\<exists>file. osd_object_to_dc_path global_blk_frontend_parameters (Some ''vol'') (Some ex_start) (Some [])
     = (OSD_SUCCESS, Some (''/osd_id=vol/'' @ file))"
proof -
  obtain tbl g os' where run: "simpleOSD_blk_op_constructor True False
      \<lparr>ba_lun_index = 0, ba_buf = [], ba_buf_len = 0, ba_offset = 0\<rparr> global_blk_frontend_parameters ex_os
      = (tbl, g, os')" by (metis prod_cases3)
  show ?thesis
    using startup_leaves_defaults_unset [of "''vol''" ex_start, OF _ _ run]
    by (auto simp: MAXPATHLEN_def MAXOIDLEN_def ex_start_def)
qed

end
