(* ===== verification/Conf_Parse.thy ===== *)
theory Conf_Parse
  imports Startup
begin

text \<open>
  The configuration parser of src/simpleOSD_conf.c, the code under \<open>USE_LOCAL_CONFIG_PARSER\<close>. The
  library that reads the file (\<open>config_ParseFile\<close> and the rest) is not part of the repository: its
  functions are the record \<open>config_lib\<close>. A char array of C is a list of its length; a C string in it
  ends at the first \<open>NUL\<close>. The parser writes to fields that \<open>blk_frontend_parameters_t\<close> does not
  have, so their sizes are left open: they are those of the arrays in \<open>parse_state\<close>.
\<close>

section \<open>C strings in arrays\<close>

definition NUL :: char where "NUL = CHR 0x00"

definition c_string :: "string \<Rightarrow> string" where
  "c_string buf = takeWhile (\<lambda>c. c \<noteq> NUL) buf"

text \<open>\<open>strncpy\<close> writes exactly \<open>n\<close> characters, padding with \<open>NUL\<close>; past the array's end it is
  undefined.\<close>

definition strncpy :: "string \<Rightarrow> string \<Rightarrow> nat \<Rightarrow> string c_result" where
  "strncpy dst src n =
     (if length dst < n then Undefined
      else Returns (take n (src @ replicate n NUL) @ drop n dst))"

definition is_digit :: "char \<Rightarrow> bool" where
  "is_digit c \<longleftrightarrow> 48 \<le> (of_char c :: nat) \<and> (of_char c :: nat) \<le> 57"

definition is_space :: "char \<Rightarrow> bool" where
  "is_space c \<longleftrightarrow> (of_char c :: nat) = 32 \<or> 9 \<le> (of_char c :: nat) \<and> (of_char c :: nat) \<le> 13"

definition digits_value :: "string \<Rightarrow> int" where
  "digits_value s = foldl (\<lambda>n c. 10 * n + (of_char c - 48)) 0 s"

text \<open>\<open>atoi\<close> of the GNU C library: \<open>strtol\<close>, which saturates, cut to an \<open>int\<close>.\<close>

definition strtol :: "string \<Rightarrow> int" where
  "strtol s =
     (let t = dropWhile is_space s;
          neg = (t \<noteq> [] \<and> hd t = CHR ''-'');
          u = (if t \<noteq> [] \<and> (hd t = CHR ''-'' \<or> hd t = CHR ''+'') then tl t else t);
          v = digits_value (takeWhile is_digit u)
      in max (- (2 ^ 63)) (min (2 ^ 63 - 1) (if neg then - v else v)))"

definition atoi :: "string \<Rightarrow> i32" where
  "atoi s = of_int (strtol s)"

section \<open>The parser\<close>

record ('cfg, 'item) config_lib =
  cl_ParseFile :: "string \<Rightarrow> 'cfg option"
  cl_FindItemByName :: "'cfg \<Rightarrow> string \<Rightarrow> 'item option"
  cl_GetNbItems :: "'item \<Rightarrow> i32"
  cl_GetItemByIndex :: "'item \<Rightarrow> i32 \<Rightarrow> 'item"
  cl_GetKeyValue :: "'item \<Rightarrow> i32 \<times> string \<times> string"

text \<open>What the parser writes: fields of the parameters, and the globals \<open>logFile\<close> and
  \<open>GlobalLogLevel\<close>.\<close>

record parse_state =
  ps_l2_mds_addr :: string
  ps_blk_mds_voldb :: string
  ps_blk_mds_l2mapdb :: string
  ps_l2_mds_port :: i32
  ps_dc_path :: string
  ps_block_size :: i32
  ps_logFile :: string
  ps_GlobalLogLevel :: i32

definition CONF_LABEL_BLOCK :: string where "CONF_LABEL_BLOCK = ''OSD''"

definition set_param :: "string \<Rightarrow> string \<Rightarrow> parse_state \<Rightarrow> parse_state c_result" where
  "set_param key_fname key_value p =
     (if key_fname = ''L2_Mds_Addr'' then
        c_bind (strncpy (ps_l2_mds_addr p) key_value MAX_PARAM_LEN) (\<lambda>b. Returns (p\<lparr>ps_l2_mds_addr := b\<rparr>))
      else if key_fname = ''Mds_volDb'' then
        c_bind (strncpy (ps_blk_mds_voldb p) key_value MAX_PARAM_LEN) (\<lambda>b. Returns (p\<lparr>ps_blk_mds_voldb := b\<rparr>))
      else if key_fname = ''Mds_l2mapDb'' then
        c_bind (strncpy (ps_blk_mds_l2mapdb p) key_value MAX_PARAM_LEN) (\<lambda>b. Returns (p\<lparr>ps_blk_mds_l2mapdb := b\<rparr>))
      else if key_fname = ''L2_Mds_Port'' then Returns (p\<lparr>ps_l2_mds_port := atoi key_value\<rparr>)
      else if key_fname = ''Cache_Directory'' then
        c_bind (strncpy (ps_dc_path p) key_value MAX_PARAM_LEN) (\<lambda>b. Returns (p\<lparr>ps_dc_path := b\<rparr>))
      else if key_fname = ''Blocksize'' then Returns (p\<lparr>ps_block_size := atoi key_value\<rparr>)
      else if key_fname = ''Log_path'' then
        c_bind (strncpy (ps_logFile p) key_value MAX_PARAM_LEN) (\<lambda>b. Returns (p\<lparr>ps_logFile := b\<rparr>))
      else if key_fname = ''Log_level'' then Returns (p\<lparr>ps_GlobalLogLevel := atoi key_value\<rparr>)
      else Returns p)"

text \<open>\<open>n\<close> items are left.\<close>

fun param_loop ::
    "('cfg, 'item) config_lib \<Rightarrow> 'item \<Rightarrow> nat \<Rightarrow> nat \<Rightarrow> i32 \<Rightarrow> parse_state \<Rightarrow> (i32 \<times> parse_state) c_result"
  where
  "param_loop lib block var_index 0 rc p = Returns (rc, p)"
| "param_loop lib block var_index (Suc n) rc p =
     (case cl_GetKeyValue lib (cl_GetItemByIndex lib block (of_nat var_index)) of
        (rc1, key_fname, key_value) \<Rightarrow>
          if rc1 \<noteq> 0 then Returns (rc1, p)
          else c_bind (set_param key_fname key_value p) (param_loop lib block (Suc var_index) n rc1))"

definition blk_parse_param ::
    "('cfg, 'item) config_lib \<Rightarrow> 'cfg \<Rightarrow> parse_state \<Rightarrow> (i32 \<times> parse_state) c_result" where
  "blk_parse_param lib in_config p =
     (case cl_FindItemByName lib in_config CONF_LABEL_BLOCK of
        None \<Rightarrow> Returns (-1, p)
      | Some block \<Rightarrow> param_loop lib block 0 (nat (sint (cl_GetNbItems lib block))) 0 p)"

text \<open>\<open>blk_parse_conf\<close> with the parser compiled in; \<open>rc\<close> is local and \<open>ret\<close> is what it returns.\<close>

definition blk_parse_conf_local ::
    "('cfg, 'item) config_lib \<Rightarrow> string \<Rightarrow> parse_state \<Rightarrow> (i32 \<times> parse_state) c_result" where
  "blk_parse_conf_local lib p_config_path p =
     (let ret = ERROR in
      case cl_ParseFile lib p_config_path of
        None \<Rightarrow> Returns (ret, p)
      | Some config_struct \<Rightarrow>
          c_bind (blk_parse_param lib config_struct p) (\<lambda>(rc, p1). Returns (ret, p1)))"

section \<open>Reading a block of items\<close>

text \<open>The first \<open>n\<close> items of a block that can all be read.\<close>

definition has_items :: "('cfg, 'item) config_lib \<Rightarrow> 'item \<Rightarrow> (string \<times> string) list \<Rightarrow> bool" where
  "has_items lib block kvs \<longleftrightarrow>
     (\<forall>i < length kvs. cl_GetKeyValue lib (cl_GetItemByIndex lib block (of_nat i)) = (0, kvs ! i))"

fun set_params :: "(string \<times> string) list \<Rightarrow> parse_state \<Rightarrow> parse_state c_result" where
  "set_params [] p = Returns p"
| "set_params ((k, v) # kvs) p = c_bind (set_param k v p) (set_params kvs)"

lemma param_loop_items:
  assumes "\<forall>i < length kvs. cl_GetKeyValue lib (cl_GetItemByIndex lib block (of_nat (idx + i))) = (0, kvs ! i)"
  shows "param_loop lib block idx (length kvs) 0 p = c_bind (set_params kvs p) (\<lambda>p1. Returns (0, p1))"
  using assms
proof (induction kvs arbitrary: idx p)
  case (Cons kv kvs)
  obtain k v where kv: "kv = (k, v)" by (cases kv)
  have head: "cl_GetKeyValue lib (cl_GetItemByIndex lib block (of_nat idx)) = (0, k, v)"
    using Cons.prems [rule_format, of 0] by (simp add: kv)
  have "param_loop lib block (Suc idx) (length kvs) 0 p1 = c_bind (set_params kvs p1) (\<lambda>p1. Returns (0, p1))" for p1
    using Cons.IH [of "Suc idx" p1] Cons.prems [rule_format, of "Suc _"] by simp
  then have "param_loop lib block (Suc idx) (length kvs) 0 = (\<lambda>p1. c_bind (set_params kvs p1) (\<lambda>p1. Returns (0, p1)))"
    by (rule ext)
  then show ?case by (cases "set_param k v p") (simp_all add: kv head)
qed simp

lemma blk_parse_param_items:
  assumes "cl_FindItemByName lib cfg CONF_LABEL_BLOCK = Some block" and "has_items lib block kvs"
    and "sint (cl_GetNbItems lib block) = int (length kvs)"
  shows "blk_parse_param lib cfg p = c_bind (set_params kvs p) (\<lambda>p1. Returns (0, p1))"
  using param_loop_items [of kvs lib block 0 p] assms by (simp add: blk_parse_param_def has_items_def)

text \<open>The arrays the parser fills have room for \<open>MAX_PARAM_LEN\<close> characters.\<close>

definition roomy :: "parse_state \<Rightarrow> bool" where
  "roomy p \<longleftrightarrow> MAX_PARAM_LEN \<le> length (ps_l2_mds_addr p) \<and> MAX_PARAM_LEN \<le> length (ps_blk_mds_voldb p)
     \<and> MAX_PARAM_LEN \<le> length (ps_blk_mds_l2mapdb p) \<and> MAX_PARAM_LEN \<le> length (ps_dc_path p)
     \<and> MAX_PARAM_LEN \<le> length (ps_logFile p)"

definition filled :: "string \<Rightarrow> string \<Rightarrow> string" where
  "filled dst src = take MAX_PARAM_LEN (src @ replicate MAX_PARAM_LEN NUL) @ drop MAX_PARAM_LEN dst"

lemma length_filled [simp]: "MAX_PARAM_LEN \<le> length dst \<Longrightarrow> length (filled dst src) = length dst"
  by (simp add: filled_def)

lemma filled_filled [simp]: "filled (filled dst a) b = filled dst b"
  by (simp add: filled_def)

lemma strncpy_filled: "MAX_PARAM_LEN \<le> length dst \<Longrightarrow> strncpy dst src MAX_PARAM_LEN = Returns (filled dst src)"
  by (simp add: strncpy_def filled_def)

lemma set_param_roomy:
  assumes "roomy p"
  shows "\<exists>p1. set_param k v p = Returns p1 \<and> roomy p1
     \<and> ps_block_size p1 = (if k = ''Blocksize'' then atoi v else ps_block_size p)
     \<and> ps_l2_mds_port p1 = (if k = ''L2_Mds_Port'' then atoi v else ps_l2_mds_port p)
     \<and> ps_dc_path p1 = (if k = ''Cache_Directory'' then filled (ps_dc_path p) v else ps_dc_path p)
     \<and> ps_logFile p1 = (if k = ''Log_path'' then filled (ps_logFile p) v else ps_logFile p)"
  using assms by (auto simp: set_param_def roomy_def strncpy_filled)

text \<open>A later entry overrides an earlier one.\<close>

definition last_value :: "(string \<times> string) list \<Rightarrow> string \<Rightarrow> string option" where
  "last_value kvs k = map_of (rev kvs) k"

lemma last_value_Nil [simp]: "last_value [] k = None"
  by (simp add: last_value_def)

lemma last_value_Cons [simp]:
  "last_value ((k', v) # kvs) k = (case last_value kvs k of None \<Rightarrow> if k = k' then Some v else None | Some w \<Rightarrow> Some w)"
  by (simp add: last_value_def map_add_def split: option.split)

definition updated :: "'a \<Rightarrow> (string \<Rightarrow> 'a) \<Rightarrow> string option \<Rightarrow> 'a" where
  "updated old f w = (case w of None \<Rightarrow> old | Some v \<Rightarrow> f v)"

lemma updated_simps [simp]: "updated old f None = old" "updated old f (Some v) = f v"
  by (simp_all add: updated_def)

lemma updated_Cons:
  "updated (if k = K then f v else old) f w
     = updated old f (case w of None \<Rightarrow> if K = k then Some v else None | Some x \<Rightarrow> Some x)"
  by (auto simp: updated_def split: option.split)

lemma filled_if [simp]: "filled (if c then filled dst v else dst) = filled dst"
  by (auto simp: fun_eq_iff)

lemma set_params_roomy:
  assumes "roomy p"
  shows "\<exists>p1. set_params kvs p = Returns p1
     \<and> ps_block_size p1 = updated (ps_block_size p) atoi (last_value kvs ''Blocksize'')
     \<and> ps_l2_mds_port p1 = updated (ps_l2_mds_port p) atoi (last_value kvs ''L2_Mds_Port'')
     \<and> ps_dc_path p1 = updated (ps_dc_path p) (filled (ps_dc_path p)) (last_value kvs ''Cache_Directory'')
     \<and> ps_logFile p1 = updated (ps_logFile p) (filled (ps_logFile p)) (last_value kvs ''Log_path'')"
  using assms
proof (induction kvs arbitrary: p)
  case (Cons kv kvs)
  obtain k v where kv: "kv = (k, v)" by (cases kv)
  obtain p1 where p1: "set_param k v p = Returns p1" "roomy p1"
    and fields: "ps_block_size p1 = (if k = ''Blocksize'' then atoi v else ps_block_size p)"
      "ps_l2_mds_port p1 = (if k = ''L2_Mds_Port'' then atoi v else ps_l2_mds_port p)"
      "ps_dc_path p1 = (if k = ''Cache_Directory'' then filled (ps_dc_path p) v else ps_dc_path p)"
      "ps_logFile p1 = (if k = ''Log_path'' then filled (ps_logFile p) v else ps_logFile p)"
    using set_param_roomy [OF Cons.prems, of k v] by blast
  from Cons.IH [OF p1(2)] obtain p2 where p2: "set_params kvs p1 = Returns p2"
    and rest: "ps_block_size p2 = updated (ps_block_size p1) atoi (last_value kvs ''Blocksize'')"
      "ps_l2_mds_port p2 = updated (ps_l2_mds_port p1) atoi (last_value kvs ''L2_Mds_Port'')"
      "ps_dc_path p2 = updated (ps_dc_path p1) (filled (ps_dc_path p1)) (last_value kvs ''Cache_Directory'')"
      "ps_logFile p2 = updated (ps_logFile p1) (filled (ps_logFile p1)) (last_value kvs ''Log_path'')"
    by blast
  show ?case
    by (intro exI [of _ p2] conjI)
       (simp_all only: kv set_params.simps p1(1) c_bind.simps p2 rest fields last_value_Cons
         updated_Cons filled_if)
qed simp

lemma c_string_filled:
  assumes "MAX_PARAM_LEN \<le> length dst" and "NUL \<notin> set v" and "length v < MAX_PARAM_LEN"
  shows "c_string (filled dst v) = v"
proof -
  obtain n where n: "MAX_PARAM_LEN - length v = Suc n" using assms(3) by (cases "MAX_PARAM_LEN - length v") auto
  have "filled dst v = v @ NUL # replicate n NUL @ drop MAX_PARAM_LEN dst"
    using assms(3) n diff_le_self [of MAX_PARAM_LEN "length v"] by (simp add: filled_def min_absorb1)
  then have "c_string (filled dst v) = takeWhile (\<lambda>c. c \<noteq> NUL) (v @ NUL # replicate n NUL @ drop MAX_PARAM_LEN dst)"
    by (simp only: c_string_def)
  also have "\<dots> = v" by (subst takeWhile_append2) (use assms(2) in auto)
  finally show ?thesis .
qed

lemma set_param_log_length:
  "set_param k v p = Returns p1 \<Longrightarrow> length (ps_logFile p1) = length (ps_logFile p)"
  by (auto simp: set_param_def strncpy_def c_bind_eq_Returns_iff split: if_splits)

lemma set_param_defined: "set_param k v p \<noteq> Hangs"
  by (simp add: set_param_def strncpy_def)

section \<open>Properties\<close>

text \<open>
  The parser takes the last entry of each key: for a block whose items can all be read and arrays
  that have room, it returns 0 and every field holds the value of the last item with its key,
  numbers as \<open>atoi\<close> reads them and strings of less than \<open>MAX_PARAM_LEN\<close> characters unchanged, or
  what it held before when no item has the key.
\<close>

theorem blk_parse_param_last_value:
  assumes "cl_FindItemByName lib cfg CONF_LABEL_BLOCK = Some block" and "has_items lib block kvs"
    and "sint (cl_GetNbItems lib block) = int (length kvs)" and "roomy p"
  shows "\<exists>p1. blk_parse_param lib cfg p = Returns (0, p1)
    \<and> ps_block_size p1 = updated (ps_block_size p) atoi (last_value kvs ''Blocksize'')
    \<and> ps_l2_mds_port p1 = updated (ps_l2_mds_port p) atoi (last_value kvs ''L2_Mds_Port'')
    \<and> (last_value kvs ''Cache_Directory'' = None \<longrightarrow> ps_dc_path p1 = ps_dc_path p)
    \<and> (\<forall>v. last_value kvs ''Cache_Directory'' = Some v \<and> NUL \<notin> set v \<and> length v < MAX_PARAM_LEN
          \<longrightarrow> c_string (ps_dc_path p1) = v)
    \<and> (\<forall>v. last_value kvs ''Log_path'' = Some v \<and> NUL \<notin> set v \<and> length v < MAX_PARAM_LEN
          \<longrightarrow> c_string (ps_logFile p1) = v)"
proof -
  have room: "MAX_PARAM_LEN \<le> length (ps_dc_path p)" "MAX_PARAM_LEN \<le> length (ps_logFile p)"
    using assms(4) by (simp_all add: roomy_def)
  show ?thesis
    using set_params_roomy [OF assms(4), of kvs] c_string_filled [OF room(1)] c_string_filled [OF room(2)]
    unfolding blk_parse_param_items [OF assms(1-3)] by fastforce
qed

definition ex_lib :: "(unit, nat) config_lib" where
  "ex_lib = \<lparr>cl_ParseFile = (\<lambda>path. Some ()), cl_FindItemByName = (\<lambda>cfg name. if name = ''OSD'' then Some 0 else None),
     cl_GetNbItems = (\<lambda>item. 3), cl_GetItemByIndex = (\<lambda>item i. unat i),
     cl_GetKeyValue = (\<lambda>item. if item = 0 then (0, ''Blocksize'', ''512'')
        else if item = 1 then (0, ''Cache_Directory'', ''/data'') else (0, ''Blocksize'', ''4096''))\<rparr>"

definition ex_kvs :: "(string \<times> string) list" where
  "ex_kvs = [(''Blocksize'', ''512''), (''Cache_Directory'', ''/data''), (''Blocksize'', ''4096'')]"

definition ex_parse_state :: "nat \<Rightarrow> parse_state" where
  "ex_parse_state n = (let b = replicate MAX_PARAM_LEN NUL in
     \<lparr>ps_l2_mds_addr = b, ps_blk_mds_voldb = b, ps_blk_mds_l2mapdb = b, ps_l2_mds_port = 0,
      ps_dc_path = b, ps_block_size = 0, ps_logFile = replicate n NUL, ps_GlobalLogLevel = 0\<rparr>)"

lemma ex_items: "has_items ex_lib 0 ex_kvs"
  by (simp add: has_items_def ex_lib_def ex_kvs_def All_less_Suc)

theorem blk_parse_param_last_value_witness:
  "\<exists>p1. blk_parse_param ex_lib () (ex_parse_state 128) = Returns (0, p1)
     \<and> ps_block_size p1 = 4096 \<and> c_string (ps_dc_path p1) = ''/data''"
proof -
  have "atoi ''4096'' = 4096"
    by (simp add: atoi_def strtol_def is_space_def is_digit_def digits_value_def)
  moreover have "roomy (ex_parse_state 128)"
    by (simp add: roomy_def ex_parse_state_def MAX_PARAM_LEN_def Let_def)
  ultimately show ?thesis
    using blk_parse_param_last_value [of ex_lib "()" 0 ex_kvs "ex_parse_state 128", OF _ ex_items]
    by (auto simp: ex_lib_def ex_kvs_def CONF_LABEL_BLOCK_def NUL_def MAX_PARAM_LEN_def)
qed

text \<open>
  C38: An entry \<open>Log_path\<close>, whatever its value, makes the parser write past the end of \<open>logFile\<close>:
  \<open>strncpy\<close> fills \<open>MAX_PARAM_LEN\<close> characters, and the array of simpleOSD_generic.c has only the 23 of
  its initial value; the \<open>extern\<close> declaration in simpleOSD_conf.c says \<open>MAXPATHLEN\<close>.
\<close>

theorem log_path_overflows:
  assumes "cl_FindItemByName lib cfg CONF_LABEL_BLOCK = Some block" and "has_items lib block kvs"
    and "sint (cl_GetNbItems lib block) = int (length kvs)" and "last_value kvs ''Log_path'' \<noteq> None"
    and "length (ps_logFile p) = length ''/var/log/simpleOSD.log'' + 1"
  shows "blk_parse_param lib cfg p = Undefined"
proof -
  have "set_params kvs p = Undefined"
    using assms(4,5)
  proof (induction kvs arbitrary: p)
    case (Cons kv kvs)
    obtain k v where kv: "kv = (k, v)" by (cases kv)
    show ?case
    proof (cases "set_param k v p")
      case (Returns p1)
      then have "k \<noteq> ''Log_path''"
        using Cons.prems(2) by (auto simp: set_param_def strncpy_def MAX_PARAM_LEN_def)
      then have "set_params kvs p1 = Undefined"
        using Cons.IH [of p1] Cons.prems set_param_log_length [OF Returns]
        by (auto simp: kv split: option.splits)
      then show ?thesis by (simp add: kv Returns)
    qed (use set_param_defined [of k v p] in \<open>simp_all add: kv\<close>)
  qed simp
  then show ?thesis by (simp add: blk_parse_param_items [OF assms(1-3)])
qed

theorem log_path_overflows_witness:
  "blk_parse_param (ex_lib\<lparr>cl_GetKeyValue := (\<lambda>item. (0, ''Log_path'', ''/l''))\<rparr>) () (ex_parse_state 23) = Undefined"
  by (rule log_path_overflows [of _ _ 0 "replicate 3 (''Log_path'', ''/l'')"])
     (simp_all add: ex_lib_def has_items_def CONF_LABEL_BLOCK_def ex_parse_state_def Let_def eval_nat_numeral All_less_Suc)

text \<open>The result of the parser is not used: \<open>blk_parse_conf\<close> fails for every file.\<close>

lemma blk_parse_conf_local_fails:
  "blk_parse_conf_local lib path p = Returns (r, p1) \<Longrightarrow> r = ERROR"
  by (auto simp: blk_parse_conf_local_def Let_def c_bind_eq_Returns_iff split: option.splits)

end
